(* ===== verification/Prelude.thy ===== *)
theory Prelude
  imports Main "HOL-Library.Word" "HOL-Library.Char_ord" "HOL-Library.List_Lexorder"
begin

text \<open>
  Shared vocabulary of the development: the Go values every component uses.

  \<^item> Errors. A Go \<open>error\<close> is \<^emph>\<open>nil\<close> or a value; here \<open>go_error option\<close>, or the left
    summand of a result \<open>go_error + 'a\<close>. A value keeps what the source builds it from: a
    package-level sentinel, an opaque error of code outside the repository, the call
    \<open>fmt.Errorf(format, args..., cause)\<close>, or \<open>errors.Join\<close>. \<open>errors_Is\<close> walks the chain as
    \<open>errors.Is\<close> does.
  \<^item> Integers. \<open>int\<close> values of the source are 64-bit; \<open>i64\<close> is the wrap-around of their
    arithmetic, written out. A \<open>time.Duration\<close> is such an integer, in nanoseconds.
  \<^item> Time. A \<open>time.Time\<close> is an integer number of nanoseconds since the Unix epoch.
  \<^item> Strings are byte strings, as in Go: a \<open>char\<close> is a byte.
\<close>

named_theorems go_simps \<open>simplification rules for results, errors and joins\<close>
named_theorems inv_intros \<open>preservation of component invariants\<close>

section \<open>Errors\<close>

datatype sentinel =
    EOF | ErrUnexpectedEOF
  | ContextCanceled | DeadlineExceeded
  | ErrServerClosed
  | ErrTxClosed
  | NatsErrTimeout | ErrStreamNotFound | ErrConsumerNotFound | ErrConnectionClosed
  | RedisNil | RedisErrNotFound
  | ObjectErrNotFound

datatype fmt_arg = FStr string | FInt int

datatype go_error =
    Sentinel sentinel
  | External string
  | Errorf string "fmt_arg list" "go_error option"
  | Joined "go_error list"

fun errors_Is :: "go_error \<Rightarrow> sentinel \<Rightarrow> bool" where
  "errors_Is (Sentinel s) t = (s = t)"
| "errors_Is (External m) t = False"
| "errors_Is (Errorf f as cause) t = (case cause of None \<Rightarrow> False | Some e \<Rightarrow> errors_Is e t)"
| "errors_Is (Joined es) t = list_ex (\<lambda>e. errors_Is e t) es"

abbreviation errorf :: "string \<Rightarrow> go_error" where
  "errorf f \<equiv> Errorf f [] None"

abbreviation wrapf :: "string \<Rightarrow> go_error \<Rightarrow> go_error" where
  "wrapf f e \<equiv> Errorf f [] (Some e)"

type_synonym 'a result = "go_error + 'a"

fun bindR :: "'a result \<Rightarrow> ('a \<Rightarrow> 'b result) \<Rightarrow> 'b result" where
  "bindR (Inl err) k = Inl err"
| "bindR (Inr x) k = k x"

definition errors_Join :: "go_error option list \<Rightarrow> go_error option" where
  "errors_Join es =
     (let present = List.map_filter (\<lambda>e. e) es
      in if present = [] then None else Some (Joined present))"

section \<open>64-bit integers, durations and instants\<close>

type_synonym duration = int
type_synonym time = int

definition i64 :: "int \<Rightarrow> int" where
  "i64 x = (x + 2 ^ 63) mod 2 ^ 64 - 2 ^ 63"

definition in_i64 :: "int \<Rightarrow> bool" where
  "in_i64 x \<longleftrightarrow> - (2 ^ 63) \<le> x \<and> x < 2 ^ 63"

definition in_i32 :: "int \<Rightarrow> bool" where
  "in_i32 x \<longleftrightarrow> - (2 ^ 31) \<le> x \<and> x < 2 ^ 31"

definition Millisecond :: duration where
  "Millisecond = 1000000"

definition Second :: duration where
  "Second = 1000000000"

definition Minute :: duration where
  "Minute = 60 * Second"

text \<open>Go's integer division truncates towards zero.\<close>

definition quot :: "int \<Rightarrow> int \<Rightarrow> int" where
  "quot a b = sgn a * sgn b * (\<bar>a\<bar> div \<bar>b\<bar>)"

section \<open>Bytes of a string\<close>

definition byte_between :: "char \<Rightarrow> char \<Rightarrow> char \<Rightarrow> bool" where
  "byte_between lo hi c \<longleftrightarrow> (of_char lo :: nat) \<le> of_char c \<and> (of_char c :: nat) \<le> of_char hi"

section \<open>Lemmas\<close>

lemma set_present: "set (List.map_filter (\<lambda>e. e) es) = {x. Some x \<in> set es}"
  by (induction es) (auto simp: map_filter_simps split: option.splits)

lemma errors_Join_None_iff [go_simps]:
  "errors_Join es = None \<longleftrightarrow> (\<forall>e \<in> set es. e = None)"
  by (induction es) (auto simp: errors_Join_def Let_def map_filter_simps split: option.splits)

lemma errors_Join_Is:
  "errors_Join es = Some e \<Longrightarrow> errors_Is e t \<longleftrightarrow> (\<exists>x. Some x \<in> set es \<and> errors_Is x t)"
  by (auto simp: errors_Join_def Let_def list_ex_iff set_present split: if_splits)

lemma bindR_Inr_iff [go_simps]: "bindR r k = Inr y \<longleftrightarrow> (\<exists>x. r = Inr x \<and> k x = Inr y)"
  by (cases r) auto

lemma i64_id: "in_i64 x \<Longrightarrow> i64 x = x"
  by (simp add: i64_def in_i64_def)

lemma i64_range: "in_i64 (i64 x)"
  by (simp add: i64_def in_i64_def)

lemma quot_nonneg: "0 \<le> a \<Longrightarrow> 0 < b \<Longrightarrow> quot a b = a div b"
  by (cases "a = 0") (auto simp: quot_def sgn_if)

lemma Second_pos [simp]: "0 < Second" and Minute_eq: "Minute = 60000000000"
  by (simp_all add: Second_def Minute_def)

lemma list_less_append_same_length:
  fixes xs ys :: "('a :: order) list"
  assumes "length xs = length ys" and "xs < ys"
  shows "xs @ us < ys @ vs"
  using assms by (induction xs ys rule: list_induct2) auto

lemma list_less_append_prefix:
  fixes us vs :: "('a :: order) list"
  shows "us < vs \<Longrightarrow> xs @ us < xs @ vs"
  by (induction xs) auto

end
