(* ===== verification/Identifier.thy ===== *)
theory Identifier
  imports Prelude
begin

text \<open>
  Package \<open>identifier\<close> (uuidv7.go): creation and validation of canonical lowercase UUIDv7
  strings.

  The random source is an \<open>io.Reader\<close>: the bytes it can still deliver and the error it ends
  with. \<open>newUUIDv7\<close> works on the 16-byte array with the byte and bit operations of the source
  (\<open>8 word\<close>, \<open>64 word\<close>) and on the 36-byte text it fills.

  The lemmas show that a created identifier is accepted by \<open>IsUUIDv7\<close>, that the 48-bit
  millisecond timestamp can be read back from its text, that the text order follows the
  timestamp order, and exactly which bits decide whether two identifiers are equal.
\<close>

unbundle bit_operations_syntax

section \<open>Readers\<close>

record reader =
  pending :: "8 word list"
  ends_with :: go_error

definition ReadFull :: "nat \<Rightarrow> reader \<Rightarrow> 8 word list result \<times> reader" where
  "ReadFull n r =
     (if n \<le> length (pending r)
      then (Inr (take n (pending r)), r\<lparr>pending := drop n (pending r)\<rparr>)
      else (Inl (if pending r \<noteq> [] \<and> ends_with r = Sentinel EOF
                 then Sentinel ErrUnexpectedEOF else ends_with r),
            r\<lparr>pending := []\<rparr>))"

section \<open>Hexadecimal text\<close>

definition hextable :: string where
  "hextable = ''0123456789abcdef''"

definition hex_byte :: "8 word \<Rightarrow> string" where
  "hex_byte v = [hextable ! unat (drop_bit 4 v), hextable ! unat (v AND 0x0f)]"

definition hex_Encode :: "8 word list \<Rightarrow> string" where
  "hex_Encode src = concat (map hex_byte src)"

section \<open>Creating identifiers\<close>

text \<open>\<open>time.Time.UnixMilli\<close> followed by the conversion to \<open>uint64\<close>.\<close>

definition UnixMilli :: "time \<Rightarrow> 64 word" where
  "UnixMilli now = word_of_int (now div 1000000)"

definition stamp_uuid :: "64 word \<Rightarrow> 8 word list \<Rightarrow> 8 word list" where
  "stamp_uuid timestamp value = value
     [0 := ucast (drop_bit 40 timestamp),
      1 := ucast (drop_bit 32 timestamp),
      2 := ucast (drop_bit 24 timestamp),
      3 := ucast (drop_bit 16 timestamp),
      4 := ucast (drop_bit 8 timestamp),
      5 := ucast timestamp,
      6 := ((value ! 6) AND 0x0f) OR 0x70,
      8 := ((value ! 8) AND 0x3f) OR 0x80]"

definition format_uuid :: "8 word list \<Rightarrow> string" where
  "format_uuid value =
     hex_Encode (take 4 value) @ ''-'' @
     hex_Encode (take 2 (drop 4 value)) @ ''-'' @
     hex_Encode (take 2 (drop 6 value)) @ ''-'' @
     hex_Encode (take 2 (drop 8 value)) @ ''-'' @
     hex_Encode (take 6 (drop 10 value))"

definition newUUIDv7 :: "time \<Rightarrow> reader \<Rightarrow> string result \<times> reader" where
  "newUUIDv7 now randomness =
     (case ReadFull 16 randomness of
        (Inl err, r) \<Rightarrow> (Inl err, r)
      | (Inr value, r) \<Rightarrow> (Inr (format_uuid (stamp_uuid (UnixMilli now) value)), r))"

section \<open>Validating identifiers\<close>

definition lower_hex :: "char \<Rightarrow> bool" where
  "lower_hex c \<longleftrightarrow> byte_between CHR ''0'' CHR ''9'' c \<or> byte_between CHR ''a'' CHR ''f'' c"

definition uuid_dash :: "nat \<Rightarrow> bool" where
  "uuid_dash i \<longleftrightarrow> i = 8 \<or> i = 13 \<or> i = 18 \<or> i = 23"

fun uuid_scan :: "nat \<Rightarrow> string \<Rightarrow> bool" where
  "uuid_scan i [] = True"
| "uuid_scan i (c # cs) =
     (if uuid_dash i then uuid_scan (Suc i) cs
      else if \<not> lower_hex c then False
      else uuid_scan (Suc i) cs)"

definition IsUUIDv7 :: "string \<Rightarrow> bool" where
  "IsUUIDv7 value =
     (if length value \<noteq> 36 \<or> value ! 8 \<noteq> CHR ''-'' \<or> value ! 13 \<noteq> CHR ''-''
         \<or> value ! 18 \<noteq> CHR ''-'' \<or> value ! 23 \<noteq> CHR ''-'' then False
      else if value ! 14 \<noteq> CHR ''7''
         \<or> (value ! 19 \<noteq> CHR ''8'' \<and> value ! 19 \<noteq> CHR ''9'' \<and> value ! 19 \<noteq> CHR ''a''
            \<and> value ! 19 \<noteq> CHR ''b'') then False
      else uuid_scan 0 value)"

section \<open>Reading the timestamp back\<close>

text \<open>Specification functions: the value of a run of hexadecimal digits, and the timestamp
  field of an identifier's text.\<close>

definition hex_value :: "char \<Rightarrow> nat" where
  "hex_value c = (if byte_between CHR ''0'' CHR ''9'' c then of_char c - 48 else of_char c - 87)"

definition hex_number :: "string \<Rightarrow> nat" where
  "hex_number s = foldl (\<lambda>n c. 16 * n + hex_value c) 0 s"

definition be_value :: "8 word list \<Rightarrow> nat" where
  "be_value vs = foldl (\<lambda>n v. 256 * n + unat v) 0 vs"

definition uuid_timestamp :: "string \<Rightarrow> nat" where
  "uuid_timestamp u = hex_number (take 8 u @ take 4 (drop 9 u))"

section \<open>Lemmas\<close>

lemma length_hex_byte [simp]: "length (hex_byte v) = 2"
  by (simp add: hex_byte_def)

lemma hex_Encode_simps [simp]:
  "hex_Encode [] = []" "hex_Encode (v # vs) = hex_byte v @ hex_Encode vs"
  by (simp_all add: hex_Encode_def)

lemma length_hex_Encode [simp]: "length (hex_Encode vs) = 2 * length vs"
  by (induction vs) auto

lemma lt16_cases:
  assumes "n < (16::nat)"
  shows "n \<in> {0,1,2,3,4,5,6,7,8,9,10,11,12,13,14,15}"
  using assms by simp presburger

lemma lower_hex_hextable: "n < 16 \<Longrightarrow> lower_hex (hextable ! n)"
  by (drule lt16_cases) (auto simp: hextable_def lower_hex_def byte_between_def)

lemma hex_value_hextable: "n < 16 \<Longrightarrow> hex_value (hextable ! n) = n"
  by (drule lt16_cases) (auto simp: hextable_def hex_value_def byte_between_def)

lemma hextable_mono: "i < j \<Longrightarrow> j < 16 \<Longrightarrow> hextable ! i < hextable ! j"
  by (frule lt16_cases, frule less_trans, assumption, drule lt16_cases [of i])
    (auto simp: hextable_def less_char_def)


lemma unat_high_nibble: "unat (drop_bit 4 (v :: 8 word)) = unat v div 16"
  by (simp add: drop_bit_eq_div unat_div_distrib)

lemma unat_low_nibble: "unat ((v :: 8 word) AND 0x0f) = unat v mod 16"
proof -
  have "v AND 0x0f = take_bit 4 v"
    by (simp add: take_bit_eq_mask mask_eq_exp_minus_1)
  then show ?thesis
    by (simp add: take_bit_eq_mod unat_mod_distrib)
qed

lemma unat_byte: "unat (v :: 8 word) < 256"
  using unsigned_less [of v, where ?'a = nat] by simp

lemma hex_byte_digits:
  "hex_byte v = [hextable ! (unat v div 16), hextable ! (unat v mod 16)]"
  by (simp add: hex_byte_def unat_high_nibble unat_low_nibble)

lemma lower_hex_hex_byte: "c \<in> set (hex_byte v) \<Longrightarrow> lower_hex c"
  using unat_byte [of v] by (auto simp: hex_byte_digits intro!: lower_hex_hextable)

lemma lower_hex_hex_Encode: "c \<in> set (hex_Encode vs) \<Longrightarrow> lower_hex c"
  by (induction vs) (auto dest: lower_hex_hex_byte)

lemma uuid_scan_iff:
  "uuid_scan i s \<longleftrightarrow> (\<forall>k < length s. uuid_dash (i + k) \<or> lower_hex (s ! k))"
proof (induction s arbitrary: i)
  case (Cons c cs)
  then show ?case by (auto simp: All_less_Suc2 simp del: uuid_dash_def)
qed simp


lemma unat_disjoint_or:
  fixes a b :: "'a::len word"
  assumes "a AND b = 0" and "unat a + unat b < 2 ^ LENGTH('a)"
  shows "unat (a OR b) = unat a + unat b"
proof -
  have "a OR b = a + b"
    using word_plus_and_or [of a b] assms(1) by simp
  then show ?thesis
    using assms(2) by (simp add: unat_word_ariths)
qed

lemma unat_version_byte: "unat (((v :: 8 word) AND 0x0f) OR 0x70) = 0x70 + unat v mod 16"
proof -
  have "unat (v AND 0x0f OR 0x70) = unat (v AND 0x0f) + unat (0x70 :: 8 word)"
    by (rule unat_disjoint_or) (simp_all add: unat_low_nibble and.assoc)
  then show ?thesis by (simp add: unat_low_nibble)
qed

lemma unat_low6: "unat ((v :: 8 word) AND 0x3f) = unat v mod 64"
proof -
  have "v AND 0x3f = take_bit 6 v"
    by (simp add: take_bit_eq_mask mask_eq_exp_minus_1)
  then show ?thesis
    by (simp add: take_bit_eq_mod unat_mod_distrib)
qed

lemma unat_variant_byte: "unat (((v :: 8 word) AND 0x3f) OR 0x80) = 0x80 + unat v mod 64"
proof -
  have "unat (v AND 0x3f OR 0x80) = unat (v AND 0x3f) + unat (0x80 :: 8 word)"
    by (rule unat_disjoint_or) (simp_all add: unat_low6 and.assoc)
  then show ?thesis by (simp add: unat_low6)
qed

lemma unat_timestamp_byte:
  "unat (ucast (drop_bit k (t :: 64 word)) :: 8 word) = unat t div 2 ^ k mod 256"
  by (simp add: unsigned_ucast_eq take_bit_eq_mod unat_drop_bit_eq)
    (simp add: drop_bit_eq_div)

lemma list16E:
  assumes "length xs = 16"
  obtains v0 v1 v2 v3 v4 v5 v6 v7 v8 v9 v10 v11 v12 v13 v14 v15
  where "xs = [v0, v1, v2, v3, v4, v5, v6, v7, v8, v9, v10, v11, v12, v13, v14, v15]"
proof -
  have "xs = map ((!) xs) [0..<16]"
    using assms by (metis map_nth)
  also have "\<dots> = [xs ! 0, xs ! 1, xs ! 2, xs ! 3, xs ! 4, xs ! 5, xs ! 6, xs ! 7, xs ! 8,
      xs ! 9, xs ! 10, xs ! 11, xs ! 12, xs ! 13, xs ! 14, xs ! 15]"
    by (simp add: upt_rec numeral_eq_Suc)
  finally show ?thesis by (rule that)
qed

lemma variant_digit:
  fixes v :: "8 word"
  shows "hextable ! ((128 + unat v mod 64) div 16) \<in> set ''89ab''"
proof -
  define k where "k = unat v mod 64 div 16"
  have "k < 4" unfolding k_def by (rule div_less_iff_less_mult [THEN iffD2]) simp_all
  then have "k = 0 \<or> k = 1 \<or> k = 2 \<or> k = 3" by arith
  moreover have "(128 + unat v mod 64) div 16 = 8 + k"
    by (simp add: k_def)
  ultimately show ?thesis by (elim disjE) (simp_all add: hextable_def)
qed

lemma lower_hex_variant: "c \<in> set ''89ab'' \<Longrightarrow> lower_hex c"
  by (auto simp: lower_hex_def byte_between_def)

lemma version_digit: "hextable ! ((112 + unat (v :: 8 word) mod 16) div 16) = CHR ''7''"
  by (simp add: hextable_def)

lemma format_stamp_text:
  assumes "length value = 16"
  shows "format_uuid (stamp_uuid t value) =
     hex_Encode [ucast (drop_bit 40 t), ucast (drop_bit 32 t), ucast (drop_bit 24 t),
       ucast (drop_bit 16 t)] @ ''-'' @
     hex_Encode [ucast (drop_bit 8 t), ucast t] @ ''-'' @
     hex_Encode [((value ! 6) AND 0x0f) OR 0x70, value ! 7] @ ''-'' @
     hex_Encode [((value ! 8) AND 0x3f) OR 0x80, value ! 9] @ ''-'' @
     hex_Encode (drop 10 value)"
proof -
  obtain v0 v1 v2 v3 v4 v5 v6 v7 v8 v9 v10 v11 v12 v13 v14 v15
    where v: "value = [v0, v1, v2, v3, v4, v5, v6, v7, v8, v9, v10, v11, v12, v13, v14, v15]"
    using assms by (rule list16E)
  show ?thesis by (simp add: v stamp_uuid_def format_uuid_def)
qed

lemma IsUUIDv7_format_stamp:
  assumes len: "length value = 16"
  shows "IsUUIDv7 (format_uuid (stamp_uuid t value))"
proof -
  obtain v0 v1 v2 v3 v4 v5 v6 v7 v8 v9 v10 v11 v12 v13 v14 v15
    where v: "value = [v0, v1, v2, v3, v4, v5, v6, v7, v8, v9, v10, v11, v12, v13, v14, v15]"
    using assms by (rule list16E)
  have hex: "lower_hex (hextable ! (unat (x :: 8 word) div 16))"
    "lower_hex (hextable ! (unat (x :: 8 word) mod 16))" for x
    using unat_byte [of x] by (auto intro!: lower_hex_hextable)
  have hex': "lower_hex (hextable ! ((112 + unat v6 mod 16) mod 16))"
    "lower_hex (hextable ! ((128 + unat v8 mod 64) mod 16))" "lower_hex CHR ''7''"
    by (simp_all add: lower_hex_hextable) (simp add: lower_hex_def byte_between_def)
  note fmt = format_stamp_text [OF len, of t, unfolded v]
  show ?thesis
    using variant_digit [of v8] lower_hex_variant [OF variant_digit [of v8]] version_digit [of v6]
    by (simp add: v fmt IsUUIDv7_def hex_byte_digits unat_version_byte
        unat_variant_byte uuid_dash_def hex hex' del: mod_add_left_eq)
qed

subsection \<open>The timestamp field\<close>

lemma foldl_base256:
  fixes k :: nat and vs :: "8 word list"
  shows "foldl (\<lambda>n v. 256 * n + unat v) k vs
    = k * 256 ^ length vs + foldl (\<lambda>n v. 256 * n + unat v) 0 vs"
  by (induction vs rule: rev_induct) simp_all

lemma be_value_Cons: "be_value (v # vs) = unat v * 256 ^ length vs + be_value vs"
  using foldl_base256 [of "unat v" vs] by (simp add: be_value_def)

lemma be_value_less: "be_value vs < 256 ^ length vs"
proof (induction vs)
  case (Cons v vs)
  have "unat v * 256 ^ length vs + be_value vs < (unat v + 1) * 256 ^ length vs"
    using Cons by simp
  also have "\<dots> \<le> 256 * 256 ^ length vs"
    using unat_byte [of v] by (intro mult_right_mono) simp_all
  finally show ?case by (simp add: be_value_Cons)
qed (simp add: be_value_def)

lemma hex_number_hex_Encode: "hex_number (hex_Encode vs) = be_value vs"
proof -
  have "foldl (\<lambda>n c. 16 * n + hex_value c) k (hex_byte v) = 256 * k + unat v" for k v
    using unat_byte [of v] by (simp add: hex_byte_digits hex_value_hextable)
  then have "foldl (\<lambda>n c. 16 * n + hex_value c) k (hex_Encode vs)
      = foldl (\<lambda>n v. 256 * n + unat v) k vs" for k
    by (induction vs arbitrary: k) simp_all
  then show ?thesis by (simp add: hex_number_def be_value_def)
qed

lemma timestamp_bytes_value:
  fixes t :: "64 word"
  shows "be_value [ucast (drop_bit 40 t), ucast (drop_bit 32 t), ucast (drop_bit 24 t),
      ucast (drop_bit 16 t), ucast (drop_bit 8 t), ucast t] = unat t mod 2 ^ 48"
proof -
  have low: "unat (ucast t :: 8 word) = unat t mod 256"
    using unat_timestamp_byte [of 0 t] by simp
  have split: "unat t mod (2 ^ k * 256) = 2 ^ k * (unat t div 2 ^ k mod 256) + unat t mod 2 ^ k" for k
    by (rule mod_mult2_eq)
  show ?thesis
    using split [of 40] split [of 32] split [of 24] split [of 16] split [of 8]
    by (simp add: be_value_def unat_timestamp_byte low)
qed

lemma uuid_timestamp_format:
  assumes "length value = 16"
  shows "uuid_timestamp (format_uuid (stamp_uuid t value)) = unat t mod 2 ^ 48"
proof -
  have "take 8 (format_uuid (stamp_uuid t value)) @ take 4 (drop 9 (format_uuid (stamp_uuid t value)))
      = hex_Encode [ucast (drop_bit 40 t), ucast (drop_bit 32 t), ucast (drop_bit 24 t),
      ucast (drop_bit 16 t), ucast (drop_bit 8 t), ucast t]"
    by (simp add: format_stamp_text [OF assms])
  then show ?thesis
    by (simp only: uuid_timestamp_def hex_number_hex_Encode timestamp_bytes_value)
qed

subsection \<open>Text order and equality\<close>

lemma hex_byte_less: "unat v < unat w \<Longrightarrow> hex_byte v < hex_byte w"
proof -
  assume less: "unat v < unat w"
  have w: "unat w div 16 < 16" "unat w mod 16 < 16" using unat_byte [of w] by auto
  from less consider "unat v div 16 < unat w div 16"
    | "unat v div 16 = unat w div 16" "unat v mod 16 < unat w mod 16"
    by (metis div_le_mono div_mult_mod_eq less_imp_le nat_add_left_cancel_less order_le_less)
  then show ?thesis
    using w by cases (auto simp: hex_byte_digits hextable_mono)
qed

lemma hex_Encode_less:
  assumes "length vs = length ws" and "be_value vs < be_value ws"
  shows "hex_Encode vs < hex_Encode ws"
  using assms
proof (induction vs ws rule: list_induct2)
  case Nil
  then show ?case by simp
next
  case (Cons v vs w ws)
  have bounds: "be_value vs < 256 ^ length ws" "be_value ws < 256 ^ length ws"
    using be_value_less [of vs] be_value_less [of ws] Cons.hyps by simp_all
  have "\<not> unat w < unat v"
  proof
    assume "unat w < unat v"
    then have "(unat w + 1) * 256 ^ length ws \<le> unat v * 256 ^ length ws"
      by (intro mult_right_mono) simp_all
    then show False using bounds Cons.prems Cons.hyps by (simp add: be_value_Cons)
  qed
  then consider "unat v < unat w" | "v = w" "be_value vs < be_value ws"
    using Cons.prems Cons.hyps
    by (cases "unat v = unat w") (auto simp: be_value_Cons dest: unsigned_word_eqI)
  then show ?case
    by cases (auto intro!: list_less_append_same_length hex_byte_less list_less_append_prefix Cons.IH)
qed

lemma be_value_inj:
  assumes "length vs = length ws" and "be_value vs = be_value ws"
  shows "vs = ws"
  using assms
proof (induction vs ws rule: list_induct2)
  case (Cons v vs w ws)
  have bounds: "be_value vs < 256 ^ length ws" "be_value ws < 256 ^ length ws"
    using be_value_less [of vs] be_value_less [of ws] Cons.hyps by simp_all
  have eq: "unat v * 256 ^ length ws + be_value vs = unat w * 256 ^ length ws + be_value ws"
    using Cons.prems Cons.hyps by (simp add: be_value_Cons)
  have "unat v = (unat v * 256 ^ length ws + be_value vs) div 256 ^ length ws"
    using bounds by simp
  also have "\<dots> = unat w"
    unfolding eq using bounds by simp
  finally have "unat v = unat w" .
  with eq Cons.IH show ?case by (simp add: unsigned_word_eqI)
qed simp

lemma hex_Encode_inj:
  "length vs = length ws \<Longrightarrow> hex_Encode vs = hex_Encode ws \<longleftrightarrow> vs = ws"
  by (metis be_value_inj hex_number_hex_Encode)

lemma format_stamp_less:
  assumes len: "length v = 16" "length w = 16"
    and less: "unat t mod 2 ^ 48 < unat u mod 2 ^ 48"
  shows "format_uuid (stamp_uuid t v) < format_uuid (stamp_uuid u w)"
proof -
  define hi where "hi t = [ucast (drop_bit 40 t), ucast (drop_bit 32 t), ucast (drop_bit 24 t),
      ucast (drop_bit 16 t) :: 8 word]" for t :: "64 word"
  define lo where "lo t = [ucast (drop_bit 8 t), ucast t :: 8 word]" for t :: "64 word"
  have val: "be_value (hi t) * 65536 + be_value (lo t) = unat t mod 2 ^ 48" for t
    using timestamp_bytes_value [of t] by (simp add: hi_def lo_def be_value_def)
  have lens: "length (hi t) = 4" "length (lo t) = 2" for t
    by (simp_all add: hi_def lo_def)
  have lo_less: "be_value (lo t) < 65536" for t
    using be_value_less [of "lo t"] by (simp add: lo_def)
  have "be_value (hi t) \<le> be_value (hi u)"
    using val [of t] val [of u] less lo_less [of t] lo_less [of u] by linarith
  then consider "be_value (hi t) < be_value (hi u)"
    | "hi t = hi u" "be_value (lo t) < be_value (lo u)"
    using val [of t] val [of u] less be_value_inj [of "hi t" "hi u"] lens
    by fastforce
  then have "hex_Encode (hi t) @ ''-'' @ hex_Encode (lo t) < hex_Encode (hi u) @ ''-'' @ hex_Encode (lo u)"
    by cases (auto intro!: list_less_append_same_length list_less_append_prefix hex_Encode_less
      simp: lens)
  then have "(hex_Encode (hi t) @ ''-'' @ hex_Encode (lo t)) @ xs
      < (hex_Encode (hi u) @ ''-'' @ hex_Encode (lo u)) @ ys" for xs ys
    by (rule list_less_append_same_length [rotated]) (simp add: lens)
  then show ?thesis
    by (simp only: format_stamp_text [OF len(1)] format_stamp_text [OF len(2)]
        hi_def [symmetric] lo_def [symmetric] append_assoc)
qed

lemma low_nibble_eq_iff:
  "((a :: 8 word) AND 0x0f) OR 0x70 = (b AND 0x0f) OR 0x70 \<longleftrightarrow> a AND 0x0f = b AND 0x0f"
  by (simp only: word_unat_eq_iff unat_version_byte unat_low_nibble add_left_cancel)

lemma low6_eq_iff:
  "((a :: 8 word) AND 0x3f) OR 0x80 = (b AND 0x3f) OR 0x80 \<longleftrightarrow> a AND 0x3f = b AND 0x3f"
  by (simp only: word_unat_eq_iff unat_variant_byte unat_low6 add_left_cancel)

lemma append_same_length_eq:
  "length xs = length ys \<Longrightarrow> xs @ us = ys @ vs \<longleftrightarrow> xs = ys \<and> us = vs"
  by simp

lemma timestamp_bytes_eq_iff:
  fixes t u :: "64 word"
  shows "[ucast (drop_bit 40 t), ucast (drop_bit 32 t), ucast (drop_bit 24 t), ucast (drop_bit 16 t),
     ucast (drop_bit 8 t), ucast t :: 8 word]
   = [ucast (drop_bit 40 u), ucast (drop_bit 32 u), ucast (drop_bit 24 u), ucast (drop_bit 16 u),
     ucast (drop_bit 8 u), ucast u] \<longleftrightarrow> unat t mod 2 ^ 48 = unat u mod 2 ^ 48"
  (is "?a t = ?a u \<longleftrightarrow> _")
proof
  assume "?a t = ?a u"
  then show "unat t mod 2 ^ 48 = unat u mod 2 ^ 48"
    by (metis timestamp_bytes_value)
next
  assume "unat t mod 2 ^ 48 = unat u mod 2 ^ 48"
  then have "be_value (?a t) = be_value (?a u)"
    by (simp only: timestamp_bytes_value)
  then show "?a t = ?a u"
    by (rule be_value_inj [rotated]) simp
qed

lemma format_stamp_eq_iff:
  assumes len: "length v = 16" "length w = 16"
  shows "format_uuid (stamp_uuid t v) = format_uuid (stamp_uuid u w) \<longleftrightarrow>
    unat t mod 2 ^ 48 = unat u mod 2 ^ 48 \<and> (v ! 6) AND 0x0f = (w ! 6) AND 0x0f \<and> v ! 7 = w ! 7
    \<and> (v ! 8) AND 0x3f = (w ! 8) AND 0x3f \<and> v ! 9 = w ! 9 \<and> drop 10 v = drop 10 w"
proof -
  have "format_uuid (stamp_uuid t v) = format_uuid (stamp_uuid u w) \<longleftrightarrow>
    hex_Encode [ucast (drop_bit 40 t), ucast (drop_bit 32 t), ucast (drop_bit 24 t),
       ucast (drop_bit 16 t)] = hex_Encode [ucast (drop_bit 40 u), ucast (drop_bit 32 u),
       ucast (drop_bit 24 u), ucast (drop_bit 16 u)] \<and>
    hex_Encode [ucast (drop_bit 8 t), ucast t] = hex_Encode [ucast (drop_bit 8 u), ucast u] \<and>
    hex_Encode [((v ! 6) AND 0x0f) OR 0x70, v ! 7] = hex_Encode [((w ! 6) AND 0x0f) OR 0x70, w ! 7] \<and>
    hex_Encode [((v ! 8) AND 0x3f) OR 0x80, v ! 9] = hex_Encode [((w ! 8) AND 0x3f) OR 0x80, w ! 9] \<and>
    hex_Encode (drop 10 v) = hex_Encode (drop 10 w)"
    unfolding format_stamp_text [OF len(1)] format_stamp_text [OF len(2)]
    by (simp only: append_same_length_eq length_hex_Encode list.size append.simps list.inject simp_thms)
  also have "\<dots> \<longleftrightarrow> unat t mod 2 ^ 48 = unat u mod 2 ^ 48 \<and> (v ! 6) AND 0x0f = (w ! 6) AND 0x0f
    \<and> v ! 7 = w ! 7 \<and> (v ! 8) AND 0x3f = (w ! 8) AND 0x3f \<and> v ! 9 = w ! 9 \<and> drop 10 v = drop 10 w"
    using len
    by (simp only: hex_Encode_inj length_drop list.size list.inject low_nibble_eq_iff low6_eq_iff
        timestamp_bytes_eq_iff [symmetric] simp_thms conj_assoc)
  finally show ?thesis .
qed

subsection \<open>Accepted texts are exactly the ones that can be created\<close>

definition hex_pair :: "char \<Rightarrow> char \<Rightarrow> 8 word" where
  "hex_pair c d = of_nat (16 * hex_value c + hex_value d)"

lemma hex_value_less: "lower_hex c \<Longrightarrow> hex_value c < 16"
  by (auto simp: lower_hex_def hex_value_def byte_between_def)

lemma lower_hexD: "lower_hex c \<Longrightarrow> c \<in> set hextable"
proof -
  assume "lower_hex c"
  then have "of_char c \<in> set [48,49,50,51,52,53,54,55,56,57,97,98,99,100,101,102 :: nat]"
    by (simp add: lower_hex_def byte_between_def) presburger
  also have "set [48,49,50,51,52,53,54,55,56,57,97,98,99,100,101,102 :: nat] = of_char ` set hextable"
    by (simp add: hextable_def)
  finally show ?thesis by auto
qed

lemma hextable_hex_value: "lower_hex c \<Longrightarrow> hextable ! hex_value c = c"
  by (drule lower_hexD) (auto simp: hex_value_def hextable_def byte_between_def)

lemma unat_hex_pair:
  "lower_hex c \<Longrightarrow> lower_hex d \<Longrightarrow> unat (hex_pair c d) = 16 * hex_value c + hex_value d"
  using hex_value_less [of c] hex_value_less [of d]
  unfolding hex_pair_def by (subst unat_of_nat) simp

lemma hex_byte_hex_pair: "lower_hex c \<Longrightarrow> lower_hex d \<Longrightarrow> hex_byte (hex_pair c d) = [c, d]"
  using hex_value_less [of c] hex_value_less [of d]
  by (simp add: hex_byte_digits unat_hex_pair hextable_hex_value)

lemma low_nibble_id: "unat (b :: 8 word) div 16 = 7 \<Longrightarrow> (b AND 0x0f) OR 0x70 = b"
proof -
  assume "unat b div 16 = 7"
  then have "unat b = 0x70 + unat b mod 16"
    using div_mult_mod_eq [of "unat b" 16] by simp
  then show ?thesis
    by (simp only: word_unat_eq_iff unat_version_byte)
qed

lemma variant_id: "unat (b :: 8 word) div 64 = 2 \<Longrightarrow> (b AND 0x3f) OR 0x80 = b"
proof -
  assume "unat b div 64 = 2"
  then have "unat b = 0x80 + unat b mod 64"
    using div_mult_mod_eq [of "unat b" 64] by simp
  then show ?thesis
    by (simp only: word_unat_eq_iff unat_variant_byte)
qed

lemma timestamp_bytes_ex:
  fixes b0 b1 b2 b3 b4 b5 :: "8 word"
  obtains t :: "64 word" where "[ucast (drop_bit 40 t), ucast (drop_bit 32 t), ucast (drop_bit 24 t),
      ucast (drop_bit 16 t), ucast (drop_bit 8 t), ucast t] = [b0, b1, b2, b3, b4, b5]"
proof -
  let ?bs = "[b0, b1, b2, b3, b4, b5]"
  define t :: "64 word" where "t = of_nat (be_value ?bs)"
  have small: "be_value ?bs < 2 ^ 48"
    using be_value_less [of ?bs] by simp
  then have "unat t mod 2 ^ 48 = be_value ?bs"
    unfolding t_def by (subst unat_of_nat) simp
  then have "be_value [ucast (drop_bit 40 t), ucast (drop_bit 32 t), ucast (drop_bit 24 t),
      ucast (drop_bit 16 t), ucast (drop_bit 8 t), ucast t] = be_value ?bs"
    by (simp only: timestamp_bytes_value)
  then show thesis
    by (intro that be_value_inj) simp_all
qed

lemma IsUUIDv7_D:
  assumes "IsUUIDv7 u"
  shows "length u = 36" and "u ! 8 = CHR ''-''" and "u ! 13 = CHR ''-''" and "u ! 18 = CHR ''-''"
    and "u ! 23 = CHR ''-''" and "u ! 14 = CHR ''7''" and "u ! 19 \<in> set ''89ab''"
    and "\<And>k. k < 36 \<Longrightarrow> \<not> uuid_dash k \<Longrightarrow> lower_hex (u ! k)"
  using assms by (auto simp: IsUUIDv7_def uuid_scan_iff split: if_splits)

lemma list36:
  assumes "length u = 36"
  shows "u = [u!0, u!1, u!2, u!3, u!4, u!5, u!6, u!7, u!8, u!9, u!10, u!11, u!12, u!13, u!14, u!15,
    u!16, u!17, u!18, u!19, u!20, u!21, u!22, u!23, u!24, u!25, u!26, u!27, u!28, u!29, u!30, u!31,
    u!32, u!33, u!34, u!35]"
proof -
  have "u = map ((!) u) [0..<36]"
    using assms by (metis map_nth)
  then show ?thesis by (simp add: upt_rec numeral_eq_Suc)
qed

lemma version_pair:
  "lower_hex d \<Longrightarrow> (hex_pair CHR ''7'' d AND 0x0f) OR 0x70 = hex_pair CHR ''7'' d"
  using hex_value_less [of d] hex_value_hextable [of 7] lower_hex_hextable [of 7]
  by (intro low_nibble_id) (simp add: unat_hex_pair hextable_def)

lemma variant_pair:
  assumes "c \<in> set ''89ab''" and "lower_hex d"
  shows "(hex_pair c d AND 0x3f) OR 0x80 = hex_pair c d"
proof (rule variant_id)
  have "hex_value c \<in> {8, 9, 10, 11}"
    using assms(1) by (auto simp: hex_value_def byte_between_def)
  then have "(16 * hex_value c + hex_value d) div 64 = 2"
    using hex_value_less [OF assms(2)] by auto
  then show "unat (hex_pair c d) div 64 = 2"
    using unat_hex_pair [OF lower_hex_variant [OF assms(1)] assms(2)] by simp
qed

lemma IsUUIDv7_created:
  assumes u: "IsUUIDv7 u"
  obtains t v where "length v = 16" and "u = format_uuid (stamp_uuid t v)"
proof -
  note D = IsUUIDv7_D [OF u]
  have hex: "lower_hex (u ! k)" if "k \<in> {0,1,2,3,4,5,6,7,9,10,11,12,14,15,16,17,19,20,21,22,
      24,25,26,27,28,29,30,31,32,33,34,35}" for k
    using that by (intro D(8)) (auto simp: uuid_dash_def)
  obtain t :: "64 word" where t: "[ucast (drop_bit 40 t), ucast (drop_bit 32 t), ucast (drop_bit 24 t),
      ucast (drop_bit 16 t), ucast (drop_bit 8 t), ucast t]
    = [hex_pair (u!0) (u!1), hex_pair (u!2) (u!3), hex_pair (u!4) (u!5), hex_pair (u!6) (u!7),
       hex_pair (u!9) (u!10), hex_pair (u!11) (u!12)]"
    by (rule timestamp_bytes_ex)
  define v where "v = [0, 0, 0, 0, 0, 0, hex_pair CHR ''7'' (u!15), hex_pair (u!16) (u!17),
    hex_pair (u!19) (u!20), hex_pair (u!21) (u!22), hex_pair (u!24) (u!25), hex_pair (u!26) (u!27),
    hex_pair (u!28) (u!29), hex_pair (u!30) (u!31), hex_pair (u!32) (u!33), hex_pair (u!34) (u!35)]"
  have len: "length v = 16" by (simp add: v_def)
  note fmt = format_stamp_text [OF len, of t, unfolded v_def]
  have "format_uuid (stamp_uuid t v) = [u!0, u!1, u!2, u!3, u!4, u!5, u!6, u!7, CHR ''-'', u!9, u!10,
    u!11, u!12, CHR ''-'', CHR ''7'', u!15, u!16, u!17, CHR ''-'', u!19, u!20, u!21, u!22, CHR ''-'',
    u!24, u!25, u!26, u!27, u!28, u!29, u!30, u!31, u!32, u!33, u!34, u!35]"
    using t D(7) hex [of 14]
    by (simp add: fmt v_def D(6) version_pair variant_pair hex_byte_hex_pair hex del: list.set)
  also have "\<dots> = u"
    using list36 [OF D(1)] D(2-6) by simp
  finally have "format_uuid (stamp_uuid t v) = u" .
  then show thesis
    by (intro that [OF len]) (rule sym)
qed

section \<open>Properties\<close>

text \<open>
  C30. Creation: when the random source delivers 16 bytes, \<open>newUUIDv7\<close> returns a text that
  \<open>IsUUIDv7\<close> accepts, whose timestamp field is the current millisecond clock modulo \<open>2 ^ 48\<close>,
  and it consumes exactly those 16 bytes.
\<close>

theorem newUUIDv7_valid:
  assumes "16 \<le> length (pending r)"
  shows "\<exists>u. newUUIDv7 now r = (Inr u, r\<lparr>pending := drop 16 (pending r)\<rparr>) \<and> IsUUIDv7 u
    \<and> uuid_timestamp u = unat (UnixMilli now) mod 2 ^ 48"
  using assms
  by (simp add: newUUIDv7_def ReadFull_def IsUUIDv7_format_stamp uuid_timestamp_format)

theorem newUUIDv7_valid_witness:
  "\<exists>u. newUUIDv7 1790000000000000000 \<lparr>pending = replicate 16 0xff, ends_with = Sentinel EOF\<rparr>
      = (Inr u, \<lparr>pending = [], ends_with = Sentinel EOF\<rparr>) \<and> IsUUIDv7 u
    \<and> uuid_timestamp u = unat (UnixMilli 1790000000000000000) mod 2 ^ 48"
  using newUUIDv7_valid [of "\<lparr>pending = replicate 16 0xff, ends_with = Sentinel EOF\<rparr>" 1790000000000000000]
  by simp

text \<open>
  C31. Validation is exact: \<open>IsUUIDv7\<close> accepts a text if and only if \<open>newUUIDv7\<close> can return it,
  for some clock value and some random bytes.
\<close>

theorem IsUUIDv7_iff_creatable:
  "IsUUIDv7 u \<longleftrightarrow> (\<exists>now r r'. newUUIDv7 now r = (Inr u, r'))"
proof
  assume "IsUUIDv7 u"
  then obtain t v where tv: "length v = 16" "u = format_uuid (stamp_uuid t v)"
    by (rule IsUUIDv7_created)
  have "UnixMilli (uint t * 1000000) = t"
    by (simp add: UnixMilli_def)
  with tv have "newUUIDv7 (uint t * 1000000) \<lparr>pending = v, ends_with = Sentinel EOF\<rparr>
      = (Inr u, \<lparr>pending = [], ends_with = Sentinel EOF\<rparr>)"
    by (simp add: newUUIDv7_def ReadFull_def)
  then show "\<exists>now r r'. newUUIDv7 now r = (Inr u, r')" by blast
next
  assume "\<exists>now r r'. newUUIDv7 now r = (Inr u, r')"
  then show "IsUUIDv7 u"
    by (auto simp: newUUIDv7_def ReadFull_def IsUUIDv7_format_stamp split: if_splits)
qed

text \<open>
  Sortability: identifiers created at increasing millisecond clocks (after the epoch, before
  the 48-bit field wraps) increase in the byte order of their texts, whatever the random bytes.
\<close>

theorem newUUIDv7_sorted:
  assumes "newUUIDv7 now1 r1 = (Inr u1, r1')" and "newUUIDv7 now2 r2 = (Inr u2, r2')"
    and "0 \<le> now1" and "now1 div 1000000 < now2 div 1000000" and "now2 div 1000000 < 2 ^ 48"
  shows "u1 < u2"
proof -
  have clock: "unat (UnixMilli now) mod 2 ^ 48 = nat (now div 1000000)"
    if "0 \<le> now div 1000000" "now div 1000000 < 2 ^ 48" for now
  proof -
    have "uint (word_of_int (now div 1000000) :: 64 word) = now div 1000000"
      using that by (intro uint_word_of_int_eq [THEN trans]) (simp add: take_bit_int_eq_self)
    then show ?thesis
      using that by (simp add: UnixMilli_def unat_eq_nat_uint nat_less_iff)
  qed
  have "unat (UnixMilli now1) mod 2 ^ 48 < unat (UnixMilli now2) mod 2 ^ 48"
  proof -
    have "0 \<le> now1 div 1000000" using assms(3) by simp
    with assms(4,5) have "0 \<le> now1 div 1000000" "now1 div 1000000 < 2 ^ 48" "0 \<le> now2 div 1000000"
      by linarith+
    then show ?thesis
      using assms(4,5) by (simp only: clock) linarith
  qed
  then show ?thesis
    using assms(1,2)
    by (auto simp: newUUIDv7_def ReadFull_def split: if_splits intro: format_stamp_less)
qed

theorem newUUIDv7_sorted_witness:
  "\<exists>u1 u2. newUUIDv7 1000000 \<lparr>pending = replicate 16 0xff, ends_with = Sentinel EOF\<rparr>
        = (Inr u1, \<lparr>pending = [], ends_with = Sentinel EOF\<rparr>)
    \<and> newUUIDv7 2000000 \<lparr>pending = replicate 16 0, ends_with = Sentinel EOF\<rparr>
        = (Inr u2, \<lparr>pending = [], ends_with = Sentinel EOF\<rparr>) \<and> u1 < u2"
proof -
  define u where "u now b = format_uuid (stamp_uuid (UnixMilli now) (replicate 16 b))" for now b
  have eval: "newUUIDv7 now \<lparr>pending = replicate 16 b, ends_with = Sentinel EOF\<rparr>
      = (Inr (u now b), \<lparr>pending = [], ends_with = Sentinel EOF\<rparr>)" for now b
    by (simp add: newUUIDv7_def ReadFull_def u_def)
  have "u 1000000 0xff < u 2000000 0"
    by (rule newUUIDv7_sorted [OF eval eval]) simp_all
  then show ?thesis using eval by blast
qed

text \<open>
  Uniqueness: two created identifiers are equal exactly when their 48-bit timestamps agree and
  the 74 random bits that are not overwritten by the version and variant agree.
\<close>

theorem newUUIDv7_collision:
  assumes "newUUIDv7 now1 r1 = (Inr u1, r1')" and "newUUIDv7 now2 r2 = (Inr u2, r2')"
  shows "u1 = u2 \<longleftrightarrow>
    unat (UnixMilli now1) mod 2 ^ 48 = unat (UnixMilli now2) mod 2 ^ 48
    \<and> (pending r1 ! 6) AND 0x0f = (pending r2 ! 6) AND 0x0f \<and> pending r1 ! 7 = pending r2 ! 7
    \<and> (pending r1 ! 8) AND 0x3f = (pending r2 ! 8) AND 0x3f \<and> pending r1 ! 9 = pending r2 ! 9
    \<and> take 6 (drop 10 (pending r1)) = take 6 (drop 10 (pending r2))"
  using assms
  by (auto simp: newUUIDv7_def ReadFull_def format_stamp_eq_iff drop_take split: if_splits)

theorem newUUIDv7_collision_witness:
  "format_uuid (stamp_uuid (UnixMilli 1) (replicate 16 1)) \<noteq>
   format_uuid (stamp_uuid (UnixMilli 1) (replicate 16 2))"
proof -
  have eval: "newUUIDv7 1 \<lparr>pending = replicate 16 b, ends_with = Sentinel EOF\<rparr>
      = (Inr (format_uuid (stamp_uuid (UnixMilli 1) (replicate 16 b))),
         \<lparr>pending = [], ends_with = Sentinel EOF\<rparr>)" for b
    by (simp add: newUUIDv7_def ReadFull_def)
  show ?thesis
    using newUUIDv7_collision [OF eval [of 1] eval [of 2]] by simp
qed

end
