(* ===== verification/Regex.thy ===== *)
theory Regex
  imports Prelude
begin

text \<open>
  The fragment of Go's \<open>regexp\<close> used by the repository's patterns: byte classes,
  concatenation, \<open>*\<close>, \<open>+\<close> and bounded repetition, between \<open>^\<close> and \<open>$\<close>. (Without the
  \<open>m\<close> flag these anchor the whole text.) A pattern is a value of \<open>rexp\<close>; \<open>MatchString\<close> decides
  it by derivatives, with constructors that drop the empty alternatives, and \<open>lang\<close> is the set of
  texts it denotes. \<open>MatchString_lang\<close> shows that the two agree.
\<close>

section \<open>Patterns and their language\<close>

datatype rexp =
    RNone
  | REmpty
  | RClass "(char \<times> char) list"
  | RSeq rexp rexp
  | RAlt rexp rexp
  | RStar rexp

definition in_class :: "(char \<times> char) list \<Rightarrow> char \<Rightarrow> bool" where
  "in_class ranges c = list_ex (\<lambda>(lo, hi). byte_between lo hi c) ranges"

inductive_set star_lang :: "string set \<Rightarrow> string set" for A :: "string set" where
  star_Nil: "[] \<in> star_lang A"
| star_append: "u \<in> A \<Longrightarrow> v \<in> star_lang A \<Longrightarrow> u @ v \<in> star_lang A"

primrec lang :: "rexp \<Rightarrow> string set" where
  "lang RNone = {}"
| "lang REmpty = {[]}"
| "lang (RClass rs) = {[c] |c. in_class rs c}"
| "lang (RSeq r s) = {u @ v |u v. u \<in> lang r \<and> v \<in> lang s}"
| "lang (RAlt r s) = lang r \<union> lang s"
| "lang (RStar r) = star_lang (lang r)"

definition RLit :: "char \<Rightarrow> rexp" where
  "RLit c = RClass [(c, c)]"

definition RPlus :: "rexp \<Rightarrow> rexp" where
  "RPlus r = RSeq r (RStar r)"

fun RText :: "string \<Rightarrow> rexp" where
  "RText [] = REmpty"
| "RText (c # cs) = RSeq (RLit c) (RText cs)"

text \<open>\<open>r{0,n}\<close>, as nested options, and \<open>r{m,n}\<close>.\<close>

fun RUpTo :: "rexp \<Rightarrow> nat \<Rightarrow> rexp" where
  "RUpTo r 0 = REmpty"
| "RUpTo r (Suc n) = RAlt REmpty (RSeq r (RUpTo r n))"

fun RBetween :: "rexp \<Rightarrow> nat \<Rightarrow> nat \<Rightarrow> rexp" where
  "RBetween r 0 n = RUpTo r n"
| "RBetween r (Suc m) n = RSeq r (RBetween r m (n - 1))"

section \<open>Matching\<close>

primrec nullable :: "rexp \<Rightarrow> bool" where
  "nullable RNone = False"
| "nullable REmpty = True"
| "nullable (RClass rs) = False"
| "nullable (RSeq r s) = (nullable r \<and> nullable s)"
| "nullable (RAlt r s) = (nullable r \<or> nullable s)"
| "nullable (RStar r) = True"

fun mk_seq :: "rexp \<Rightarrow> rexp \<Rightarrow> rexp" where
  "mk_seq RNone s = RNone"
| "mk_seq REmpty s = s"
| "mk_seq r s = RSeq r s"

fun mk_alt :: "rexp \<Rightarrow> rexp \<Rightarrow> rexp" where
  "mk_alt RNone s = s"
| "mk_alt r RNone = r"
| "mk_alt r s = RAlt r s"

primrec deriv :: "char \<Rightarrow> rexp \<Rightarrow> rexp" where
  "deriv c RNone = RNone"
| "deriv c REmpty = RNone"
| "deriv c (RClass rs) = (if in_class rs c then REmpty else RNone)"
| "deriv c (RSeq r s) =
     (if nullable r then mk_alt (mk_seq (deriv c r) s) (deriv c s) else mk_seq (deriv c r) s)"
| "deriv c (RAlt r s) = mk_alt (deriv c r) (deriv c s)"
| "deriv c (RStar r) = mk_seq (deriv c r) (RStar r)"

fun MatchString :: "rexp \<Rightarrow> string \<Rightarrow> bool" where
  "MatchString r [] = nullable r"
| "MatchString r (c # cs) = MatchString (deriv c r) cs"

section \<open>Lemmas\<close>

lemma nullable_iff: "nullable r \<longleftrightarrow> [] \<in> lang r"
  by (induction r) (auto intro: star_Nil)

lemma lang_mk_seq [simp]: "lang (mk_seq r s) = lang (RSeq r s)"
  by (induction r s rule: mk_seq.induct) auto

lemma lang_mk_alt [simp]: "lang (mk_alt r s) = lang (RAlt r s)"
  by (induction r s rule: mk_alt.induct) auto

lemma star_lang_Cons:
  "c # w \<in> star_lang A \<longleftrightarrow> (\<exists>u v. w = u @ v \<and> c # u \<in> A \<and> v \<in> star_lang A)"
proof
  assume "c # w \<in> star_lang A"
  then show "\<exists>u v. w = u @ v \<and> c # u \<in> A \<and> v \<in> star_lang A"
  proof (induction "c # w" arbitrary: w rule: star_lang.induct)
    case (star_append u v)
    then show ?case by (cases u) auto
  qed
next
  assume "\<exists>u v. w = u @ v \<and> c # u \<in> A \<and> v \<in> star_lang A"
  then show "c # w \<in> star_lang A"
    using star_append by fastforce
qed

lemma seq_lang_Cons:
  "c # w \<in> lang (RSeq r s) \<longleftrightarrow>
    (\<exists>u v. w = u @ v \<and> c # u \<in> lang r \<and> v \<in> lang s) \<or> ([] \<in> lang r \<and> c # w \<in> lang s)"
  by (auto simp: Cons_eq_append_conv)

lemma deriv_lang: "w \<in> lang (deriv c r) \<longleftrightarrow> c # w \<in> lang r"
proof (induction r arbitrary: w)
  case (RSeq r s)
  then show ?case
    by (simp only: seq_lang_Cons) (auto simp: nullable_iff)
next
  case (RStar r)
  then show ?case by (auto simp: star_lang_Cons)
qed auto

lemma MatchString_lang: "MatchString r s \<longleftrightarrow> s \<in> lang r"
  by (induction r s rule: MatchString.induct) (simp_all add: nullable_iff deriv_lang)

subsection \<open>Languages of the common shapes\<close>

lemma star_class_iff: "s \<in> star_lang {[c] |c. P c} \<longleftrightarrow> (\<forall>c \<in> set s. P c)"
proof
  assume "s \<in> star_lang {[c] |c. P c}"
  then show "\<forall>c \<in> set s. P c" by induction auto
next
  show "\<forall>c \<in> set s. P c \<Longrightarrow> s \<in> star_lang {[c] |c. P c}"
  proof (induction s)
    case (Cons c s)
    then have "[c] @ s \<in> star_lang {[c] |c. P c}" by (intro star_append) auto
    then show ?case by simp
  qed (rule star_Nil)
qed

lemma star_lang_concat: "s \<in> star_lang A \<longleftrightarrow> (\<exists>us. s = concat us \<and> set us \<subseteq> A)"
proof
  assume "s \<in> star_lang A"
  then show "\<exists>us. s = concat us \<and> set us \<subseteq> A"
  proof induction
    case star_Nil
    then show ?case by (intro exI [of _ "[]"]) simp
  next
    case (star_append u v)
    then obtain us where "v = concat us" "set us \<subseteq> A" by blast
    with star_append show ?case by (intro exI [of _ "u # us"]) simp
  qed
next
  assume "\<exists>us. s = concat us \<and> set us \<subseteq> A"
  then obtain us where "s = concat us" "set us \<subseteq> A" by blast
  then show "s \<in> star_lang A"
    by (induction us arbitrary: s) (auto intro: star_lang.intros)
qed

lemma lang_RLit [simp]: "lang (RLit c) = {[c]}"
  by (auto simp: RLit_def in_class_def byte_between_def)

lemma lang_RText [simp]: "lang (RText s) = {s}"
  by (induction s) auto

lemma RSeq_lang: "s \<in> lang (RSeq r t) \<longleftrightarrow> (\<exists>u v. s = u @ v \<and> u \<in> lang r \<and> v \<in> lang t)"
  by simp

lemma RSeq_langI: "u \<in> lang r \<Longrightarrow> v \<in> lang t \<Longrightarrow> u @ v \<in> lang (RSeq r t)"
  by (simp only: RSeq_lang) blast

lemma class_seq_Cons: "c # w \<in> lang (RSeq (RClass a) r) \<longleftrightarrow> in_class a c \<and> w \<in> lang r"
  by (simp only: seq_lang_Cons) auto

lemma lang_class_then_class:
  "s \<in> lang (RSeq (RClass a) (RStar (RClass b))) \<longleftrightarrow>
    s \<noteq> [] \<and> in_class a (hd s) \<and> (\<forall>c \<in> set (tl s). in_class b c)"
proof (cases s)
  case (Cons c w)
  then show ?thesis
    by (simp only: class_seq_Cons) (simp add: star_class_iff)
qed auto

lemma lang_RUpTo_class:
  "s \<in> lang (RUpTo (RClass a) n) \<longleftrightarrow> length s \<le> n \<and> (\<forall>c \<in> set s. in_class a c)"
proof (induction n arbitrary: s)
  case (Suc n)
  show ?case
  proof (cases s)
    case (Cons c w)
    have "s \<in> lang (RUpTo (RClass a) (Suc n)) \<longleftrightarrow> in_class a c \<and> w \<in> lang (RUpTo (RClass a) n)"
      by (simp only: Cons RUpTo.simps lang.simps(5) Un_iff class_seq_Cons) simp
    then show ?thesis by (auto simp: Suc Cons)
  qed simp
qed auto

text \<open>Every byte of a matched text lies in one of the classes of the expression.\<close>

primrec alphabet :: "rexp \<Rightarrow> char set" where
  "alphabet RNone = {}"
| "alphabet REmpty = {}"
| "alphabet (RClass rs) = {c. in_class rs c}"
| "alphabet (RSeq r s) = alphabet r \<union> alphabet s"
| "alphabet (RAlt r s) = alphabet r \<union> alphabet s"
| "alphabet (RStar r) = alphabet r"

lemma star_alphabet: "s \<in> star_lang A \<Longrightarrow> (\<And>u. u \<in> A \<Longrightarrow> set u \<subseteq> C) \<Longrightarrow> set s \<subseteq> C"
  by (induction rule: star_lang.induct) auto

lemma lang_alphabet: "s \<in> lang r \<Longrightarrow> set s \<subseteq> alphabet r"
proof (induction r arbitrary: s)
  case (RSeq r1 r2)
  then obtain u v where "s = u @ v" "u \<in> lang r1" "v \<in> lang r2" by auto
  with RSeq.IH [of u] RSeq.IH(2) [of v] show ?case by auto
next
  case (RStar r)
  then have "s \<in> star_lang (lang r)" by simp
  then show ?case unfolding alphabet.simps by (rule star_alphabet) (rule RStar.IH)
next
  case (RAlt r1 r2)
  then show ?case using RAlt.IH [of s] by auto
qed (auto simp: in_class_def)

lemma alphabet_RUpTo: "alphabet (RUpTo r n) \<subseteq> alphabet r"
  by (induction n) auto

end
