(* ===== verification/GoText.thy ===== *)
theory GoText
  imports Prelude
begin

text \<open>
  The parts of \<open>strings\<close>, \<open>bytes\<close> and \<open>strconv\<close> the repository calls: \<open>TrimSpace\<close>,
  \<open>Contains\<close>, \<open>Itoa\<close> and \<open>Atoi\<close>.

  Strings are byte strings. \<open>TrimSpace\<close> removes the UTF-8 encodings of the runes
  \<open>unicode.IsSpace\<close> accepts from both ends. \<open>Atoi\<close> accepts an optional sign and decimal
  digits, and refuses a value outside the 64-bit range.
\<close>

section \<open>Trimming white space\<close>

definition space_runes :: "string list" where
  "space_runes =
     [[CHR 0x09], [CHR 0x0A], [CHR 0x0B], [CHR 0x0C], [CHR 0x0D], [CHR 0x20],
      [CHR 0xC2, CHR 0x85], [CHR 0xC2, CHR 0xA0], [CHR 0xE1, CHR 0x9A, CHR 0x80],
      [CHR 0xE2, CHR 0x80, CHR 0x80], [CHR 0xE2, CHR 0x80, CHR 0x81],
      [CHR 0xE2, CHR 0x80, CHR 0x82], [CHR 0xE2, CHR 0x80, CHR 0x83],
      [CHR 0xE2, CHR 0x80, CHR 0x84], [CHR 0xE2, CHR 0x80, CHR 0x85],
      [CHR 0xE2, CHR 0x80, CHR 0x86], [CHR 0xE2, CHR 0x80, CHR 0x87],
      [CHR 0xE2, CHR 0x80, CHR 0x88], [CHR 0xE2, CHR 0x80, CHR 0x89],
      [CHR 0xE2, CHR 0x80, CHR 0x8A], [CHR 0xE2, CHR 0x80, CHR 0xA8],
      [CHR 0xE2, CHR 0x80, CHR 0xA9], [CHR 0xE2, CHR 0x80, CHR 0xAF],
      [CHR 0xE2, CHR 0x81, CHR 0x9F], [CHR 0xE3, CHR 0x80, CHR 0x80]]"

definition leading_rune :: "string list \<Rightarrow> string \<Rightarrow> string option" where
  "leading_rune runes s = find (\<lambda>w. w \<noteq> [] \<and> take (length w) s = w) runes"

lemma leading_rune_shorter:
  "leading_rune runes s = Some w \<Longrightarrow> length (drop (length w) s) < length s"
proof -
  assume "leading_rune runes s = Some w"
  then have "w \<noteq> []" "take (length w) s = w"
    by (auto simp: leading_rune_def find_Some_iff)
  then show ?thesis by (cases s) auto
qed

function trim_left :: "string list \<Rightarrow> string \<Rightarrow> string" where
  "trim_left runes s =
     (case leading_rune runes s of
        None \<Rightarrow> s
      | Some w \<Rightarrow> trim_left runes (drop (length w) s))"
  by pat_completeness auto
termination
  by (relation "measure (\<lambda>(runes, s). length s)") (auto dest: leading_rune_shorter)

declare trim_left.simps [simp del]

definition trim_right :: "string list \<Rightarrow> string \<Rightarrow> string" where
  "trim_right runes s = rev (trim_left (map rev runes) (rev s))"

definition TrimSpace :: "string \<Rightarrow> string" where
  "TrimSpace s = trim_right space_runes (trim_left space_runes s)"

section \<open>Substrings\<close>

fun Contains :: "string \<Rightarrow> string \<Rightarrow> bool" where
  "Contains [] sub = (sub = [])"
| "Contains (c # s) sub = (take (length sub) (c # s) = sub \<or> Contains s sub)"

section \<open>Decimal integers\<close>

definition digit_char :: "nat \<Rightarrow> char" where
  "digit_char d = ''0123456789'' ! d"

definition is_digit :: "char \<Rightarrow> bool" where
  "is_digit c \<longleftrightarrow> byte_between CHR ''0'' CHR ''9'' c"

definition digit_value :: "char \<Rightarrow> nat" where
  "digit_value c = of_char c - 48"

fun nat_text :: "nat \<Rightarrow> string" where
  "nat_text n = (if n < 10 then [digit_char n] else nat_text (n div 10) @ [digit_char (n mod 10)])"

declare nat_text.simps [simp del]

definition Itoa :: "int \<Rightarrow> string" where
  "Itoa n = (if n < 0 then CHR ''-'' # nat_text (nat (- n)) else nat_text (nat n))"

definition digits_value :: "string \<Rightarrow> nat" where
  "digits_value s = foldl (\<lambda>n c. 10 * n + digit_value c) 0 s"

definition Atoi :: "string \<Rightarrow> int option" where
  "Atoi s =
     (let signed = s \<noteq> [] \<and> (hd s = CHR ''-'' \<or> hd s = CHR ''+'');
          digits = (if signed then tl s else s);
          n = int (digits_value digits);
          v = (if signed \<and> hd s = CHR ''-'' then - n else n)
      in if digits = [] \<or> \<not> list_all is_digit digits then None
         else if in_i64 v then Some v else None)"

section \<open>Lemmas\<close>

lemma leading_rune_space_None_iff:
  "leading_rune runes s = None \<longleftrightarrow> (\<forall>w \<in> set runes. w \<noteq> [] \<longrightarrow> take (length w) s \<noteq> w)"
  by (auto simp: leading_rune_def find_None_iff)

lemma trim_left_stop: "leading_rune runes s = None \<Longrightarrow> trim_left runes s = s"
  by (subst trim_left.simps) simp

lemma trim_left_result: "leading_rune runes (trim_left runes s) = None"
proof (induction runes s rule: trim_left.induct)
  case (1 runes s)
  show ?case
    by (cases "leading_rune runes s") (simp_all add: trim_left.simps [of runes s] 1)
qed

lemma trim_left_suffix: "\<exists>p. s = p @ trim_left runes s"
proof (induction runes s rule: trim_left.induct)
  case (1 runes s)
  show ?case
  proof (cases "leading_rune runes s")
    case None
    then show ?thesis by (simp add: trim_left_stop)
  next
    case (Some w)
    with 1 obtain p where "drop (length w) s = p @ trim_left runes (drop (length w) s)" by blast
    then have "s = (take (length w) s @ p) @ trim_left runes (drop (length w) s)"
      by (metis append.assoc append_take_drop_id)
    then show ?thesis
      using Some by (metis option.case(2) trim_left.simps)
  qed
qed

lemma trim_left_idem [simp]: "trim_left runes (trim_left runes s) = trim_left runes s"
  by (simp add: trim_left_stop trim_left_result)

lemma trim_right_idem [simp]: "trim_right runes (trim_right runes s) = trim_right runes s"
  by (simp add: trim_right_def)

lemma trim_right_prefix: "\<exists>q. s = trim_right runes s @ q"
  using trim_left_suffix [of "rev s" "map rev runes"]
  by (metis rev_append rev_rev_ident trim_right_def)

text \<open>Removing a suffix keeps the absence of a leading rune: a rune found in front of the rest
  was in front of the whole.\<close>

lemma leading_rune_prefix:
  assumes "leading_rune runes (p @ q) = None"
  shows "leading_rune runes p = None"
  unfolding leading_rune_space_None_iff
proof (intro ballI impI notI)
  fix w assume w: "w \<in> set runes" "w \<noteq> []" "take (length w) p = w"
  then have "length w \<le> length p"
    by (metis length_take min.cobounded1 min.commute)
  with w have "take (length w) (p @ q) = w" by simp
  with w assms show False
    unfolding leading_rune_space_None_iff by blast
qed

lemma TrimSpace_leading: "leading_rune space_runes (TrimSpace s) = None"
  using trim_right_prefix [of "trim_left space_runes s" space_runes]
    trim_left_result [of space_runes s]
  by (metis TrimSpace_def leading_rune_prefix)

lemma TrimSpace_idem [simp]: "TrimSpace (TrimSpace s) = TrimSpace s"
  using TrimSpace_leading [of s] by (simp add: TrimSpace_def trim_left_stop)

lemma TrimSpace_infix: "\<exists>p q. s = p @ TrimSpace s @ q"
  using trim_left_suffix [of s space_runes] trim_right_prefix [of "trim_left space_runes s" space_runes]
  by (metis TrimSpace_def)

lemma TrimSpace_id_iff:
  "TrimSpace s = s \<longleftrightarrow> leading_rune space_runes s = None \<and> leading_rune (map rev space_runes) (rev s) = None"
proof
  assume eq: "TrimSpace s = s"
  have "trim_right space_runes s = s"
    using trim_right_idem [of space_runes "trim_left space_runes s"] eq unfolding TrimSpace_def
    by simp
  then have "trim_left (map rev space_runes) (rev s) = rev s"
    by (metis rev_rev_ident trim_right_def)
  with eq show "leading_rune space_runes s = None \<and> leading_rune (map rev space_runes) (rev s) = None"
    by (metis TrimSpace_leading trim_left_result)
qed (simp add: TrimSpace_def trim_right_def trim_left_stop)

lemma Contains_iff: "Contains s sub \<longleftrightarrow> (\<exists>p q. s = p @ sub @ q)"
proof (induction s)
  case (Cons c s)
  have "(\<exists>p q. c # s = p @ sub @ q) \<longleftrightarrow> (\<exists>q. c # s = sub @ q) \<or> (\<exists>p q. s = p @ sub @ q)"
    by (metis Cons_eq_append_conv append_Cons append_Nil)
  moreover have "(\<exists>q. c # s = sub @ q) \<longleftrightarrow> take (length sub) (c # s) = sub"
    by (metis append_eq_conv_conj append_take_drop_id)
  ultimately show ?case using Cons by simp
qed auto

lemma is_digit_digit_char: "d < 10 \<Longrightarrow> is_digit (digit_char d)"
  and digit_value_digit_char: "d < 10 \<Longrightarrow> digit_value (digit_char d) = d"
proof -
  assume "d < 10"
  then have "d \<in> {0,1,2,3,4,5,6,7,8,9}" by simp presburger
  then show "is_digit (digit_char d)" "digit_value (digit_char d) = d"
    by (auto simp: is_digit_def digit_char_def digit_value_def byte_between_def)
qed

lemma nat_text_digits: "list_all is_digit (nat_text n)"
proof (induction n rule: nat_text.induct)
  case (1 n)
  then show ?case by (subst nat_text.simps) (auto simp: is_digit_digit_char)
qed

lemma nat_text_nonempty [simp]: "nat_text n \<noteq> []"
  by (subst nat_text.simps) simp

lemma digits_value_nat_text [simp]: "digits_value (nat_text n) = n"
proof (induction n rule: nat_text.induct)
  case (1 n)
  then show ?case
    by (subst nat_text.simps) (auto simp: digits_value_def digit_value_digit_char)
qed

lemma nat_text_inj: "nat_text m = nat_text n \<longleftrightarrow> m = n"
  by (metis digits_value_nat_text)

lemma nat_text_hd: "0 < n \<Longrightarrow> hd (nat_text n) \<noteq> CHR ''0''"
proof (induction n rule: nat_text.induct)
  case (1 n)
  show ?case
  proof (cases "n < 10")
    case True
    with 1(2) have "n \<in> {1,2,3,4,5,6,7,8,9}" by simp presburger
    then show ?thesis by (subst nat_text.simps) (auto simp: digit_char_def)
  next
    case False
    with 1 show ?thesis by (subst nat_text.simps) simp
  qed
qed

lemma not_digit_sign: "\<not> is_digit CHR ''-''" "\<not> is_digit CHR ''+''"
  by (simp_all add: is_digit_def byte_between_def)

lemma hd_nat_text: "is_digit (hd (nat_text n))"
  using nat_text_digits [of n] nat_text_nonempty [of n] by (cases "nat_text n") auto

text \<open>Round trip of the decimal text of a 64-bit integer.\<close>

lemma Atoi_Itoa: "in_i64 n \<Longrightarrow> Atoi (Itoa n) = Some n"
  using hd_nat_text [of "nat n"] not_digit_sign nat_text_digits
  by (auto simp: Atoi_def Itoa_def Let_def)

lemma Atoi_in_i64: "Atoi s = Some n \<Longrightarrow> in_i64 n"
  by (auto simp: Atoi_def Let_def split: if_splits)

end
