(* ===== verification/Json.thy ===== *)
theory Json
  imports GoText
begin

text \<open>
  The syntax check of \<open>encoding/json\<close> (RFC 8259 as Go's scanner implements it: white space is
  space, tab, carriage return and line feed; nesting is limited to 10000 levels).

  \<open>json_parse\<close> is an executable recursive-descent reader. A string or number keeps its token
  text. \<open>fuel\<close> bounds the recursion; \<open>json_parse\<close> starts with one more than the length of the input,
  and \<open>json_parse_iff\<close> shows that this is enough: no other fuel reads more.
\<close>

section \<open>Values and tokens\<close>

datatype json =
    JNull | JBool bool | JNumber string | JString string
  | JArray "json list" | JObject "(string \<times> json) list"

definition json_space :: "char \<Rightarrow> bool" where
  "json_space c \<longleftrightarrow> c = CHR 0x20 \<or> c = CHR 0x09 \<or> c = CHR 0x0D \<or> c = CHR 0x0A"

definition skip_ws :: "string \<Rightarrow> string" where
  "skip_ws s = dropWhile json_space s"

definition any_hex :: "char \<Rightarrow> bool" where
  "any_hex c \<longleftrightarrow> is_digit c \<or> byte_between CHR ''a'' CHR ''f'' c \<or> byte_between CHR ''A'' CHR ''F'' c"

definition escape_char :: "char \<Rightarrow> bool" where
  "escape_char e \<longleftrightarrow> e \<in> set [CHR ''b'', CHR ''f'', CHR ''n'', CHR ''r'', CHR ''t'', CHR 0x5C, CHR ''/'', CHR 0x22]"

text \<open>After the opening quote: the token up to the closing quote, and the rest.\<close>

fun scan_string :: "string \<Rightarrow> (string \<times> string) option" where
  "scan_string [] = None"
| "scan_string (c # cs) =
     (if c = CHR 0x22 then Some ([], cs)
      else if c = CHR 0x5C then
        (case cs of
           [] \<Rightarrow> None
         | e # es \<Rightarrow>
             (if escape_char e then map_option (\<lambda>(t, r). (c # e # t, r)) (scan_string es)
              else if e = CHR ''u'' then
                (case es of
                   h1 # h2 # h3 # h4 # rest \<Rightarrow>
                     (if any_hex h1 \<and> any_hex h2 \<and> any_hex h3 \<and> any_hex h4
                      then map_option (\<lambda>(t, r). (c # e # h1 # h2 # h3 # h4 # t, r)) (scan_string rest)
                      else None)
                 | _ \<Rightarrow> None)
              else None))
      else if (of_char c :: nat) < 0x20 then None
      else map_option (\<lambda>(t, r). (c # t, r)) (scan_string cs))"

definition scan_digits :: "string \<Rightarrow> (string \<times> string) option" where
  "scan_digits s =
     (let ds = takeWhile is_digit s in if ds = [] then None else Some (ds, dropWhile is_digit s))"

definition scan_integer :: "string \<Rightarrow> (string \<times> string) option" where
  "scan_integer s =
     (case s of
        [] \<Rightarrow> None
      | c # cs \<Rightarrow> if c = CHR ''0'' then Some ([c], cs) else scan_digits s)"

definition scan_fraction :: "string \<Rightarrow> (string \<times> string) option" where
  "scan_fraction s =
     (case s of
        c # cs \<Rightarrow>
          if c = CHR ''.'' then map_option (\<lambda>(t, r). (c # t, r)) (scan_digits cs) else Some ([], s)
      | [] \<Rightarrow> Some ([], s))"

definition scan_exponent :: "string \<Rightarrow> (string \<times> string) option" where
  "scan_exponent s =
     (case s of
        c # cs \<Rightarrow>
          if c = CHR ''e'' \<or> c = CHR ''E'' then
            (case cs of
               sign # ds \<Rightarrow>
                 if sign = CHR ''+'' \<or> sign = CHR ''-''
                 then map_option (\<lambda>(t, r). (c # sign # t, r)) (scan_digits ds)
                 else map_option (\<lambda>(t, r). (c # t, r)) (scan_digits cs)
             | [] \<Rightarrow> None)
          else Some ([], s)
      | [] \<Rightarrow> Some ([], s))"

definition scan_number :: "string \<Rightarrow> (string \<times> string) option" where
  "scan_number s =
     (let (sign, s1) = (case s of c # cs \<Rightarrow> if c = CHR ''-'' then ([c], cs) else ([], s) | [] \<Rightarrow> ([], s))
      in case scan_integer s1 of
           None \<Rightarrow> None
         | Some (i, s2) \<Rightarrow>
             (case scan_fraction s2 of
                None \<Rightarrow> None
              | Some (f, s3) \<Rightarrow>
                  map_option (\<lambda>(e, r). (sign @ i @ f @ e, r)) (scan_exponent s3)))"

definition scan_word :: "string \<Rightarrow> json \<Rightarrow> string \<Rightarrow> (json \<times> string) option" where
  "scan_word w v s = (if take (length w) s = w then Some (v, drop (length w) s) else None)"

section \<open>The reader\<close>

fun parse_value :: "nat \<Rightarrow> nat \<Rightarrow> string \<Rightarrow> (json \<times> string) option"
  and parse_elements :: "nat \<Rightarrow> nat \<Rightarrow> string \<Rightarrow> (json list \<times> string) option"
  and parse_members :: "nat \<Rightarrow> nat \<Rightarrow> string \<Rightarrow> ((string \<times> json) list \<times> string) option" where
  "parse_value 0 d s = None"
| "parse_value (Suc n) d s =
     (case skip_ws s of
        [] \<Rightarrow> None
      | c # cs \<Rightarrow>
          if c = CHR ''{'' then
            (if d = 0 then None
             else case skip_ws cs of
                    [] \<Rightarrow> None
                  | x # r \<Rightarrow> if x = CHR ''}'' then Some (JObject [], r)
                            else map_option (\<lambda>(ms, r). (JObject ms, r)) (parse_members n (d - 1) cs))
          else if c = CHR ''['' then
            (if d = 0 then None
             else case skip_ws cs of
                    [] \<Rightarrow> None
                  | x # r \<Rightarrow> if x = CHR '']'' then Some (JArray [], r)
                            else map_option (\<lambda>(vs, r). (JArray vs, r)) (parse_elements n (d - 1) cs))
          else if c = CHR 0x22 then map_option (\<lambda>(t, r). (JString t, r)) (scan_string cs)
          else if c = CHR ''t'' then scan_word ''true'' (JBool True) (c # cs)
          else if c = CHR ''f'' then scan_word ''false'' (JBool False) (c # cs)
          else if c = CHR ''n'' then scan_word ''null'' JNull (c # cs)
          else map_option (\<lambda>(t, r). (JNumber t, r)) (scan_number (c # cs)))"
| "parse_elements 0 d s = None"
| "parse_elements (Suc n) d s =
     (case parse_value n d s of
        None \<Rightarrow> None
      | Some (v, r) \<Rightarrow>
          (case skip_ws r of
             [] \<Rightarrow> None
           | c # cs \<Rightarrow>
               if c = CHR '','' then map_option (\<lambda>(vs, r). (v # vs, r)) (parse_elements n d cs)
               else if c = CHR '']'' then Some ([v], cs)
               else None))"
| "parse_members 0 d s = None"
| "parse_members (Suc n) d s =
     (case skip_ws s of
        [] \<Rightarrow> None
      | q # qs \<Rightarrow>
          if q \<noteq> CHR 0x22 then None
          else (case scan_string qs of
                  None \<Rightarrow> None
                | Some (k, r) \<Rightarrow>
                    (case skip_ws r of
                       [] \<Rightarrow> None
                     | x # xs \<Rightarrow>
                         if x \<noteq> CHR '':'' then None
                         else (case parse_value n d xs of
                                 None \<Rightarrow> None
                               | Some (v, r2) \<Rightarrow>
                                   (case skip_ws r2 of
                                      [] \<Rightarrow> None
                                    | c # cs \<Rightarrow>
                                        if c = CHR '','' then
                                          map_option (\<lambda>(ms, r). ((k, v) # ms, r)) (parse_members n d cs)
                                        else if c = CHR ''}'' then Some ([(k, v)], cs)
                                        else None)))))"

definition max_nesting :: nat where
  "max_nesting = 10000"

definition json_parse :: "string \<Rightarrow> json option" where
  "json_parse s =
     (case parse_value (Suc (length s)) max_nesting s of
        None \<Rightarrow> None
      | Some (v, r) \<Rightarrow> if skip_ws r = [] then Some v else None)"

section \<open>The fuel is enough\<close>

lemma skip_ws_length: "length (skip_ws s) \<le> length s"
  by (simp add: skip_ws_def length_dropWhile_le)

lemma skip_ws_shorter: "skip_ws s = c # cs \<Longrightarrow> length cs < length s"
  using skip_ws_length [of s] by simp

lemma scan_string_shorter: "scan_string s = Some (t, r) \<Longrightarrow> length r < length s"
proof (induction s arbitrary: t r rule: length_induct)
  case (1 s)
  then have IH: "\<And>s' t r. scan_string s' = Some (t, r) \<Longrightarrow> length s' < length s \<Longrightarrow> length r < length s'"
    by blast
  show ?case
  proof (cases s)
    case (Cons c cs)
    show ?thesis
      using "1.prems" by (auto simp: Cons split: if_splits list.splits dest!: IH)
  qed (use "1.prems" in simp)
qed

lemma scan_digits_shorter:
  assumes "scan_digits s = Some (t, r)"
  shows "length r < length s"
proof -
  have "t \<noteq> []" "s = t @ r" using assms by (auto simp: scan_digits_def Let_def split: if_splits)
  then show ?thesis by (cases t) auto
qed

lemma scan_integer_shorter: "scan_integer s = Some (t, r) \<Longrightarrow> length r < length s"
  by (auto simp: scan_integer_def split: list.splits if_splits dest: scan_digits_shorter)

lemma scan_fraction_length: "scan_fraction s = Some (t, r) \<Longrightarrow> length r \<le> length s"
  by (auto simp: scan_fraction_def split: list.splits if_splits dest!: scan_digits_shorter)

lemma scan_exponent_length: "scan_exponent s = Some (t, r) \<Longrightarrow> length r \<le> length s"
  by (auto simp: scan_exponent_def split: list.splits if_splits dest!: scan_digits_shorter)

lemma scan_number_shorter: "scan_number s = Some (t, r) \<Longrightarrow> length r < length s"
  by (auto simp: scan_number_def split: option.splits list.splits if_splits
      dest!: scan_integer_shorter scan_fraction_length scan_exponent_length)

lemma scan_word_shorter: "scan_word w v s = Some (x, r) \<Longrightarrow> w \<noteq> [] \<Longrightarrow> length r < length s"
  by (cases s) (auto simp: scan_word_def split: if_splits)

text \<open>What is read with some fuel is read with any fuel that is at least the number of bytes consumed.\<close>

definition fuel_enough :: "(nat \<Rightarrow> ('a \<times> string) option) \<Rightarrow> string \<Rightarrow> 'a \<Rightarrow> string \<Rightarrow> bool" where
  "fuel_enough read s x r \<longleftrightarrow> length r < length s \<and> (\<forall>m \<ge> length s - length r. read m = Some (x, r))"

lemma enoughI:
  assumes "length r < length s" and "\<And>k. length s \<le> Suc (k + length r) \<Longrightarrow> read (Suc k) = Some (x, r)"
  shows "fuel_enough read s x r"
  unfolding fuel_enough_def
proof (intro conjI allI impI)
  show "read m = Some (x, r)" if "length s - length r \<le> m" for m
    using that assms by (cases m) auto
qed (rule assms(1))

lemma enoughD: "fuel_enough read s x r \<Longrightarrow> length r < length s" "fuel_enough read s x r \<Longrightarrow> length s - length r \<le> m \<Longrightarrow> read m = Some (x, r)"
  by (simp_all add: fuel_enough_def)

lemma value_enough:
  assumes members: "\<And>cs ms r. parse_members n (d - 1) cs = Some (ms, r) \<Longrightarrow> fuel_enough (\<lambda>m. parse_members m (d - 1) cs) cs ms r"
    and elements: "\<And>cs vs r. parse_elements n (d - 1) cs = Some (vs, r) \<Longrightarrow> fuel_enough (\<lambda>m. parse_elements m (d - 1) cs) cs vs r"
    and read: "parse_value (Suc n) d s = Some (v, r)"
  shows "fuel_enough (\<lambda>m. parse_value m d s) s v r"
proof -
  from read obtain c cs where s: "skip_ws s = c # cs" by (auto split: list.splits)
  note shorter = skip_ws_shorter [OF s] skip_ws_length [of s]
  consider (members) ms where "c = CHR ''{''" "d \<noteq> 0" "parse_members n (d - 1) cs = Some (ms, r)" "v = JObject ms"
      "\<exists>x y. skip_ws cs = x # y \<and> x \<noteq> CHR ''}''"
    | (elements) vs where "c = CHR ''[''" "d \<noteq> 0" "parse_elements n (d - 1) cs = Some (vs, r)" "v = JArray vs"
      "\<exists>x y. skip_ws cs = x # y \<and> x \<noteq> CHR '']''"
    | (scanned) "length r < length s" "\<And>k. parse_value (Suc k) d s = Some (v, r)"
    using read s shorter
    by (auto split: if_splits list.splits
        dest!: skip_ws_shorter scan_string_shorter scan_number_shorter scan_word_shorter)
  then show ?thesis
  proof cases
    case members: (members ms)
    note inner = enoughD [OF assms(1) [OF members(3)]]
    show ?thesis
      using members s shorter inner(1) inner(2) by (intro enoughI) auto
  next
    case elements: (elements vs)
    note inner = enoughD [OF assms(2) [OF elements(3)]]
    show ?thesis
      using elements s shorter inner(1) inner(2) by (intro enoughI) auto
  next
    case scanned
    then show ?thesis by (rule enoughI)
  qed
qed

lemma elements_enough:
  assumes item: "\<And>v r. parse_value n d s = Some (v, r) \<Longrightarrow> fuel_enough (\<lambda>m. parse_value m d s) s v r"
    and rest: "\<And>cs vs r. parse_elements n d cs = Some (vs, r) \<Longrightarrow> fuel_enough (\<lambda>m. parse_elements m d cs) cs vs r"
    and read: "parse_elements (Suc n) d s = Some (vs, r)"
  shows "fuel_enough (\<lambda>m. parse_elements m d s) s vs r"
proof -
  from read obtain v1 r1 c cs where v1: "parse_value n d s = Some (v1, r1)" and r1: "skip_ws r1 = c # cs"
    by (auto split: option.splits list.splits)
  note head = enoughD [OF item [OF v1]] and shorter = skip_ws_shorter [OF r1]
  show ?thesis
  proof (cases "c = CHR '',''")
    case True
    with read v1 r1 obtain vs1 where "parse_elements n d cs = Some (vs1, r)" and vs: "vs = v1 # vs1" by auto
    note tail = enoughD [OF rest [OF this(1)]]
    show ?thesis
      using True r1 vs shorter head(1) tail(1) head(2) tail(2) by (intro enoughI) auto
  next
    case False
    with read v1 r1 have "c = CHR '']''" "vs = [v1]" "r = cs" by (auto split: if_splits)
    then show ?thesis
      using r1 shorter head(1) head(2) by (intro enoughI) auto
  qed
qed

lemma members_enough:
  assumes item: "\<And>xs v r. parse_value n d xs = Some (v, r) \<Longrightarrow> fuel_enough (\<lambda>m. parse_value m d xs) xs v r"
    and rest: "\<And>cs ms r. parse_members n d cs = Some (ms, r) \<Longrightarrow> fuel_enough (\<lambda>m. parse_members m d cs) cs ms r"
    and read: "parse_members (Suc n) d s = Some (ms, r)"
  shows "fuel_enough (\<lambda>m. parse_members m d s) s ms r"
proof -
  from read obtain qs k r0 xs v1 r2 c cs where
    s: "skip_ws s = CHR 0x22 # qs" and k: "scan_string qs = Some (k, r0)" and r0: "skip_ws r0 = CHR '':'' # xs"
    and v1: "parse_value n d xs = Some (v1, r2)" and r2: "skip_ws r2 = c # cs"
    by (auto split: option.splits list.splits if_splits)
  note head = enoughD [OF item [OF v1]]
    and shorter = skip_ws_shorter [OF s] scan_string_shorter [OF k] skip_ws_shorter [OF r0] skip_ws_shorter [OF r2]
  show ?thesis
  proof (cases "c = CHR '',''")
    case True
    with read s k r0 v1 r2 obtain ms1 where "parse_members n d cs = Some (ms1, r)" and ms: "ms = (k, v1) # ms1" by auto
    note tail = enoughD [OF rest [OF this(1)]]
    show ?thesis
      using True s k r0 r2 ms shorter head(1) tail(1) head(2) tail(2) by (intro enoughI) auto
  next
    case False
    with read s k r0 v1 r2 have "c = CHR ''}''" "ms = [(k, v1)]" "r = cs" by (auto split: if_splits)
    then show ?thesis
      using s k r0 r2 shorter head(1) head(2) by (intro enoughI) auto
  qed
qed

lemma parse_enough:
  "(parse_value n d s = Some (v, r) \<longrightarrow> fuel_enough (\<lambda>m. parse_value m d s) s v r)
   \<and> (parse_elements n d s = Some (vs, r) \<longrightarrow> fuel_enough (\<lambda>m. parse_elements m d s) s vs r)
   \<and> (parse_members n d s = Some (ms, r) \<longrightarrow> fuel_enough (\<lambda>m. parse_members m d s) s ms r)"
proof (induction n arbitrary: d s v vs ms r)
  case (Suc n)
  have IH: "\<And>d s v r. parse_value n d s = Some (v, r) \<Longrightarrow> fuel_enough (\<lambda>m. parse_value m d s) s v r"
    "\<And>d s vs r. parse_elements n d s = Some (vs, r) \<Longrightarrow> fuel_enough (\<lambda>m. parse_elements m d s) s vs r"
    "\<And>d s ms r. parse_members n d s = Some (ms, r) \<Longrightarrow> fuel_enough (\<lambda>m. parse_members m d s) s ms r"
    using Suc.IH by blast+
  show ?case
    by (intro conjI impI value_enough [OF IH(3,2)] elements_enough [OF IH(1,2)] members_enough [OF IH(1,3)])
qed simp

text \<open>The reader with the fuel of \<open>json_parse\<close> accepts whatever it accepts with any fuel.\<close>

lemma json_parse_iff:
  "json_parse s = Some v \<longleftrightarrow> (\<exists>n r. parse_value n max_nesting s = Some (v, r) \<and> skip_ws r = [])"
proof
  assume "\<exists>n r. parse_value n max_nesting s = Some (v, r) \<and> skip_ws r = []"
  then obtain n r where "fuel_enough (\<lambda>m. parse_value m max_nesting s) s v r" "skip_ws r = []"
    using parse_enough by blast
  then show "json_parse s = Some v"
    using enoughD(2) [of "\<lambda>m. parse_value m max_nesting s" s v r "Suc (length s)"]
    by (simp add: json_parse_def del: parse_value.simps)
next
  assume "json_parse s = Some v"
  then show "\<exists>n r. parse_value n max_nesting s = Some (v, r) \<and> skip_ws r = []"
    unfolding json_parse_def by (auto simp del: parse_value.simps split: option.splits if_splits) blast
qed

end
