(* ===== verification/JsonGrammar.thy ===== *)
theory JsonGrammar
  imports Json
begin

text \<open>
  The grammar of JSON texts (RFC 8259) as inductive definitions, and the proof that \<open>json_parse\<close>
  reads exactly the texts of the grammar up to the nesting limit, each with its value.
\<close>

section \<open>The grammar\<close>

definition blank :: "string \<Rightarrow> bool" where
  "blank s \<longleftrightarrow> list_all json_space s"

definition plain_char :: "char \<Rightarrow> bool" where
  "plain_char c \<longleftrightarrow> c \<noteq> CHR 0x22 \<and> c \<noteq> CHR 0x5C \<and> 0x20 \<le> (of_char c :: nat)"

inductive string_body :: "string \<Rightarrow> bool" where
  body_Nil: "string_body []"
| body_plain: "plain_char c \<Longrightarrow> string_body t \<Longrightarrow> string_body (c # t)"
| body_escape: "escape_char e \<Longrightarrow> string_body t \<Longrightarrow> string_body (CHR 0x5C # e # t)"
| body_unicode: "any_hex h1 \<Longrightarrow> any_hex h2 \<Longrightarrow> any_hex h3 \<Longrightarrow> any_hex h4 \<Longrightarrow> string_body t \<Longrightarrow>
    string_body (CHR 0x5C # CHR ''u'' # h1 # h2 # h3 # h4 # t)"

definition digit_text :: "string \<Rightarrow> bool" where
  "digit_text t \<longleftrightarrow> t \<noteq> [] \<and> list_all is_digit t"

definition int_text :: "string \<Rightarrow> bool" where
  "int_text i \<longleftrightarrow> i = ''0'' \<or> digit_text i \<and> hd i \<noteq> CHR ''0''"

definition frac_text :: "string \<Rightarrow> bool" where
  "frac_text f \<longleftrightarrow> f = [] \<or> (\<exists>ds. f = CHR ''.'' # ds \<and> digit_text ds)"

definition exp_text :: "string \<Rightarrow> bool" where
  "exp_text e \<longleftrightarrow> e = [] \<or> (\<exists>mark ds. (mark = CHR ''e'' \<or> mark = CHR ''E'') \<and> digit_text ds
     \<and> (e = mark # ds \<or> e = mark # CHR ''+'' # ds \<or> e = mark # CHR ''-'' # ds))"

definition number_text :: "string \<Rightarrow> bool" where
  "number_text t \<longleftrightarrow> (\<exists>sign i f e. t = sign @ i @ f @ e \<and> (sign = [] \<or> sign = ''-'')
     \<and> int_text i \<and> frac_text f \<and> exp_text e)"

inductive value_text :: "nat \<Rightarrow> json \<Rightarrow> string \<Rightarrow> bool"
  and elements_text :: "nat \<Rightarrow> json list \<Rightarrow> string \<Rightarrow> bool"
  and members_text :: "nat \<Rightarrow> (string \<times> json) list \<Rightarrow> string \<Rightarrow> bool" where
  null_text: "value_text d JNull ''null''"
| true_text: "value_text d (JBool True) ''true''"
| false_text: "value_text d (JBool False) ''false''"
| string_text: "string_body t \<Longrightarrow> value_text d (JString t) (CHR 0x22 # t @ [CHR 0x22])"
| number: "number_text t \<Longrightarrow> value_text d (JNumber t) t"
| empty_array: "blank w \<Longrightarrow> value_text (Suc d) (JArray []) (CHR ''['' # w @ '']'')"
| array: "elements_text d vs t \<Longrightarrow> value_text (Suc d) (JArray vs) (CHR ''['' # t @ '']'')"
| empty_object: "blank w \<Longrightarrow> value_text (Suc d) (JObject []) (CHR ''{'' # w @ ''}'')"
| object: "members_text d ms t \<Longrightarrow> value_text (Suc d) (JObject ms) (CHR ''{'' # t @ ''}'')"
| one_element: "blank a \<Longrightarrow> value_text d v t \<Longrightarrow> blank b \<Longrightarrow> elements_text d [v] (a @ t @ b)"
| more_elements: "blank a \<Longrightarrow> value_text d v t \<Longrightarrow> blank b \<Longrightarrow> elements_text d vs u \<Longrightarrow>
    elements_text d (v # vs) (a @ t @ b @ '','' @ u)"
| one_member: "blank a \<Longrightarrow> string_body k \<Longrightarrow> blank b \<Longrightarrow> blank a' \<Longrightarrow> value_text d v t \<Longrightarrow> blank b' \<Longrightarrow>
    members_text d [(k, v)] (a @ CHR 0x22 # k @ CHR 0x22 # b @ CHR '':'' # a' @ t @ b')"
| more_members: "blank a \<Longrightarrow> string_body k \<Longrightarrow> blank b \<Longrightarrow> blank a' \<Longrightarrow> value_text d v t \<Longrightarrow> blank b' \<Longrightarrow> members_text d ms u \<Longrightarrow>
    members_text d ((k, v) # ms) (a @ CHR 0x22 # k @ CHR 0x22 # b @ CHR '':'' # a' @ t @ b' @ '','' @ u)"

section \<open>Tokens\<close>

lemma skip_ws_split: "\<exists>w. blank w \<and> s = w @ skip_ws s"
  by (metis blank_def skip_ws_def takeWhile_dropWhile_id list_all_iff set_takeWhileD)

lemma skip_ws_Cons: "skip_ws s = c # r \<Longrightarrow> \<not> json_space c"
  by (metis skip_ws_def hd_dropWhile list.sel(1) list.simps(3))

lemma skip_ws_append: "blank w \<Longrightarrow> skip_ws (w @ s) = skip_ws s"
  by (induction w) (auto simp: blank_def skip_ws_def)

lemma skip_ws_stop: "\<not> json_space c \<Longrightarrow> skip_ws (c # s) = c # s"
  by (simp add: skip_ws_def)

lemma scan_string_sound: "scan_string s = Some (t, r) \<Longrightarrow> s = t @ CHR 0x22 # r \<and> string_body t"
proof (induction s arbitrary: t r rule: length_induct)
  case (1 s)
  then have IH: "\<And>s' t r. scan_string s' = Some (t, r) \<Longrightarrow> length s' < length s \<Longrightarrow> s' = t @ CHR 0x22 # r \<and> string_body t"
    by blast
  show ?case
  proof (cases s)
    case (Cons c cs)
    show ?thesis
      using "1.prems"
      by (auto simp: Cons plain_char_def not_less split: if_splits list.splits dest!: IH intro: string_body.intros)
  qed (use "1.prems" in simp)
qed

lemma scan_string_complete: "string_body t \<Longrightarrow> scan_string (t @ CHR 0x22 # r) = Some (t, r)"
  by (induction rule: string_body.induct) (auto simp: plain_char_def escape_char_def)

text \<open>Texts that cannot continue a number.\<close>

definition number_ends :: "string \<Rightarrow> bool" where
  "number_ends r \<longleftrightarrow> (r = [] \<or> \<not> is_digit (hd r) \<and> hd r \<noteq> CHR ''.'' \<and> hd r \<noteq> CHR ''e'' \<and> hd r \<noteq> CHR ''E'')"

lemma scan_digits_sound: "scan_digits s = Some (t, r) \<Longrightarrow> s = t @ r \<and> digit_text t"
  by (auto simp: scan_digits_def digit_text_def Let_def list_all_iff split: if_splits dest: set_takeWhileD)

lemma scan_digits_complete:
  assumes "digit_text t" and "r = [] \<or> \<not> is_digit (hd r)"
  shows "scan_digits (t @ r) = Some (t, r)"
proof -
  have "takeWhile is_digit (t @ r) = t" "dropWhile is_digit (t @ r) = r"
    using assms by (cases r; auto simp: digit_text_def list_all_iff takeWhile_append dropWhile_append)+
  then show ?thesis using assms(1) by (simp add: scan_digits_def digit_text_def)
qed

lemma scan_integer_sound: "scan_integer s = Some (t, r) \<Longrightarrow> s = t @ r \<and> int_text t"
  by (cases t) (auto simp: scan_integer_def int_text_def digit_text_def split: list.splits if_splits dest!: scan_digits_sound)

lemma scan_integer_complete:
  assumes "int_text t" and "r = [] \<or> \<not> is_digit (hd r)"
  shows "scan_integer (t @ r) = Some (t, r)"
proof (cases "t = ''0''")
  case True
  then show ?thesis by (simp add: scan_integer_def)
next
  case False
  then have t: "digit_text t" "hd t \<noteq> CHR ''0''" using assms(1) by (auto simp: int_text_def)
  then obtain c cs where "t = c # cs" "c \<noteq> CHR ''0''" by (cases t) (auto simp: digit_text_def)
  with scan_digits_complete [OF t(1) assms(2)] show ?thesis by (simp add: scan_integer_def)
qed

lemma scan_fraction_sound: "scan_fraction s = Some (t, r) \<Longrightarrow> s = t @ r \<and> frac_text t"
  by (auto simp: scan_fraction_def frac_text_def split: list.splits if_splits dest!: scan_digits_sound)

lemma scan_fraction_complete:
  assumes "frac_text t" and "r = [] \<or> \<not> is_digit (hd r) \<and> hd r \<noteq> CHR ''.''"
  shows "scan_fraction (t @ r) = Some (t, r)"
proof (cases "t = []")
  case False
  then obtain ds where "t = CHR ''.'' # ds" "digit_text ds" using assms(1) by (auto simp: frac_text_def)
  then show ?thesis using scan_digits_complete [of ds r] assms(2) by (auto simp: scan_fraction_def)
qed (use assms(2) in \<open>auto simp: scan_fraction_def split: list.splits\<close>)

lemma scan_exponent_sound: "scan_exponent s = Some (t, r) \<Longrightarrow> s = t @ r \<and> exp_text t"
  by (auto simp: scan_exponent_def exp_text_def split: list.splits if_splits dest!: scan_digits_sound)

lemma scan_exponent_complete:
  assumes "exp_text t" and "number_ends r"
  shows "scan_exponent (t @ r) = Some (t, r)"
proof (cases "t = []")
  case True
  then show ?thesis using assms(2) by (auto simp: scan_exponent_def number_ends_def split: list.splits)
next
  case False
  with assms(1) obtain mark ds where t: "mark = CHR ''e'' \<or> mark = CHR ''E''" "digit_text ds"
    "t = mark # ds \<or> t = mark # CHR ''+'' # ds \<or> t = mark # CHR ''-'' # ds" by (auto simp: exp_text_def)
  then obtain c cs where ds: "ds = c # cs" "is_digit c" by (cases ds) (auto simp: digit_text_def)
  then have "c \<noteq> CHR ''+''" "c \<noteq> CHR ''-''" using not_digit_sign by auto
  moreover have "scan_digits (ds @ r) = Some (ds, r)"
    using assms(2) t(2) by (intro scan_digits_complete) (auto simp: number_ends_def)
  ultimately show ?thesis using t ds by (auto simp: scan_exponent_def)
qed

lemma scan_number_sound:
  assumes "scan_number s = Some (t, r)"
  shows "s = t @ r \<and> number_text t"
proof -
  obtain sign s1 where split: "(case s of c # cs \<Rightarrow> if c = CHR ''-'' then ([c], cs) else ([], s) | [] \<Rightarrow> ([], s)) = (sign, s1)"
    by (rule prod.exhaust)
  then have sign: "s = sign @ s1" "sign = [] \<or> sign = ''-''" by (auto split: list.splits if_splits)
  from assms obtain i s2 f s3 e where parts: "scan_integer s1 = Some (i, s2)" "scan_fraction s2 = Some (f, s3)"
    "scan_exponent s3 = Some (e, r)" and t: "t = sign @ i @ f @ e"
    unfolding scan_number_def split by (auto split: option.splits)
  note texts = scan_integer_sound [OF parts(1)] scan_fraction_sound [OF parts(2)] scan_exponent_sound [OF parts(3)]
  from texts sign(2) t have "number_text t" unfolding number_text_def by blast
  with texts sign(1) t show ?thesis by simp
qed

lemma int_text_hd: "int_text i \<Longrightarrow> i \<noteq> [] \<and> is_digit (hd i)"
  by (cases i) (auto simp: int_text_def digit_text_def is_digit_def byte_between_def)

lemma scan_number_complete:
  assumes "number_text t" and "number_ends r"
  shows "scan_number (t @ r) = Some (t, r)"
proof -
  from assms(1) obtain sign i f e where t: "t = sign @ i @ f @ e" "sign = [] \<or> sign = ''-''" "int_text i" "frac_text f" "exp_text e"
    by (auto simp: number_text_def)
  have dot: "\<not> is_digit CHR ''.''" "\<not> is_digit CHR ''e''" "\<not> is_digit CHR ''E''"
    by (simp_all add: is_digit_def byte_between_def)
  have r: "r = [] \<or> \<not> is_digit (hd r) \<and> hd r \<noteq> CHR ''.''" using assms(2) by (auto simp: number_ends_def)
  then have er: "e @ r = [] \<or> \<not> is_digit (hd (e @ r)) \<and> hd (e @ r) \<noteq> CHR ''.''"
    using t(5) dot by (auto simp: exp_text_def)
  then have "f @ e @ r = [] \<or> \<not> is_digit (hd (f @ e @ r))"
    using t(4) dot by (auto simp: frac_text_def)
  then have "scan_integer (i @ f @ e @ r) = Some (i, f @ e @ r)" by (rule scan_integer_complete [OF t(3)])
  moreover have "scan_fraction (f @ e @ r) = Some (f, e @ r)" using t(4) er by (rule scan_fraction_complete)
  moreover have "scan_exponent (e @ r) = Some (e, r)" using t(5) assms(2) by (rule scan_exponent_complete)
  moreover obtain c cs where "i = c # cs" "c \<noteq> CHR ''-''"
    using int_text_hd [OF t(3)] not_digit_sign by (cases i) auto
  ultimately show ?thesis using t(1,2) by (auto simp: scan_number_def)
qed

section \<open>Soundness\<close>

text \<open>What was read is a text of the grammar, behind white space.\<close>

definition reads_text :: "('a \<Rightarrow> string \<Rightarrow> bool) \<Rightarrow> string \<Rightarrow> 'a \<Rightarrow> string \<Rightarrow> bool" where
  "reads_text text s x r \<longleftrightarrow> (\<exists>w t. blank w \<and> text x t \<and> s = w @ t @ r)"

lemma scan_word_sound: "scan_word w v s = Some (x, r) \<Longrightarrow> x = v \<and> s = w @ r"
  by (auto simp: scan_word_def split: if_splits) (metis append_take_drop_id)

lemma scalar_sound:
  assumes "parse_value (Suc n) d s = Some (v, r)" and s: "skip_ws s = c # cs" and "c \<noteq> CHR ''{''" "c \<noteq> CHR ''[''"
  shows "\<exists>t. value_text d v t \<and> c # cs = t @ r"
proof -
  consider (str) t where "c = CHR 0x22" "scan_string cs = Some (t, r)" "v = JString t"
    | (tr) "scan_word ''true'' (JBool True) (c # cs) = Some (v, r)"
    | (fa) "scan_word ''false'' (JBool False) (c # cs) = Some (v, r)"
    | (nu) "scan_word ''null'' JNull (c # cs) = Some (v, r)"
    | (num) t where "scan_number (c # cs) = Some (t, r)" "v = JNumber t"
    using assms by (auto split: if_splits)
  then show ?thesis
  proof cases
    case str
    with scan_string_sound [OF str(2)] show ?thesis using string_text [of t d] by auto
  next
    case num
    with scan_number_sound [OF num(1)] show ?thesis using number [of t d] by auto
  next
    case tr
    then show ?thesis using scan_word_sound true_text by metis
  next
    case fa
    then show ?thesis using scan_word_sound false_text by metis
  next
    case nu
    then show ?thesis using scan_word_sound null_text by metis
  qed
qed

lemma object_sound:
  assumes members: "\<And>cs ms r. parse_members n k cs = Some (ms, r) \<Longrightarrow> \<exists>t. members_text k ms t \<and> cs = t @ CHR ''}'' # r"
    and read: "parse_value (Suc n) (Suc k) s = Some (v, r)" and s: "skip_ws s = CHR ''{'' # cs"
  shows "\<exists>t. value_text (Suc k) v t \<and> CHR ''{'' # cs = t @ r"
proof -
  from read s obtain x y where x: "skip_ws cs = x # y" by (auto split: list.splits)
  obtain w where w: "blank w" "cs = w @ x # y" using skip_ws_split [of cs] x by auto
  show ?thesis
  proof (cases "x = CHR ''}''")
    case True
    with read s x have "v = JObject []" "r = y" by auto
    with w True show ?thesis using empty_object [OF w(1), of k] by auto
  next
    case False
    with read s x obtain ms where ms: "parse_members n k cs = Some (ms, r)" "v = JObject ms" by auto
    from members [OF ms(1)] obtain t where "members_text k ms t" "cs = t @ CHR ''}'' # r" by blast
    then show ?thesis using object [of k ms t] ms(2) by auto
  qed
qed

lemma array_sound:
  assumes elements: "\<And>cs vs r. parse_elements n k cs = Some (vs, r) \<Longrightarrow> \<exists>t. elements_text k vs t \<and> cs = t @ CHR '']'' # r"
    and read: "parse_value (Suc n) (Suc k) s = Some (v, r)" and s: "skip_ws s = CHR ''['' # cs"
  shows "\<exists>t. value_text (Suc k) v t \<and> CHR ''['' # cs = t @ r"
proof -
  from read s obtain x y where x: "skip_ws cs = x # y" by (auto split: list.splits)
  obtain w where w: "blank w" "cs = w @ x # y" using skip_ws_split [of cs] x by auto
  show ?thesis
  proof (cases "x = CHR '']''")
    case True
    with read s x have "v = JArray []" "r = y" by auto
    with w True show ?thesis using empty_array [OF w(1), of k] by auto
  next
    case False
    with read s x obtain vs where vs: "parse_elements n k cs = Some (vs, r)" "v = JArray vs" by auto
    from elements [OF vs(1)] obtain t where "elements_text k vs t" "cs = t @ CHR '']'' # r" by blast
    then show ?thesis using array [of k vs t] vs(2) by auto
  qed
qed

lemma value_sound:
  assumes "\<And>d cs ms r. parse_members n d cs = Some (ms, r) \<Longrightarrow> \<exists>t. members_text d ms t \<and> cs = t @ CHR ''}'' # r"
    and "\<And>d cs vs r. parse_elements n d cs = Some (vs, r) \<Longrightarrow> \<exists>t. elements_text d vs t \<and> cs = t @ CHR '']'' # r"
    and read: "parse_value (Suc n) d s = Some (v, r)"
  shows "reads_text (value_text d) s v r"
proof -
  from read obtain c cs where s: "skip_ws s = c # cs" by (auto split: list.splits)
  have "\<exists>t. value_text d v t \<and> c # cs = t @ r"
  proof (cases "c = CHR ''{'' \<or> c = CHR ''[''")
    case True
    with read s obtain k where d: "d = Suc k" by (cases d) auto
    with True object_sound [OF assms(1) read [unfolded d]] array_sound [OF assms(2) read [unfolded d]] s
    show ?thesis by blast
  next
    case False
    then show ?thesis using scalar_sound [OF read s] by blast
  qed
  moreover obtain w where "blank w" "s = w @ c # cs" using skip_ws_split [of s] s by auto
  ultimately show ?thesis unfolding reads_text_def by metis
qed

lemma elements_sound:
  assumes item: "\<And>d s v r. parse_value n d s = Some (v, r) \<Longrightarrow> reads_text (value_text d) s v r"
    and rest: "\<And>d cs vs r. parse_elements n d cs = Some (vs, r) \<Longrightarrow> \<exists>t. elements_text d vs t \<and> cs = t @ CHR '']'' # r"
    and read: "parse_elements (Suc n) d s = Some (vs, r)"
  shows "\<exists>t. elements_text d vs t \<and> s = t @ CHR '']'' # r"
proof -
  from read obtain v1 r1 c cs where v1: "parse_value n d s = Some (v1, r1)" and r1: "skip_ws r1 = c # cs"
    by (auto split: option.splits list.splits)
  obtain a t where t: "blank a" "value_text d v1 t" "s = a @ t @ r1" using item [OF v1] by (auto simp: reads_text_def)
  obtain b where b: "blank b" "r1 = b @ c # cs" using skip_ws_split [of r1] r1 by auto
  show ?thesis
  proof (cases "c = CHR '',''")
    case True
    with read v1 r1 obtain vs1 where vs: "parse_elements n d cs = Some (vs1, r)" "vs = v1 # vs1" by auto
    from rest [OF vs(1)] obtain u where "elements_text d vs1 u" "cs = u @ CHR '']'' # r" by blast
    then show ?thesis using more_elements [OF t(1,2) b(1), of vs1 u] vs(2) t(3) b(2) True by auto
  next
    case False
    with read v1 r1 have "c = CHR '']''" "vs = [v1]" "r = cs" by (auto split: if_splits)
    then show ?thesis using one_element [OF t(1,2) b(1)] t(3) b(2) by auto
  qed
qed

lemma members_sound:
  assumes item: "\<And>d s v r. parse_value n d s = Some (v, r) \<Longrightarrow> reads_text (value_text d) s v r"
    and rest: "\<And>d cs ms r. parse_members n d cs = Some (ms, r) \<Longrightarrow> \<exists>t. members_text d ms t \<and> cs = t @ CHR ''}'' # r"
    and read: "parse_members (Suc n) d s = Some (ms, r)"
  shows "\<exists>t. members_text d ms t \<and> s = t @ CHR ''}'' # r"
proof -
  from read obtain qs k r0 xs v1 r2 c cs where
    s: "skip_ws s = CHR 0x22 # qs" and k: "scan_string qs = Some (k, r0)" and r0: "skip_ws r0 = CHR '':'' # xs"
    and v1: "parse_value n d xs = Some (v1, r2)" and r2: "skip_ws r2 = c # cs"
    by (auto split: option.splits list.splits if_splits)
  obtain a where a: "blank a" "s = a @ CHR 0x22 # qs" using skip_ws_split [of s] s by auto
  have key: "qs = k @ CHR 0x22 # r0" "string_body k" using scan_string_sound [OF k] by auto
  obtain b where b: "blank b" "r0 = b @ CHR '':'' # xs" using skip_ws_split [of r0] r0 by auto
  obtain a' t where t: "blank a'" "value_text d v1 t" "xs = a' @ t @ r2" using item [OF v1] by (auto simp: reads_text_def)
  obtain b' where b': "blank b'" "r2 = b' @ c # cs" using skip_ws_split [of r2] r2 by auto
  show ?thesis
  proof (cases "c = CHR '',''")
    case True
    with read s k r0 v1 r2 obtain ms1 where ms: "parse_members n d cs = Some (ms1, r)" "ms = (k, v1) # ms1" by auto
    from rest [OF ms(1)] obtain u where "members_text d ms1 u" "cs = u @ CHR ''}'' # r" by blast
    then show ?thesis
      using more_members [OF a(1) key(2) b(1) t(1,2) b'(1), of ms1 u] ms(2) a(2) key(1) b(2) t(3) b'(2) True by auto
  next
    case False
    with read s k r0 v1 r2 have "c = CHR ''}''" "ms = [(k, v1)]" "r = cs" by (auto split: if_splits)
    then show ?thesis using one_member [OF a(1) key(2) b(1) t(1,2) b'(1)] a(2) key(1) b(2) t(3) b'(2) by auto
  qed
qed

lemma parse_sound:
  "(parse_value n d s = Some (v, r) \<longrightarrow> reads_text (value_text d) s v r)
   \<and> (parse_elements n d s = Some (vs, r) \<longrightarrow> (\<exists>t. elements_text d vs t \<and> s = t @ CHR '']'' # r))
   \<and> (parse_members n d s = Some (ms, r) \<longrightarrow> (\<exists>t. members_text d ms t \<and> s = t @ CHR ''}'' # r))"
proof (induction n arbitrary: d s v vs ms r)
  case (Suc n)
  have IH: "\<And>d s v r. parse_value n d s = Some (v, r) \<Longrightarrow> reads_text (value_text d) s v r"
    "\<And>d s vs r. parse_elements n d s = Some (vs, r) \<Longrightarrow> \<exists>t. elements_text d vs t \<and> s = t @ CHR '']'' # r"
    "\<And>d s ms r. parse_members n d s = Some (ms, r) \<Longrightarrow> \<exists>t. members_text d ms t \<and> s = t @ CHR ''}'' # r"
    using Suc.IH by blast+
  show ?case
    by (intro conjI impI value_sound [OF IH(3,2)] elements_sound [OF IH(1,2)] members_sound [OF IH(1,3)])
qed simp

section \<open>Completeness\<close>

text \<open>With enough fuel a text of the grammar is read.\<close>

definition reads_always :: "(nat \<Rightarrow> ('a \<times> string) option) \<Rightarrow> 'a \<Rightarrow> string \<Rightarrow> bool" where
  "reads_always read x r \<longleftrightarrow> (\<exists>N. \<forall>m \<ge> N. read m = Some (x, r))"

lemma accepts_Suc:
  assumes "\<And>m. N \<le> m \<Longrightarrow> read (Suc m) = Some (x, r)"
  shows "reads_always read x r"
  unfolding reads_always_def by (intro exI [of _ "Suc N"]) (metis Suc_le_D Suc_le_mono assms)

lemma accepts_two:
  assumes "reads_always f x r" and "reads_always g y u" and "\<And>m. f m = Some (x, r) \<Longrightarrow> g m = Some (y, u) \<Longrightarrow> read (Suc m) = Some (z, q)"
  shows "reads_always read z q"
proof -
  from assms(1,2) obtain M N where M: "\<And>m. M \<le> m \<Longrightarrow> f m = Some (x, r)" and N: "\<And>m. N \<le> m \<Longrightarrow> g m = Some (y, u)"
    by (auto simp: reads_always_def)
  show ?thesis by (rule accepts_Suc [of "max M N"]) (simp add: M N assms(3))
qed

lemma accepts_one:
  assumes "reads_always f x r" and "\<And>m. f m = Some (x, r) \<Longrightarrow> read (Suc m) = Some (z, q)"
  shows "reads_always read z q"
  using assms(1,1) assms(2) by (rule accepts_two)

lemma accepts_const: "(\<And>m. read (Suc m) = Some (x, r)) \<Longrightarrow> reads_always read x r"
  by (rule accepts_Suc)

lemma number_hd: "number_text t \<Longrightarrow> t \<noteq> [] \<and> (is_digit (hd t) \<or> hd t = CHR ''-'')"
  using int_text_hd by (auto simp: number_text_def)

lemma digit_not_space: "is_digit c \<Longrightarrow> \<not> json_space c \<and> c \<notin> {CHR '']'', CHR ''}'', CHR ''['', CHR ''{'', CHR 0x22, CHR ''t'', CHR ''f'', CHR ''n''}"
  by (auto simp: is_digit_def byte_between_def json_space_def)

lemma value_hd:
  assumes "value_text d v t"
  shows "\<exists>c cs. t = c # cs \<and> \<not> json_space c \<and> c \<noteq> CHR '']'' \<and> c \<noteq> CHR ''}''"
  using assms
proof cases
  case number
  then show ?thesis using number_hd [of t] digit_not_space [of "hd t"] by (cases t) (auto simp: json_space_def)
qed (simp_all add: json_space_def)

lemma value_skip: "value_text d v t \<Longrightarrow> blank w \<Longrightarrow> skip_ws (w @ t @ r) = t @ r"
  by (auto dest!: value_hd simp: skip_ws_append skip_ws_stop)

lemma elements_hd:
  assumes "elements_text d vs t"
  shows "\<exists>c cs. skip_ws (t @ r) = c # cs \<and> c \<noteq> CHR '']''"
  using assms
proof cases
  case (one_element a v t b)
  then show ?thesis using value_skip [OF one_element(4,3), of "b @ r"] value_hd [OF one_element(4)] by auto
next
  case (more_elements a v t b vs u)
  then show ?thesis using value_skip [OF more_elements(4,3), of "b @ '','' @ u @ r"] value_hd [OF more_elements(4)] by auto
qed

lemma members_hd:
  assumes "members_text d ms t"
  shows "\<exists>cs. skip_ws (t @ r) = CHR 0x22 # cs"
proof -
  from assms obtain a y where "blank a" "t = a @ CHR 0x22 # y" by cases auto
  then show ?thesis by (simp add: skip_ws_append skip_ws_stop json_space_def)
qed

lemma stops_ws: "blank b \<Longrightarrow> c \<in> {CHR '','', CHR '']'', CHR ''}''} \<Longrightarrow> number_ends (b @ c # r)"
  by (cases b) (auto simp: number_ends_def blank_def json_space_def is_digit_def byte_between_def)

lemma number_accepted:
  assumes "number_text t" and "number_ends r"
  shows "parse_value (Suc m) d (t @ r) = Some (JNumber t, r)"
proof -
  have "t \<noteq> []" using number_hd [OF assms(1)] by blast
  then obtain c cs where t: "t = c # cs" by (cases t) blast+
  have c: "is_digit c \<or> c = CHR ''-''" using number_hd [OF assms(1)] by (simp add: t)
  have "\<not> json_space c" "c \<notin> {CHR ''['', CHR ''{'', CHR 0x22, CHR ''t'', CHR ''f'', CHR ''n''}"
    using c digit_not_space [of c] unfolding json_space_def by fastforce+
  moreover have "scan_number (c # cs @ r) = Some (c # cs, r)" using scan_number_complete [OF assms] by (simp add: t)
  ultimately show ?thesis by (simp add: t skip_ws_stop)
qed

text \<open>White space before a value changes nothing.\<close>

lemma parse_value_ws: "blank w \<Longrightarrow> parse_value (Suc m) d (w @ s) = parse_value (Suc m) d s"
  by (simp only: parse_value.simps skip_ws_append)

lemma accepts_ws: "reads_always (\<lambda>m. parse_value m d s) v r \<Longrightarrow> blank w \<Longrightarrow> reads_always (\<lambda>m. parse_value m d (w @ s)) v r"
  unfolding reads_always_def by (metis Suc_le_D Suc_leD le_SucI parse_value_ws)

lemma array_accepted:
  assumes "elements_text d vs t" and "reads_always (\<lambda>m. parse_elements m d (t @ CHR '']'' # r)) vs r"
  shows "reads_always (\<lambda>m. parse_value m (Suc d) ((CHR ''['' # t @ '']'') @ r)) (JArray vs) r"
proof -
  from elements_hd [OF assms(1), of "CHR '']'' # r"] obtain c cs where
    "skip_ws (t @ CHR '']'' # r) = c # cs" "c \<noteq> CHR '']''" by blast
  moreover have "skip_ws (CHR ''['' # u) = CHR ''['' # u" for u by (simp add: skip_ws_def json_space_def)
  ultimately show ?thesis by (intro accepts_one [OF assms(2)]) simp
qed

lemma object_accepted:
  assumes "members_text d ms t" and "reads_always (\<lambda>m. parse_members m d (t @ CHR ''}'' # r)) ms r"
  shows "reads_always (\<lambda>m. parse_value m (Suc d) ((CHR ''{'' # t @ ''}'') @ r)) (JObject ms) r"
proof -
  from members_hd [OF assms(1), of "CHR ''}'' # r"] obtain cs where "skip_ws (t @ CHR ''}'' # r) = CHR 0x22 # cs" by blast
  moreover have "skip_ws (CHR ''{'' # u) = CHR ''{'' # u" for u by (simp add: skip_ws_def json_space_def)
  ultimately show ?thesis by (intro accepts_one [OF assms(2)]) simp
qed

lemma separators: "skip_ws (CHR '','' # s) = CHR '','' # s" "skip_ws (CHR '']'' # s) = CHR '']'' # s"
  "skip_ws (CHR ''}'' # s) = CHR ''}'' # s" "skip_ws (CHR '':'' # s) = CHR '':'' # s" "skip_ws (CHR 0x22 # s) = CHR 0x22 # s"
  by (simp_all add: skip_ws_def json_space_def)

lemma last_element_accepted:
  assumes "blank a" and "\<And>r. number_ends r \<Longrightarrow> reads_always (\<lambda>m. parse_value m d (t @ r)) v r" and "blank b"
  shows "reads_always (\<lambda>m. parse_elements m d ((a @ t @ b) @ CHR '']'' # r)) [v] r"
proof -
  have "reads_always (\<lambda>m. parse_value m d (a @ t @ b @ CHR '']'' # r)) v (b @ CHR '']'' # r)"
    using assms by (intro accepts_ws assms(2) stops_ws) simp_all
  then show ?thesis by (rule accepts_one) (simp add: skip_ws_append assms(3) separators)
qed

lemma element_accepted:
  assumes "blank a" and "\<And>r. number_ends r \<Longrightarrow> reads_always (\<lambda>m. parse_value m d (t @ r)) v r" and "blank b"
    and "reads_always (\<lambda>m. parse_elements m d (u @ CHR '']'' # r)) vs r"
  shows "reads_always (\<lambda>m. parse_elements m d ((a @ t @ b @ '','' @ u) @ CHR '']'' # r)) (v # vs) r"
proof -
  have "reads_always (\<lambda>m. parse_value m d (a @ t @ b @ CHR '','' # u @ CHR '']'' # r)) v (b @ CHR '','' # u @ CHR '']'' # r)"
    using assms by (intro accepts_ws assms(2) stops_ws) simp_all
  then show ?thesis using assms(4) by (rule accepts_two) (simp add: skip_ws_append assms(3) separators)
qed

lemma last_member_accepted:
  assumes "blank a" "string_body k" "blank b" "blank a'" and "\<And>r. number_ends r \<Longrightarrow> reads_always (\<lambda>m. parse_value m d (t @ r)) v r" and "blank b'"
  shows "reads_always (\<lambda>m. parse_members m d ((a @ CHR 0x22 # k @ CHR 0x22 # b @ CHR '':'' # a' @ t @ b') @ CHR ''}'' # r)) [(k, v)] r"
proof -
  have "reads_always (\<lambda>m. parse_value m d (a' @ t @ b' @ CHR ''}'' # r)) v (b' @ CHR ''}'' # r)"
    using assms by (intro accepts_ws assms(5) stops_ws) simp_all
  then show ?thesis
    by (rule accepts_one) (simp add: skip_ws_append assms(1,3,6) separators scan_string_complete [OF assms(2)])
qed

lemma member_accepted:
  assumes "blank a" "string_body k" "blank b" "blank a'" and "\<And>r. number_ends r \<Longrightarrow> reads_always (\<lambda>m. parse_value m d (t @ r)) v r" and "blank b'"
    and "reads_always (\<lambda>m. parse_members m d (u @ CHR ''}'' # r)) ms r"
  shows "reads_always (\<lambda>m. parse_members m d ((a @ CHR 0x22 # k @ CHR 0x22 # b @ CHR '':'' # a' @ t @ b' @ '','' @ u) @ CHR ''}'' # r))
    ((k, v) # ms) r"
proof -
  have "reads_always (\<lambda>m. parse_value m d (a' @ t @ b' @ CHR '','' # u @ CHR ''}'' # r)) v (b' @ CHR '','' # u @ CHR ''}'' # r)"
    using assms by (intro accepts_ws assms(5) stops_ws) simp_all
  then show ?thesis using assms(7)
    by (rule accepts_two) (simp add: skip_ws_append assms(1,3,6) separators scan_string_complete [OF assms(2)])
qed

lemma scalars_accepted:
  "parse_value (Suc m) d (''null'' @ r) = Some (JNull, r)" "parse_value (Suc m) d (''true'' @ r) = Some (JBool True, r)"
  "parse_value (Suc m) d (''false'' @ r) = Some (JBool False, r)"
  "string_body t \<Longrightarrow> parse_value (Suc m) d ((CHR 0x22 # t @ [CHR 0x22]) @ r) = Some (JString t, r)"
  "blank w \<Longrightarrow> parse_value (Suc m) (Suc d) ((CHR ''['' # w @ '']'') @ r) = Some (JArray [], r)"
  "blank w \<Longrightarrow> parse_value (Suc m) (Suc d) ((CHR ''{'' # w @ ''}'') @ r) = Some (JObject [], r)"
  by (simp_all add: skip_ws_stop skip_ws_append separators json_space_def scan_word_def scan_string_complete)

lemma parse_complete:
  "value_text d v t \<Longrightarrow> (\<And>r. number_ends r \<Longrightarrow> reads_always (\<lambda>m. parse_value m d (t @ r)) v r)"
  "elements_text d vs u \<Longrightarrow> (\<And>r. reads_always (\<lambda>m. parse_elements m d (u @ CHR '']'' # r)) vs r)"
  "members_text d ms y \<Longrightarrow> (\<And>r. reads_always (\<lambda>m. parse_members m d (y @ CHR ''}'' # r)) ms r)"
proof (induction rule: value_text_elements_text_members_text.inducts)
  case (number t d)
  then show ?case by (intro accepts_const number_accepted)
next
  case (array d vs t)
  show ?case by (rule array_accepted [OF array.hyps array.IH])
next
  case (object d ms t)
  show ?case by (rule object_accepted [OF object.hyps object.IH])
next
  case (one_element a d v t b)
  show ?case by (rule last_element_accepted [OF one_element.hyps(1) one_element.IH one_element.hyps(3)])
next
  case (more_elements a d v t b vs u)
  show ?case by (rule element_accepted [OF more_elements.hyps(1) more_elements.IH(1) more_elements.hyps(3) more_elements.IH(2)])
next
  case (one_member a k b a' d v t b')
  show ?case by (rule last_member_accepted [OF one_member.hyps(1-4) one_member.IH one_member.hyps(6)])
next
  case (more_members a k b a' d v t b' ms u)
  show ?case by (rule member_accepted [OF more_members.hyps(1-4) more_members.IH(1) more_members.hyps(6) more_members.IH(2)])
qed (rule accepts_const, simp only: scalars_accepted)+

section \<open>The reader and the grammar\<close>

text \<open>\<open>json_parse\<close> reads exactly the texts of the grammar, surrounded by white space, nested at most
  10000 levels deep.\<close>

definition json_text :: "json \<Rightarrow> string \<Rightarrow> bool" where
  "json_text v s \<longleftrightarrow> (\<exists>a t b. blank a \<and> value_text max_nesting v t \<and> blank b \<and> s = a @ t @ b)"

lemma json_parse_text: "json_parse s = Some v \<longleftrightarrow> json_text v s"
proof
  assume "json_parse s = Some v"
  then obtain n r where r: "parse_value n max_nesting s = Some (v, r)" "skip_ws r = []" by (auto simp: json_parse_iff)
  then obtain a t where "blank a" "value_text max_nesting v t" "s = a @ t @ r"
    using parse_sound [of n max_nesting s v r "[]" "[]"] by (auto simp: reads_text_def)
  moreover have "blank r" using skip_ws_split [of r] r(2) by auto
  ultimately show "json_text v s" by (auto simp: json_text_def)
next
  assume "json_text v s"
  then obtain a t b where s: "blank a" "value_text max_nesting v t" "blank b" "s = a @ t @ b" by (auto simp: json_text_def)
  have "number_ends b" using s(3) by (cases b) (auto simp: number_ends_def blank_def json_space_def is_digit_def byte_between_def)
  then have "reads_always (\<lambda>m. parse_value m max_nesting (a @ t @ b)) v b"
    using s by (intro accepts_ws parse_complete(1))
  moreover have "skip_ws b = []" using skip_ws_append [OF s(3), of "[]"] by (simp add: skip_ws_def)
  ultimately show "json_parse s = Some v" by (auto simp: json_parse_iff reads_always_def s(4))
qed

end
