(* ===== verification/Event.thy ===== *)
theory Event
  imports Identifier Regex JsonGrammar
begin

text \<open>
  Package \<open>event\<close> (envelope.go): the integration-event envelope, its validation and its
  JetStream subject.

  \<open>Validate\<close> returns the first violated rule in the order of the source. The lemmas give the
  exact set of accepted envelopes, the shape of the accepted names, and that the subject
  determines event type and version.
\<close>

section \<open>Data\<close>

record aggregate =
  agg_type :: string
  agg_id :: string

record envelope =
  env_id :: string
  env_type :: string
  env_version :: int
  occurred_at :: time
  occurred_offset :: int
  tenant_id :: "string option"
  env_aggregate :: aggregate
  correlation_id :: string
  causation_id :: string
  env_data :: string

section \<open>Patterns\<close>

definition name_start :: "(char \<times> char) list" where
  "name_start = [(CHR ''a'', CHR ''z'')]"

definition name_rest :: "(char \<times> char) list" where
  "name_rest = [(CHR ''a'', CHR ''z''), (CHR ''0'', CHR ''9''), (CHR ''_'', CHR ''_'')]"

definition segment_pattern :: rexp where
  "segment_pattern = RSeq (RClass name_start) (RStar (RClass name_rest))"

definition eventTypePattern :: rexp where
  "eventTypePattern =
     RSeq segment_pattern (RPlus (RSeq (RLit CHR ''.'') segment_pattern))"

definition aggregateTypePattern :: rexp where
  "aggregateTypePattern = segment_pattern"

section \<open>Validation\<close>

text \<open>The zero \<open>time.Time\<close>: January 1, year 1.\<close>

definition zero_time :: time where
  "zero_time = -62135596800 * 1000000000"

definition isJSONObject :: "string \<Rightarrow> bool" where
  "isJSONObject data =
     (let trimmed = TrimSpace data in
      if length trimmed < 2 \<or> trimmed ! 0 \<noteq> CHR ''{'' \<or> trimmed ! (length trimmed - 1) \<noteq> CHR ''}''
      then False
      else (case json_parse trimmed of Some (JObject _) \<Rightarrow> True | _ \<Rightarrow> False))"

definition identifier_fields :: "envelope \<Rightarrow> (string \<times> string) list" where
  "identifier_fields e =
     [(''id'', env_id e), (''aggregate.id'', agg_id (env_aggregate e)),
      (''correlation_id'', correlation_id e), (''causation_id'', causation_id e)]
     @ (case tenant_id e of None \<Rightarrow> [] | Some t \<Rightarrow> [(''tenant_id'', t)])"

definition Validate :: "envelope \<Rightarrow> go_error option" where
  "Validate e =
     (case find (\<lambda>(name, value). \<not> IsUUIDv7 value) (identifier_fields e) of
        Some (name, value) \<Rightarrow> Some (Errorf ''event %s must be a canonical UUIDv7'' [FStr name] None)
      | None \<Rightarrow>
          if \<not> MatchString eventTypePattern (env_type e) then
            Some (errorf ''event type must contain at least two lowercase dot-separated segments'')
          else if env_version e < 1 then Some (errorf ''event version must be positive'')
          else if occurred_at e = zero_time then Some (errorf ''event occurred_at must not be zero'')
          else if \<not> MatchString aggregateTypePattern (agg_type (env_aggregate e)) then
            Some (errorf ''event aggregate type must be lowercase snake case'')
          else if \<not> isJSONObject (env_data e) then
            Some (errorf ''event data must be a JSON object'')
          else None)"

definition Subject :: "envelope \<Rightarrow> string result" where
  "Subject e =
     (case Validate e of
        Some err \<Rightarrow> Inl err
      | None \<Rightarrow> Inr (''manoreck.events.'' @ env_type e @ ''.v'' @ Itoa (env_version e)))"

section \<open>Lemmas\<close>

definition name_segment :: "string \<Rightarrow> bool" where
  "name_segment s \<longleftrightarrow> s \<noteq> [] \<and> in_class name_start (hd s) \<and> (\<forall>c \<in> set (tl s). in_class name_rest c)"

fun dotted :: "string list \<Rightarrow> string" where
  "dotted [] = []"
| "dotted [s] = s"
| "dotted (s # ss) = s @ ''.'' @ dotted ss"

lemma segment_pattern_lang: "s \<in> lang segment_pattern \<longleftrightarrow> name_segment s"
  unfolding segment_pattern_def name_segment_def by (rule lang_class_then_class)

lemma concat_image_iff:
  "(\<exists>us. s = concat us \<and> set us \<subseteq> f ` A) \<longleftrightarrow> (\<exists>ss. s = concat (map f ss) \<and> set ss \<subseteq> A)"
proof
  assume "\<exists>us. s = concat us \<and> set us \<subseteq> f ` A"
  then obtain us where us: "s = concat us" "us \<in> lists (f ` A)" by blast
  then obtain ss where "us = map f ss" "ss \<in> lists A" by (auto simp: lists_image)
  with us(1) show "\<exists>ss. s = concat (map f ss) \<and> set ss \<subseteq> A" by blast
next
  assume "\<exists>ss. s = concat (map f ss) \<and> set ss \<subseteq> A"
  then obtain ss where "s = concat (map f ss)" "set ss \<subseteq> A" by blast
  then show "\<exists>us. s = concat us \<and> set us \<subseteq> f ` A"
    by (intro exI [of _ "map f ss"]) auto
qed

lemma dot_segments_lang:
  "s \<in> star_lang (lang (RSeq (RLit CHR ''.'') segment_pattern)) \<longleftrightarrow>
    (\<exists>ss. s = concat (map (Cons CHR ''.'') ss) \<and> set ss \<subseteq> Collect name_segment)"
proof -
  have "lang (RSeq (RLit CHR ''.'') segment_pattern) = Cons CHR ''.'' ` Collect name_segment"
    by (simp only: lang.simps lang_RLit segment_pattern_lang) auto
  then show ?thesis by (simp only: star_lang_concat concat_image_iff)
qed

lemma dotted_Cons: "ss \<noteq> [] \<Longrightarrow> dotted (s # ss) = s @ concat (map (Cons CHR ''.'') ss)"
proof (induction ss arbitrary: s)
  case (Cons t ss)
  then show ?case by (cases ss) simp_all
qed simp

lemma dot_plus_lang:
  "s \<in> lang (RPlus (RSeq (RLit CHR ''.'') segment_pattern)) \<longleftrightarrow>
    (\<exists>ss. ss \<noteq> [] \<and> s = concat (map (Cons CHR ''.'') ss) \<and> set ss \<subseteq> Collect name_segment)"
proof -
  have "s \<in> lang (RPlus (RSeq (RLit CHR ''.'') segment_pattern)) \<longleftrightarrow>
    (\<exists>t v. s = (CHR ''.'' # t) @ v \<and> name_segment t
      \<and> v \<in> star_lang (lang (RSeq (RLit CHR ''.'') segment_pattern)))"
  proof -
    have lit: "u \<in> lang (RSeq (RLit CHR ''.'') segment_pattern) \<longleftrightarrow>
        (\<exists>t. u = CHR ''.'' # t \<and> name_segment t)" for u
      by (simp only: RSeq_lang lang_RLit segment_pattern_lang) auto
    show ?thesis
      unfolding RPlus_def RSeq_lang [of s] lit lang.simps(6) by blast
  qed
  also have "\<dots> \<longleftrightarrow> (\<exists>t ss. s = concat (map (Cons CHR ''.'') (t # ss))
      \<and> set (t # ss) \<subseteq> Collect name_segment)"
    by (simp only: dot_segments_lang) auto
  also have "\<dots> \<longleftrightarrow> (\<exists>ss. ss \<noteq> [] \<and> s = concat (map (Cons CHR ''.'') ss)
      \<and> set ss \<subseteq> Collect name_segment)"
    by (metis list.distinct(1) list.exhaust)
  finally show ?thesis .
qed

lemma eventTypePattern_iff:
  "MatchString eventTypePattern s \<longleftrightarrow>
    (\<exists>ss. 2 \<le> length ss \<and> set ss \<subseteq> Collect name_segment \<and> s = dotted ss)"
proof -
  have "MatchString eventTypePattern s \<longleftrightarrow>
    (\<exists>t ss. name_segment t \<and> ss \<noteq> [] \<and> set ss \<subseteq> Collect name_segment
      \<and> s = t @ concat (map (Cons CHR ''.'') ss))"
    unfolding MatchString_lang eventTypePattern_def RSeq_lang segment_pattern_lang dot_plus_lang
    by blast
  also have "\<dots> \<longleftrightarrow> (\<exists>t ss. ss \<noteq> [] \<and> set (t # ss) \<subseteq> Collect name_segment \<and> s = dotted (t # ss))"
    by (intro iff_exI) (auto simp: dotted_Cons)
  also have "\<dots> \<longleftrightarrow> (\<exists>ss. 2 \<le> length ss \<and> set ss \<subseteq> Collect name_segment \<and> s = dotted ss)"
    (is "?l \<longleftrightarrow> ?r")
  proof
    assume ?l
    then obtain t ss where "ss \<noteq> []" "set (t # ss) \<subseteq> Collect name_segment" "s = dotted (t # ss)" by blast
    then show ?r by (intro exI [of _ "t # ss"]) (cases ss; simp)
  next
    assume ?r
    then obtain ss where ss: "2 \<le> length ss" "set ss \<subseteq> Collect name_segment" "s = dotted ss" by blast
    then obtain t ts where "ss = t # ts" by (cases ss) auto
    with ss show ?l by (intro exI [of _ t] exI [of _ ts]) auto
  qed
  finally show ?thesis .
qed

lemma aggregateTypePattern_iff: "MatchString aggregateTypePattern s \<longleftrightarrow> name_segment s"
  unfolding MatchString_lang aggregateTypePattern_def by (rule segment_pattern_lang)

lemma name_segment_chars: "name_segment s \<Longrightarrow> c \<in> set s \<Longrightarrow> in_class name_rest c"
  by (cases s) (auto simp: name_segment_def in_class_def name_start_def name_rest_def)

text \<open>The texts of JSON objects in the grammar, nested at most 10000 levels deep.\<close>

definition json_object_text :: "string \<Rightarrow> bool" where
  "json_object_text t \<longleftrightarrow> (\<exists>ms. value_text max_nesting (JObject ms) t)"

lemma object_text_braces:
  assumes "value_text d (JObject ms) t"
  shows "\<exists>u. t = CHR ''{'' # u @ ''}''"
  using assms by cases auto

lemma json_text_braces:
  assumes "json_text v s" and "hd s = CHR ''{''" and "last s = CHR ''}''"
  shows "value_text max_nesting v s"
proof -
  from assms(1) obtain a t b where s: "blank a" "value_text max_nesting v t" "blank b" "s = a @ t @ b" by (auto simp: json_text_def)
  have "\<not> json_space CHR ''{''" "\<not> json_space CHR ''}''" by (simp_all add: json_space_def)
  with s assms(2) have "a = []" by (cases a) (auto simp: blank_def)
  moreover from s assms(3) \<open>\<not> json_space CHR ''}''\<close> have "b = []"
    by (cases b rule: rev_cases) (auto simp: blank_def)
  ultimately show ?thesis using s by simp
qed

lemma isJSONObject_iff: "isJSONObject data \<longleftrightarrow> json_object_text (TrimSpace data)"
proof -
  let ?t = "TrimSpace data"
  have code: "isJSONObject data \<longleftrightarrow> (\<exists>ms. json_text (JObject ms) ?t) \<and> 2 \<le> length ?t \<and> hd ?t = CHR ''{'' \<and> last ?t = CHR ''}''"
    unfolding json_parse_text [symmetric]
    by (cases "?t = []") (auto simp: isJSONObject_def Let_def last_conv_nth hd_conv_nth not_less split: option.splits json.splits)
  show ?thesis
  proof
    assume "isJSONObject data"
    then show "json_object_text ?t" using code json_text_braces by (auto simp: json_object_text_def)
  next
    assume "json_object_text ?t"
    then obtain ms where ms: "value_text max_nesting (JObject ms) ?t" by (auto simp: json_object_text_def)
    then have "json_text (JObject ms) ?t"
      unfolding json_text_def by (intro exI [of _ "[]"] exI [of _ ?t]) (simp add: blank_def)
    with object_text_braces [OF ms] code show "isJSONObject data" by auto
  qed
qed

definition valid_envelope :: "envelope \<Rightarrow> bool" where
  "valid_envelope e \<longleftrightarrow>
     IsUUIDv7 (env_id e) \<and> IsUUIDv7 (agg_id (env_aggregate e)) \<and> IsUUIDv7 (correlation_id e)
     \<and> IsUUIDv7 (causation_id e) \<and> (\<forall>t. tenant_id e = Some t \<longrightarrow> IsUUIDv7 t)
     \<and> (\<exists>ss. 2 \<le> length ss \<and> set ss \<subseteq> Collect name_segment \<and> env_type e = dotted ss)
     \<and> 1 \<le> env_version e \<and> occurred_at e \<noteq> zero_time \<and> name_segment (agg_type (env_aggregate e))
     \<and> json_object_text (TrimSpace (env_data e))"

lemma identifier_fields_ok:
  "find (\<lambda>(name, value). \<not> IsUUIDv7 value) (identifier_fields e) = None \<longleftrightarrow>
     IsUUIDv7 (env_id e) \<and> IsUUIDv7 (agg_id (env_aggregate e)) \<and> IsUUIDv7 (correlation_id e)
     \<and> IsUUIDv7 (causation_id e) \<and> (\<forall>t. tenant_id e = Some t \<longrightarrow> IsUUIDv7 t)"
  by (auto simp: identifier_fields_def find_None_iff split: option.splits)

lemma Validate_None_iff: "Validate e = None \<longleftrightarrow> valid_envelope e"
  unfolding valid_envelope_def eventTypePattern_iff [symmetric] aggregateTypePattern_iff [symmetric] isJSONObject_iff [symmetric]
  using identifier_fields_ok [of e]
  by (auto simp: Validate_def split: option.splits if_splits prod.splits)

lemma Subject_ok_iff:
  "Subject e = Inr s \<longleftrightarrow>
    valid_envelope e \<and> s = ''manoreck.events.'' @ env_type e @ ''.v'' @ Itoa (env_version e)"
  using Validate_None_iff [of e] by (auto simp: Subject_def split: option.splits)

lemma split_last_dot:
  assumes "CHR ''.'' \<notin> set xs" "CHR ''.'' \<notin> set ys" "us @ CHR ''.'' # xs = vs @ CHR ''.'' # ys"
  shows "us = vs \<and> xs = ys"
proof -
  have "takeWhile (\<lambda>c. c \<noteq> CHR ''.'') (rev (us @ CHR ''.'' # xs)) = rev xs"
    using assms(1) by (simp add: takeWhile_append)
  moreover have "takeWhile (\<lambda>c. c \<noteq> CHR ''.'') (rev (vs @ CHR ''.'' # ys)) = rev ys"
    using assms(2) by (simp add: takeWhile_append)
  ultimately have "xs = ys" using assms(3) by simp
  with assms(3) show ?thesis by simp
qed

lemma nat_text_no_dot: "CHR ''.'' \<notin> set (nat_text n)"
  using nat_text_digits [of n] by (auto simp: list_all_iff is_digit_def byte_between_def)

lemma Subject_inj_aux:
  assumes "Subject e1 = Inr s" and "Subject e2 = Inr s"
  shows "env_type e1 = env_type e2 \<and> env_version e1 = env_version e2"
proof -
  from assms have pos: "1 \<le> env_version e1" "1 \<le> env_version e2"
    by (auto simp: Subject_ok_iff valid_envelope_def)
  have "env_type e1 @ CHR ''.'' # CHR ''v'' # nat_text (nat (env_version e1))
      = env_type e2 @ CHR ''.'' # CHR ''v'' # nat_text (nat (env_version e2))"
    using assms pos by (auto simp: Subject_ok_iff Itoa_def)
  then have "env_type e1 = env_type e2
      \<and> CHR ''v'' # nat_text (nat (env_version e1)) = CHR ''v'' # nat_text (nat (env_version e2))"
    by (rule split_last_dot [rotated 2]) (auto simp: nat_text_no_dot)
  with pos show ?thesis by (auto simp: nat_text_inj)
qed

section \<open>Properties\<close>


text \<open>
  The subject is a faithful routing key: two envelopes with the same subject have the same
  event type and the same schema version, although a type may itself contain segments such as
  \<open>v2\<close>.
\<close>

theorem Subject_injective:
  assumes "Subject e1 = Inr s" and "Subject e2 = Inr s"
  shows "env_type e1 = env_type e2 \<and> env_version e1 = env_version e2"
  using assms by (rule Subject_inj_aux)

definition probe_id :: "char \<Rightarrow> string" where
  "probe_id c = ''01991a4b-fa00-7000-8000-00000000000'' @ [c]"

definition probe_envelope :: envelope where
  "probe_envelope =
     \<lparr>env_id = probe_id CHR ''1'', env_type = ''infrastructure.probe'', env_version = 1,
      occurred_at = 1790251200000000000, occurred_offset = 0, tenant_id = None,
      env_aggregate = \<lparr>agg_type = ''infrastructure_probe'', agg_id = probe_id CHR ''2''\<rparr>,
      correlation_id = probe_id CHR ''3'', causation_id = probe_id CHR ''4'',
      env_data = ''{}''\<rparr>"

lemma probe_valid: "Validate probe_envelope = None"
  by code_simp

theorem Subject_injective_witness:
  "Subject probe_envelope = Inr ''manoreck.events.infrastructure.probe.v1''
   \<and> Subject (probe_envelope\<lparr>tenant_id := Some (probe_id CHR ''5'')\<rparr>) = Inr ''manoreck.events.infrastructure.probe.v1''
   \<and> env_type probe_envelope = env_type (probe_envelope\<lparr>tenant_id := Some (probe_id CHR ''5'')\<rparr>)
   \<and> env_version probe_envelope = env_version (probe_envelope\<lparr>tenant_id := Some (probe_id CHR ''5'')\<rparr>)"
proof -
  have 1: "Subject probe_envelope = Inr ''manoreck.events.infrastructure.probe.v1''"
    by code_simp
  have 2: "Subject (probe_envelope\<lparr>tenant_id := Some (probe_id CHR ''5'')\<rparr>)
      = Inr ''manoreck.events.infrastructure.probe.v1''"
    by code_simp
  show ?thesis
    using 1 2 Subject_injective [OF 1 2] by blast
qed

end
