(* ===== verification/GoTime.thy ===== *)
theory GoTime
  imports GoText
begin

text \<open>
  \<open>time.Time\<close> as JSON text: RFC 3339 with nanoseconds, trailing zeros removed, in the zone the value
  carries (\<open>MarshalJSON\<close>), and its reader (\<open>UnmarshalJSON\<close>, with the leniency of \<open>time.Parse\<close> that the
  library keeps: an hour of one digit, a comma in front of the fraction, offsets up to 24:60).

  An instant is in nanoseconds since the Unix epoch; the zone enters as its offset from UTC in
  seconds. The lemmas show that the date of a day number is valid and denotes that day, and that the reader inverts the writer.
\<close>

section \<open>The calendar\<close>

definition leap :: "int \<Rightarrow> bool" where
  "leap y \<longleftrightarrow> y mod 4 = 0 \<and> (y mod 100 \<noteq> 0 \<or> y mod 400 = 0)"

definition days_before_year :: "int \<Rightarrow> int" where
  "days_before_year y = 365 * (y - 1) + (y - 1) div 4 - (y - 1) div 100 + (y - 1) div 400"

definition month_lengths :: "bool \<Rightarrow> int list" where
  "month_lengths lp = [31, if lp then 29 else 28, 31, 30, 31, 30, 31, 31, 30, 31, 30, 31]"

definition year_length :: "bool \<Rightarrow> int" where
  "year_length lp = (if lp then 366 else 365)"

definition daysIn :: "int \<Rightarrow> int \<Rightarrow> int" where
  "daysIn m y = month_lengths (leap y) ! nat (m - 1)"

definition epoch_day :: int where
  "epoch_day = 719162"

definition days_of_date :: "int \<Rightarrow> int \<Rightarrow> int \<Rightarrow> int" where
  "days_of_date y m d = days_before_year y + sum_list (take (nat (m - 1)) (month_lengths (leap y))) + (d - 1) - epoch_day"

text \<open>Month and day, for the day of the year: skip the months that are over.\<close>

fun month_day :: "int list \<Rightarrow> int \<Rightarrow> int \<Rightarrow> int \<times> int" where
  "month_day [] m day = (m, day + 1)"
| "month_day (len # lens) m day = (if day < len then (m, day + 1) else month_day lens (m + 1) (day - len))"

text \<open>Year, month and day of a day number: cycles of 400, 100, 4 and 1 years are cut off in turn.\<close>

definition civil :: "int \<Rightarrow> int \<times> int \<times> int" where
  "civil days =
     (let d = days + epoch_day;
          n400 = d div 146097; d = d mod 146097;
          n100 = min 3 (d div 36524); d = d - 36524 * n100;
          n4 = d div 1461; d = d mod 1461;
          n1 = min 3 (d div 365); yday = d - 365 * n1;
          y = 400 * n400 + 100 * n100 + 4 * n4 + n1 + 1
      in (y, month_day (month_lengths (leap y)) 1 yday))"

definition valid_date :: "int \<Rightarrow> int \<Rightarrow> int \<Rightarrow> bool" where
  "valid_date y m d \<longleftrightarrow> 1 \<le> m \<and> m \<le> 12 \<and> 1 \<le> d \<and> d \<le> daysIn m y"

section \<open>The writer\<close>

text \<open>The last \<open>k\<close> decimal digits.\<close>

fun padded :: "nat \<Rightarrow> int \<Rightarrow> string" where
  "padded 0 n = []"
| "padded (Suc k) n = padded k (n div 10) @ [digit_char (nat (n mod 10))]"

definition drop_zeros :: "string \<Rightarrow> string" where
  "drop_zeros s = rev (dropWhile (\<lambda>c. c = CHR ''0'') (rev s))"

definition day_nanoseconds :: int where
  "day_nanoseconds = 86400 * Second"

definition zone_text :: "int \<Rightarrow> string" where
  "zone_text offset =
     (if offset = 0 then ''Z''
      else let zone = quot offset 60
           in (if zone < 0 then ''-'' else ''+'') @ padded 2 (\<bar>zone\<bar> div 60) @ '':'' @ padded 2 (\<bar>zone\<bar> mod 60))"

definition fraction_text :: "int \<Rightarrow> string" where
  "fraction_text nanos = (if nanos = 0 then [] else ''.'' @ drop_zeros (padded 9 nanos))"

definition clock_text :: "int \<Rightarrow> string" where
  "clock_text rest =
     (let secs = rest div Second
      in padded 2 (secs div 3600) @ '':'' @ padded 2 (secs div 60 mod 60) @ '':'' @ padded 2 (secs mod 60)
         @ fraction_text (rest mod Second))"

definition rfc3339_nano :: "time \<Rightarrow> int \<Rightarrow> string" where
  "rfc3339_nano t offset =
     (let local = t + offset * Second in
      case civil (local div day_nanoseconds) of (y, m, d) \<Rightarrow>
        padded 4 y @ ''-'' @ padded 2 m @ ''-'' @ padded 2 d @ ''T''
        @ clock_text (local mod day_nanoseconds) @ zone_text offset)"

definition local_year :: "time \<Rightarrow> int \<Rightarrow> int" where
  "local_year t offset = fst (civil ((t + offset * Second) div day_nanoseconds))"

definition MarshalText :: "time \<Rightarrow> int \<Rightarrow> string result" where
  "MarshalText t offset =
     (if local_year t offset < 0 \<or> local_year t offset > 9999 then Inl (errorf ''year outside of range [0,9999]'')
      else if \<bar>quot offset 60\<bar> div 60 \<ge> 24 then Inl (errorf ''timezone hour outside of range [0,23]'')
      else Inr (rfc3339_nano t offset))"

section \<open>The reader\<close>

fun two_digits :: "string \<Rightarrow> (int \<times> string) option" where
  "two_digits (a # b # s) =
     (if is_digit a \<and> is_digit b then Some (int (digits_value [a, b]), s) else None)"
| "two_digits s = None"

text \<open>\<open>getnum\<close> without a fixed width: one digit is enough.\<close>

definition hour_digits :: "string \<Rightarrow> (int \<times> string) option" where
  "hour_digits s =
     (case two_digits s of
        Some r \<Rightarrow> Some r
      | None \<Rightarrow> (case s of a # r \<Rightarrow> if is_digit a then Some (int (digit_value a), r) else None | [] \<Rightarrow> None))"

definition four_digits :: "string \<Rightarrow> (int \<times> string) option" where
  "four_digits s =
     (case two_digits s of
        None \<Rightarrow> None
      | Some (a, r) \<Rightarrow> map_option (\<lambda>(b, r). (100 * a + b, r)) (two_digits r))"

definition skip_char :: "char \<Rightarrow> string \<Rightarrow> string option" where
  "skip_char c s = (case s of x # r \<Rightarrow> if x = c then Some r else None | [] \<Rightarrow> None)"

definition fraction :: "string \<Rightarrow> int \<times> string" where
  "fraction s =
     (case s of
        p # c # r \<Rightarrow>
          if (p = CHR ''.'' \<or> p = CHR '','') \<and> is_digit c then
            (let ds = take 9 (takeWhile is_digit (c # r))
             in (int (digits_value ds) * 10 ^ (9 - length ds), dropWhile is_digit (c # r)))
          else (0, s)
      | _ \<Rightarrow> (0, s))"

definition zone_offset :: "string \<Rightarrow> (int \<times> string) option" where
  "zone_offset s =
     (case s of
        [] \<Rightarrow> None
      | c # r \<Rightarrow>
          if c = CHR ''Z'' then Some (0, r)
          else if c \<noteq> CHR ''+'' \<and> c \<noteq> CHR ''-'' then None
          else
            Option.bind (two_digits r) (\<lambda>(hr, r).
            Option.bind (skip_char CHR '':'' r) (\<lambda>r.
            Option.bind (two_digits r) (\<lambda>(mm, r).
              if hr > 24 \<or> mm > 60 then None
              else let seconds = (hr * 60 + mm) * 60
                   in Some (if c = CHR ''-'' then - seconds else seconds, r)))))"

definition date_part :: "string \<Rightarrow> ((int \<times> int \<times> int) \<times> string) option" where
  "date_part s =
     Option.bind (four_digits s) (\<lambda>(y, s).
     Option.bind (skip_char CHR ''-'' s) (\<lambda>s.
     Option.bind (two_digits s) (\<lambda>(m, s).
     Option.bind (skip_char CHR ''-'' s) (\<lambda>s.
     Option.bind (two_digits s) (\<lambda>(d, s).
       if valid_date y m d then Some ((y, m, d), s) else None)))))"

definition clock_part :: "string \<Rightarrow> (int \<times> string) option" where
  "clock_part s =
     Option.bind (hour_digits s) (\<lambda>(hr, s).
     Option.bind (skip_char CHR '':'' s) (\<lambda>s.
     Option.bind (two_digits s) (\<lambda>(mm, s).
     Option.bind (skip_char CHR '':'' s) (\<lambda>s.
     Option.bind (two_digits s) (\<lambda>(ss, s).
       if hr \<ge> 24 \<or> mm \<ge> 60 \<or> ss \<ge> 60 then None
       else case fraction s of (nanos, s) \<Rightarrow> Some ((hr * 3600 + mm * 60 + ss) * Second + nanos, s))))))"

definition parse_rfc3339 :: "string \<Rightarrow> (time \<times> int) option" where
  "parse_rfc3339 s =
     Option.bind (date_part s) (\<lambda>((y, m, d), s).
     Option.bind (skip_char CHR ''T'' s) (\<lambda>s.
     Option.bind (clock_part s) (\<lambda>(clock, s).
     Option.bind (zone_offset s) (\<lambda>(offset, s).
       if s \<noteq> [] then None
       else Some (days_of_date y m d * day_nanoseconds + clock - offset * Second, offset)))))"

section \<open>The calendar is exact\<close>

text \<open>The cycles of \<open>civil\<close>: the year it finds and the day within that year.\<close>

lemma multiple_iff:
  fixes y a b N :: int
  assumes "y = N * a + b" and "1 \<le> b" and "b \<le> N"
  shows "y mod N = 0 \<longleftrightarrow> b = N"
proof (cases "b = N")
  case False
  then have "y mod N = b" using assms by simp
  with False assms(2) show ?thesis by simp
qed (simp add: assms(1))

lemma cycles:
  fixes d :: int
  assumes "d1 = d mod 146097" and "n100 = min 3 (d1 div 36524)" and "d2 = d1 - 36524 * n100"
    and "d3 = d2 mod 1461" and "n1 = min 3 (d3 div 365)" and "yday = d3 - 365 * n1"
    and "y = 400 * (d div 146097) + 100 * n100 + 4 * (d2 div 1461) + n1 + 1"
  shows "d = days_before_year y + yday \<and> 0 \<le> yday \<and> yday < year_length (leap y)"
proof -
  define n400 n4 where "n400 = d div 146097" and "n4 = d2 div 1461"
  have d: "d = 146097 * n400 + d1" "0 \<le> d1" "d1 < 146097"
    using assms(1) by (simp_all add: n400_def)
  have n100: "0 \<le> n100" "n100 \<le> 3" "0 \<le> d2" "n100 < 3 \<Longrightarrow> d2 < 36524" "d2 < 36525"
    using assms(2,3) d(2,3) by (auto simp: min_def split: if_splits)
  have n4: "d2 = 1461 * n4 + d3" "0 \<le> d3" "d3 < 1461" using assms(4) by (simp_all add: n4_def)
  have n4b: "0 \<le> n4" "n4 \<le> 24" "n4 = 24 \<and> n100 < 3 \<Longrightarrow> d3 < 1460" using n4 n100 by linarith+
  have n1: "0 \<le> n1" "n1 \<le> 3" "0 \<le> yday" "n1 < 3 \<Longrightarrow> yday < 365" "yday < 366"
    using assms(5,6) n4(2,3) by (auto simp: min_def split: if_splits)
  have last: "n1 = 3 \<and> n4 = 24 \<and> n100 < 3 \<Longrightarrow> yday < 365" using n4b(3) assms(6) by linarith
  have y: "y - 1 = 400 * n400 + 100 * n100 + 4 * n4 + n1" using assms(7) by (simp add: n400_def n4_def)
  have quots: "(y - 1) div 4 = 100 * n400 + 25 * n100 + n4" "(y - 1) div 100 = 4 * n400 + n100" "(y - 1) div 400 = n400"
    using y n1(1,2) n4b(1,2) n100(1,2) by linarith+
  have "d = days_before_year y + yday"
    using d(1) assms(3,6) n4(1) y quots by (simp add: days_before_year_def)
  moreover have "leap y \<longleftrightarrow> n1 = 3 \<and> (n4 \<noteq> 24 \<or> n100 = 3)"
  proof -
    have "y mod 4 = 0 \<longleftrightarrow> n1 + 1 = 4"
      by (rule multiple_iff [where a = "100 * n400 + 25 * n100 + n4"]) (use y n1(1,2) in auto)
    then have "y mod 4 = 0 \<longleftrightarrow> n1 = 3" by linarith
    moreover have "y mod 100 = 0 \<longleftrightarrow> 4 * n4 + n1 + 1 = 100"
      by (rule multiple_iff [where a = "4 * n400 + n100"]) (use y n1(1,2) n4b(1,2) in auto)
    then have "y mod 100 = 0 \<longleftrightarrow> n1 = 3 \<and> n4 = 24" using n1(1,2) n4b(1,2) by linarith
    moreover have "y mod 400 = 0 \<longleftrightarrow> 100 * n100 + 4 * n4 + n1 + 1 = 400"
      by (rule multiple_iff [where a = n400]) (use y n1(1,2) n4b(1,2) n100(1,2) in auto)
    then have "y mod 400 = 0 \<longleftrightarrow> n1 = 3 \<and> n4 = 24 \<and> n100 = 3" using n1(1,2) n4b(1,2) n100(1,2) by linarith
    ultimately show ?thesis unfolding leap_def by (cases "n1 = 3"; cases "n4 = 24"; cases "n100 = 3") simp_all
  qed
  moreover have "n1 < 3 \<or> n1 = 3" "n100 < 3 \<or> n100 = 3" using n1(2) n100(2) by linarith+
  ultimately show ?thesis using n1 last by (auto simp: year_length_def)
qed


lemma month_day_exact:
  assumes "month_day lens m day = (m', d)" and "0 \<le> day" and "day < sum_list lens"
  shows "m \<le> m' \<and> m' < m + int (length lens) \<and> sum_list (take (nat (m' - m)) lens) + (d - 1) = day
    \<and> 1 \<le> d \<and> d \<le> lens ! nat (m' - m)"
  using assms
proof (induction lens arbitrary: m day)
  case (Cons len lens)
  show ?case
  proof (cases "day < len")
    case False
    with Cons.prems have "month_day lens (m + 1) (day - len) = (m', d)" "0 \<le> day - len" "day - len < sum_list lens" by simp_all
    note IH = Cons.IH [OF this]
    then have "nat (m' - m) = Suc (nat (m' - (m + 1)))" by linarith
    with IH show ?thesis by auto
  qed (use Cons.prems in auto)
qed simp

lemma sum_month_lengths: "sum_list (month_lengths lp) = year_length lp"
  by (simp add: month_lengths_def year_length_def)

theorem days_of_date_civil:
  assumes "civil n = (y, m, d)"
  shows "days_of_date y m d = n \<and> valid_date y m d"
proof -
  define k where "k = n + epoch_day"
  define d1 where "d1 = k mod 146097"
  define n100 where "n100 = min 3 (d1 div 36524)"
  define d2 where "d2 = d1 - 36524 * n100"
  define d3 where "d3 = d2 mod 1461"
  define n1 where "n1 = min 3 (d3 div 365)"
  define yday where "yday = d3 - 365 * n1"
  define y' where "y' = 400 * (k div 146097) + 100 * n100 + 4 * (d2 div 1461) + n1 + 1"
  note defs = k_def d1_def n100_def d2_def d3_def n1_def yday_def y'_def
  have "civil n = (y', month_day (month_lengths (leap y')) 1 yday)"
    unfolding civil_def Let_def defs by (rule refl)
  then have civil: "y = y'" "month_day (month_lengths (leap y')) 1 yday = (m, d)"
    using assms by (simp_all only: prod.inject)
  note c = cycles [OF d1_def n100_def d2_def d3_def n1_def yday_def y'_def]
  then have "0 \<le> yday" "yday < sum_list (month_lengths (leap y'))" by (simp_all add: sum_month_lengths)
  note md = month_day_exact [OF civil(2) this]
  then have "days_of_date y m d = days_before_year y + yday - epoch_day"
    unfolding days_of_date_def civil(1) by linarith
  also have "\<dots> = n" using c by (simp add: civil(1) k_def)
  finally show ?thesis using md by (simp add: valid_date_def daysIn_def civil(1) month_lengths_def)
qed

section \<open>The reader inverts the writer\<close>

lemma padded_digits: "list_all is_digit (padded k n)"
  by (induction k arbitrary: n) (simp_all add: is_digit_digit_char)

lemma length_padded: "length (padded k n) = k"
  by (induction k arbitrary: n) simp_all

lemma digits_value_snoc: "digits_value (s @ [c]) = 10 * digits_value s + digit_value c"
  by (simp add: digits_value_def)

lemma padded_value: "0 \<le> n \<Longrightarrow> int (digits_value (padded k n)) = n mod 10 ^ k"
proof (induction k arbitrary: n)
  case (Suc k)
  have "nat (n mod 10) < 10" by simp
  then show ?case using Suc.IH [of "n div 10"] Suc.prems
    by (simp add: digits_value_snoc digit_value_digit_char zmod_zmult2_eq)
qed (simp add: digits_value_def)

lemma two_digits_padded:
  assumes "0 \<le> n" and "n < 100"
  shows "two_digits (padded 2 n @ s) = Some (n, s)"
proof -
  obtain a b where ab: "padded 2 n = [a, b]" using length_padded [of 2 n] by (auto simp: length_Suc_conv numeral_2_eq_2)
  then have "is_digit a" "is_digit b" "int (digits_value [a, b]) = n"
    using padded_digits [of 2 n] padded_value [OF assms(1), of 2] assms by simp_all
  with ab show ?thesis by simp
qed

lemma four_digits_padded:
  assumes "0 \<le> n" and "n < 10000"
  shows "four_digits (padded 4 n @ s) = Some (n, s)"
proof -
  have "padded 4 n = padded 2 (n div 100) @ padded 2 n"
    by (simp add: numeral_eq_Suc zdiv_zmult2_eq [symmetric])
  moreover have "padded 2 n = padded 2 (n mod 100)"
    by (simp add: numeral_eq_Suc mod_mod_cancel) (simp add: zmod_zmult2_eq [of 10 n 10, simplified] numeral_eq_Suc)
  moreover have "two_digits (padded 2 (n div 100) @ u) = Some (n div 100, u)"
    "two_digits (padded 2 (n mod 100) @ u) = Some (n mod 100, u)" for u
    using assms by (simp_all add: two_digits_padded)
  ultimately show ?thesis by (simp add: four_digits_def)
qed

lemma drop_zeros_split: "\<exists>j. s = drop_zeros s @ replicate j CHR ''0''"
proof -
  have "\<forall>c \<in> set (takeWhile (\<lambda>c. c = CHR ''0'') (rev s)). c = CHR ''0''" by (auto dest: set_takeWhileD)
  then obtain j where "takeWhile (\<lambda>c. c = CHR ''0'') (rev s) = replicate j CHR ''0''"
    by (metis replicate_eqI)
  then have "rev s = replicate j CHR ''0'' @ rev (drop_zeros s)"
    by (metis drop_zeros_def rev_rev_ident takeWhile_dropWhile_id)
  then show ?thesis by (metis rev_append rev_replicate rev_rev_ident)
qed

lemma digits_value_zeros: "digits_value (s @ replicate j CHR ''0'') = digits_value s * 10 ^ j"
proof (induction j)
  case (Suc j)
  have "s @ replicate (Suc j) CHR ''0'' = (s @ replicate j CHR ''0'') @ ''0''" by (simp add: replicate_append_same)
  then show ?case using Suc by (simp add: digits_value_snoc digit_value_def del: append_assoc)
qed simp

definition stops_digits :: "string \<Rightarrow> bool" where
  "stops_digits r \<longleftrightarrow> r = [] \<or> \<not> is_digit (hd r) \<and> hd r \<noteq> CHR ''.'' \<and> hd r \<noteq> CHR '',''"

lemma digits_prefix:
  assumes "list_all is_digit ds" and "stops_digits r"
  shows "takeWhile is_digit (ds @ r) = ds" and "dropWhile is_digit (ds @ r) = r"
  using assms by (cases r; auto simp: stops_digits_def list_all_iff takeWhile_append dropWhile_append)+

lemma fraction_text_read:
  assumes "0 \<le> n" and "n < 10 ^ 9" and "stops_digits r"
  shows "fraction (fraction_text n @ r) = (n, r)"
proof (cases "n = 0")
  case True
  have "fraction r = (0, r)" using assms(3) by (auto simp: fraction_def stops_digits_def split: list.splits)
  with True show ?thesis by (simp add: fraction_text_def)
next
  case False
  obtain j where j: "padded 9 n = drop_zeros (padded 9 n) @ replicate j CHR ''0''" using drop_zeros_split by blast
  define ds where "ds = drop_zeros (padded 9 n)"
  have digits: "list_all is_digit ds" using padded_digits [of 9 n] j unfolding ds_def by (metis list_all_append)
  have len: "length ds + j = 9" using length_padded [of 9 n] j ds_def by (metis length_append length_replicate)
  have n: "int (digits_value ds) * 10 ^ j = n"
    using padded_value [OF assms(1), of 9] assms(1,2) digits_value_zeros [of ds j] j unfolding ds_def [symmetric]
    by (metis mod_pos_pos_trivial of_nat_mult of_nat_numeral of_nat_power)
  then have "ds \<noteq> []" using False by (auto simp: digits_value_def)
  then obtain c u where c: "ds = c # u" by (cases ds) auto
  have "fraction (CHR ''.'' # ds @ r) = (int (digits_value ds) * 10 ^ (9 - length ds), r)"
    using digits_prefix [OF digits assms(3)] digits len by (simp add: fraction_def c Let_def del: takeWhile.simps dropWhile.simps)
  moreover have "9 - length ds = j" using len by simp
  ultimately show ?thesis using False n by (simp add: fraction_text_def ds_def)
qed

lemma skip_char_same [simp]: "skip_char c (c # s) = Some s"
  by (simp add: skip_char_def)

lemma clock_part_digits:
  assumes "0 \<le> h" "h < 24" "0 \<le> m" "m < 60" "0 \<le> s" "s < 60" and "fraction u = (n, r)"
  shows "clock_part (padded 2 h @ CHR '':'' # padded 2 m @ CHR '':'' # padded 2 s @ u) = Some ((h * 3600 + m * 60 + s) * Second + n, r)"
  using assms by (simp add: clock_part_def hour_digits_def two_digits_padded)

lemma clock_text_read:
  assumes "0 \<le> rest" and "rest < day_nanoseconds" and "stops_digits r"
  shows "clock_part (clock_text rest @ r) = Some (rest, r)"
proof -
  define secs where "secs = rest div Second"
  have secs: "0 \<le> secs" "secs < 86400"
    using assms(1,2) by (simp_all add: secs_def day_nanoseconds_def Second_def)
  have frac: "fraction (fraction_text (rest mod Second) @ r) = (rest mod Second, r)"
    by (rule fraction_text_read) (use assms(3) in \<open>simp_all add: Second_def\<close>)
  have "secs div 3600 * 3600 + secs div 60 mod 60 * 60 + secs mod 60 = (secs div 60 div 60 * 60 + secs div 60 mod 60) * 60 + secs mod 60"
    by (simp add: zdiv_zmult2_eq [symmetric] algebra_simps)
  also have "\<dots> = secs" by (simp only: div_mult_mod_eq)
  finally have whole: "(secs div 3600 * 3600 + secs div 60 mod 60 * 60 + secs mod 60) * Second + rest mod Second = rest"
    by (simp add: secs_def)
  have "clock_part (padded 2 (secs div 3600) @ CHR '':'' # padded 2 (secs div 60 mod 60) @ CHR '':'' # padded 2 (secs mod 60)
      @ fraction_text (rest mod Second) @ r) = Some ((secs div 3600 * 3600 + secs div 60 mod 60 * 60 + secs mod 60) * Second + rest mod Second, r)"
    by (rule clock_part_digits [OF _ _ _ _ _ _ frac]) (use secs in simp_all)
  then show ?thesis unfolding whole clock_text_def Let_def secs_def [symmetric] by simp
qed

lemma zone_offset_digits:
  assumes "0 \<le> h" "h < 24" "0 \<le> m" "m < 60"
  shows "zone_offset (CHR ''+'' # padded 2 h @ CHR '':'' # padded 2 m) = Some ((h * 60 + m) * 60, [])"
    and "zone_offset (CHR ''-'' # padded 2 h @ CHR '':'' # padded 2 m) = Some (- ((h * 60 + m) * 60), [])"
  using assms two_digits_padded [of m "[]"] by (simp_all add: zone_offset_def two_digits_padded Let_def)

text \<open>The zone is written in minutes: the seconds of an offset are lost.\<close>

definition whole_minutes :: "int \<Rightarrow> int" where
  "whole_minutes offset = 60 * quot offset 60"

lemma whole_minutes_id: "offset mod 60 = 0 \<Longrightarrow> whole_minutes offset = offset"
proof -
  assume "offset mod 60 = 0"
  then obtain z where z: "offset = 60 * z" by (auto elim: dvdE simp: mod_eq_0_iff_dvd)
  then have "\<bar>offset\<bar> div 60 = \<bar>z\<bar>" by (simp add: abs_mult)
  then show ?thesis by (simp add: whole_minutes_def quot_def z sgn_mult sgn_mult_abs)
qed

lemma zone_text_read:
  assumes "\<bar>quot offset 60\<bar> div 60 < 24"
  shows "zone_offset (zone_text offset) = Some (whole_minutes offset, [])"
proof (cases "offset = 0")
  case False
  define z where "z = quot offset 60"
  have parts: "0 \<le> \<bar>z\<bar> div 60" "\<bar>z\<bar> div 60 < 24" "0 \<le> \<bar>z\<bar> mod 60" "\<bar>z\<bar> mod 60 < 60" using assms by (simp_all add: z_def)
  have whole: "(\<bar>z\<bar> div 60 * 60 + \<bar>z\<bar> mod 60) * 60 = \<bar>60 * z\<bar>" by (simp add: abs_mult)
  show ?thesis
    unfolding zone_text_def Let_def z_def [symmetric] whole_minutes_def
    using zone_offset_digits [OF parts, unfolded whole] False by (cases "z < 0") simp_all
qed (simp add: zone_text_def zone_offset_def whole_minutes_def quot_def)

lemma stops_digits_zone: "stops_digits (zone_text offset)"
  by (simp add: stops_digits_def zone_text_def Let_def is_digit_def byte_between_def)

theorem parse_MarshalText:
  assumes "MarshalText t offset = Inr s"
  shows "parse_rfc3339 s = Some (t + (offset - whole_minutes offset) * Second, whole_minutes offset)"
proof -
  define lt where "lt = t + offset * Second"
  have s: "s = rfc3339_nano t offset" and zone: "\<bar>quot offset 60\<bar> div 60 < 24"
    and year: "0 \<le> local_year t offset" "local_year t offset \<le> 9999"
    using assms by (auto simp: MarshalText_def split: if_splits)
  obtain y m d where date: "civil (lt div day_nanoseconds) = (y, m, d)" by (rule prod_cases3)
  have y: "0 \<le> y" "y < 10000" using year date by (simp_all add: local_year_def lt_def)
  note days = days_of_date_civil [OF date]
  then have md: "0 \<le> m" "m < 100" "0 \<le> d" "d < 100"
    by (auto simp: valid_date_def daysIn_def month_lengths_def nth_Cons' split: if_splits)
  have rest: "0 \<le> lt mod day_nanoseconds" "lt mod day_nanoseconds < day_nanoseconds"
    by (simp_all add: day_nanoseconds_def)
  have "lt div day_nanoseconds * day_nanoseconds + lt mod day_nanoseconds - whole_minutes offset * Second
      = t + (offset - whole_minutes offset) * Second"
    by (simp add: lt_def left_diff_distrib)
  then show ?thesis
    unfolding s rfc3339_nano_def Let_def lt_def [symmetric] date prod.case parse_rfc3339_def date_part_def
    using y md days clock_text_read [OF rest stops_digits_zone] zone_text_read [OF zone]
    by (simp add: four_digits_padded two_digits_padded)
qed

section \<open>Characters\<close>

text \<open>The bytes of a time text.\<close>

definition time_char :: "char \<Rightarrow> bool" where
  "time_char c \<longleftrightarrow> is_digit c \<or> c \<in> {CHR ''-'', CHR ''+'', CHR ''T'', CHR '':'', CHR ''.'', CHR ''Z''}"

lemma drop_zeros_subset: "set (drop_zeros s) \<subseteq> set s"
  unfolding drop_zeros_def using set_dropWhileD by fastforce

lemma padded_time: "c \<in> set (padded k n) \<Longrightarrow> time_char c"
  using padded_digits [of k n] by (auto simp: list_all_iff time_char_def)

lemma rfc3339_chars: "list_all time_char (rfc3339_nano t offset)"
proof -
  have frac: "list_all time_char (drop_zeros (padded k n))" for k n
    using drop_zeros_subset padded_time unfolding list_all_iff by blast
  have pad: "list_all time_char (padded k n)" for k n
    using padded_time by (simp add: list_all_iff)
  obtain y m d where "civil ((t + offset * Second) div day_nanoseconds) = (y, m, d)" by (rule prod_cases3)
  then show ?thesis
    by (simp add: rfc3339_nano_def clock_text_def fraction_text_def zone_text_def Let_def frac pad time_char_def
        del: padded.simps)
qed

end
