(* ===== verification/JsonEncode.thy ===== *)
theory JsonEncode
  imports JsonGrammar GoTime
begin

text \<open>
  The encoder of \<open>encoding/json\<close> for the values the repository marshals itself: strings with the
  escapes of \<open>json.Marshal\<close> (HTML-sensitive characters included), unsigned integers, times in UTC, and
  structs as objects.

  The lemmas show that every encoded struct is a text of the JSON grammar, whatever bytes its
  strings hold, with exactly the members written.
\<close>

section \<open>Strings\<close>

text \<open>The length of the UTF-8 encoding of a rune outside ASCII at the front of a text, with the
  ranges \<open>unicode/utf8\<close> accepts.\<close>

definition continuation :: "char \<Rightarrow> bool" where
  "continuation c \<longleftrightarrow> byte_between (CHR 0x80) (CHR 0xBF) c"

definition second_ok :: "char \<Rightarrow> char \<Rightarrow> bool" where
  "second_ok c x \<longleftrightarrow>
     (if c = CHR 0xE0 then byte_between (CHR 0xA0) (CHR 0xBF) x
      else if c = CHR 0xED then byte_between (CHR 0x80) (CHR 0x9F) x
      else if c = CHR 0xF0 then byte_between (CHR 0x90) (CHR 0xBF) x
      else if c = CHR 0xF4 then byte_between (CHR 0x80) (CHR 0x8F) x
      else continuation x)"

definition rune_length :: "string \<Rightarrow> nat option" where
  "rune_length s =
     (case s of
        c # x # r \<Rightarrow>
          if \<not> second_ok c x then None
          else if byte_between (CHR 0xC2) (CHR 0xDF) c then Some 2
          else if byte_between (CHR 0xE0) (CHR 0xEF) c then
            (case r of y # _ \<Rightarrow> if continuation y then Some 3 else None | [] \<Rightarrow> None)
          else if byte_between (CHR 0xF0) (CHR 0xF4) c then
            (case r of y # z # _ \<Rightarrow> if continuation y \<and> continuation z then Some 4 else None | _ \<Rightarrow> None)
          else None
      | _ \<Rightarrow> None)"

definition hex_digit :: "nat \<Rightarrow> char" where
  "hex_digit n = ''0123456789abcdef'' ! n"

definition backslash :: char where
  "backslash = CHR 0x5C"

text \<open>An ASCII byte as \<open>appendString\<close> writes it with HTML escaping on.\<close>

definition ascii_text :: "char \<Rightarrow> string" where
  "ascii_text c =
     (if c = CHR 0x5C \<or> c = CHR 0x22 then [backslash, c]
      else if c = CHR 0x08 then [backslash, CHR ''b'']
      else if c = CHR 0x0C then [backslash, CHR ''f'']
      else if c = CHR 0x0A then [backslash, CHR ''n'']
      else if c = CHR 0x0D then [backslash, CHR ''r'']
      else if c = CHR 0x09 then [backslash, CHR ''t'']
      else if (of_char c :: nat) < 0x20 \<or> c = CHR ''<'' \<or> c = CHR ''>'' \<or> c = CHR ''&'' then
        backslash # ''u00'' @ [hex_digit (of_char c div 16), hex_digit (of_char c mod 16)]
      else [c])"

lemma rune_length_pos: "rune_length s = Some n \<Longrightarrow> 1 < n \<and> n \<le> length s"
  by (auto simp: rune_length_def split: list.splits if_splits)

function appendString :: "string \<Rightarrow> string" where
  "appendString [] = []"
| "appendString (c # cs) =
     (if (of_char c :: nat) < 0x80 then ascii_text c @ appendString cs
      else (case rune_length (c # cs) of
              None \<Rightarrow> backslash # ''ufffd'' @ appendString cs
            | Some n \<Rightarrow>
                (let rune = take n (c # cs) in
                 (if rune = [CHR 0xE2, CHR 0x80, CHR 0xA8] then backslash # ''u2028''
                  else if rune = [CHR 0xE2, CHR 0x80, CHR 0xA9] then backslash # ''u2029''
                  else rune) @ appendString (drop n (c # cs)))))"
  by pat_completeness auto
termination
  by (relation "measure length") (auto dest: rune_length_pos)

declare appendString.simps(2) [simp del]

definition encode_string :: "string \<Rightarrow> string" where
  "encode_string s = CHR 0x22 # appendString s @ [CHR 0x22]"

section \<open>Objects\<close>

fun encode_members :: "(string \<times> string) list \<Rightarrow> string" where
  "encode_members [] = []"
| "encode_members [(k, t)] = encode_string k @ '':'' @ t"
| "encode_members ((k, t) # ms) = encode_string k @ '':'' @ t @ '','' @ encode_members ms"

definition encode_object :: "(string \<times> string) list \<Rightarrow> string" where
  "encode_object ms = ''{'' @ encode_members ms @ ''}''"

section \<open>Lemmas\<close>

lemma string_body_append: "string_body s \<Longrightarrow> string_body t \<Longrightarrow> string_body (s @ t)"
  by (induction rule: string_body.induct) (auto intro: string_body.intros)

lemma plain_body: "list_all plain_char s \<Longrightarrow> string_body s"
  by (induction s) (auto intro: string_body.intros)

lemma escape_body: "any_hex h1 \<Longrightarrow> any_hex h2 \<Longrightarrow> any_hex h3 \<Longrightarrow> any_hex h4 \<Longrightarrow>
    string_body (backslash # CHR ''u'' # [h1, h2, h3, h4])"
  using body_unicode [OF _ _ _ _ body_Nil] by (simp add: backslash_def)

lemma any_hex_digit: "n < 16 \<Longrightarrow> any_hex (hex_digit n)"
proof -
  have "list_all (\<lambda>n. any_hex (hex_digit n)) [0..<16]" by code_simp
  then show "n < 16 \<Longrightarrow> any_hex (hex_digit n)" by (simp add: list_all_iff)
qed

lemma char_nibbles: "(of_char c :: nat) div 16 < 16" "(of_char c :: nat) mod 16 < 16"
  using nat_of_char_less_256 [of c] by (simp_all add: less_mult_imp_div_less)

lemma ascii_body: "(of_char c :: nat) < 0x80 \<Longrightarrow> string_body (ascii_text c)"
proof -
  have zero: "any_hex CHR ''0''" by (simp add: any_hex_def is_digit_def byte_between_def)
  have control: "string_body (backslash # ''u00'' @ [hex_digit (of_char c div 16), hex_digit (of_char c mod 16)])"
    using escape_body [OF zero zero any_hex_digit any_hex_digit, of "of_char c div 16" "of_char c mod 16"] char_nibbles [of c]
    by simp
  have escape: "escape_char e \<Longrightarrow> string_body [backslash, e]" for e
    using body_escape [OF _ body_Nil] by (simp add: backslash_def)
  have "string_body [c]" if "c \<noteq> CHR 0x5C" "c \<noteq> CHR 0x22" "0x20 \<le> (of_char c :: nat)"
    using that by (intro plain_body) (simp add: plain_char_def)
  then show ?thesis
    using control escape by (simp add: ascii_text_def escape_char_def)
qed

lemma rune_plain:
  assumes "rune_length (c # cs) = Some n" and "0x80 \<le> (of_char c :: nat)"
  shows "list_all plain_char (take n (c # cs))"
proof -
  have high: "0x80 \<le> (of_char x :: nat) \<Longrightarrow> plain_char x" for x by (auto simp: plain_char_def)
  have "second_ok c x \<Longrightarrow> plain_char x" "continuation x \<Longrightarrow> plain_char x" for x
    by (auto simp: second_ok_def continuation_def byte_between_def split: if_splits intro!: high)
  with assms high [of c] show ?thesis
    by (auto simp: rune_length_def numeral_eq_Suc split: list.splits if_splits)
qed

lemma appendString_body: "string_body (appendString s)"
proof (induction s rule: appendString.induct)
  case (2 c cs)
  have hexes: "any_hex CHR ''f''" "any_hex CHR ''d''" "any_hex CHR ''2''" "any_hex CHR ''0''" "any_hex CHR ''8''" "any_hex CHR ''9''"
    by (simp_all add: any_hex_def is_digit_def byte_between_def)
  then have escapes: "string_body (backslash # ''ufffd'')" "string_body (backslash # ''u2028'')" "string_body (backslash # ''u2029'')"
    by (simp_all add: escape_body)
  show ?case
  proof (cases "(of_char c :: nat) < 0x80")
    case True
    then show ?thesis using "2.IH"(1) by (simp add: appendString.simps(2) string_body_append ascii_body)
  next
    case False
    show ?thesis
    proof (cases "rune_length (c # cs)")
      case None
      then show ?thesis
        using False "2.IH"(2) [OF False None] string_body_append [OF escapes(1)] by (simp add: appendString.simps(2))
    next
      case (Some n)
      have "string_body (take n (c # cs))" using plain_body rune_plain [OF Some] False by simp
      with "2.IH"(3) [OF False Some refl] escapes have "string_body
        ((if take n (c # cs) = [CHR 0xE2, CHR 0x80, CHR 0xA8] then backslash # ''u2028''
          else if take n (c # cs) = [CHR 0xE2, CHR 0x80, CHR 0xA9] then backslash # ''u2029'' else take n (c # cs))
         @ appendString (drop n (c # cs)))"
        by (intro string_body_append) simp_all
      then show ?thesis using False Some by (simp add: appendString.simps(2) Let_def)
    qed
  qed
qed (simp add: body_Nil)

text \<open>Characters the encoder copies and the decoder reads back.\<close>

definition simple_char :: "char \<Rightarrow> bool" where
  "simple_char c \<longleftrightarrow> (of_char c :: nat) < 0x80 \<and> c \<noteq> CHR 0x5C \<and> ascii_text c = [c]"

lemma simple_appendString: "list_all simple_char s \<Longrightarrow> appendString s = s"
  by (induction s) (simp_all add: appendString.simps(2) simple_char_def)

lemma time_char_plain: "time_char c \<Longrightarrow> plain_char c"
  by (auto simp: time_char_def plain_char_def is_digit_def byte_between_def)

lemma time_value: "value_text d (JString (rfc3339_nano t offset)) (CHR 0x22 # rfc3339_nano t offset @ [CHR 0x22])"
  using rfc3339_chars [of t offset] by (intro string_text plain_body) (auto simp: list_all_iff time_char_plain)

lemma encode_string_text: "value_text d (JString (appendString s)) (encode_string s)"
  unfolding encode_string_def by (rule string_text) (rule appendString_body)

lemma Itoa_number: "0 \<le> n \<Longrightarrow> value_text d (JNumber (Itoa n)) (Itoa n)"
proof (rule number)
  assume "0 \<le> n"
  have "int_text (nat_text k)" for k
  proof (cases "k = 0")
    case True
    then show ?thesis by (subst nat_text.simps) (simp add: int_text_def digit_char_def)
  next
    case False
    then show ?thesis using nat_text_hd [of k] nat_text_digits [of k] by (simp add: int_text_def digit_text_def)
  qed
  then have "number_text (nat_text k)" for k
    unfolding number_text_def by (intro exI [of _ "[]"] exI [of _ "nat_text k"]) (simp add: frac_text_def exp_text_def)
  then show "number_text (Itoa n)" using \<open>0 \<le> n\<close> by (simp add: Itoa_def)
qed

text \<open>Members with their encoded values: \<open>(key, value, text)\<close>.\<close>

lemma encode_members_text:
  assumes "ms \<noteq> []" and "\<And>k v t. (k, v, t) \<in> set ms \<Longrightarrow> value_text d v t"
  shows "members_text d (map (\<lambda>(k, v, t). (appendString k, v)) ms) (encode_members (map (\<lambda>(k, v, t). (k, t)) ms))"
  using assms
proof (induction ms rule: induct_list012)
  case (2 m)
  obtain k v t where m: "m = (k, v, t)" by (rule prod_cases3)
  then have "value_text d v t" using "2.prems" by auto
  from one_member [OF _ appendString_body [of k] _ _ this, of "[]" "[]" "[]" "[]"] show ?case
    by (simp add: m encode_string_def blank_def)
next
  case (3 m m' ms)
  obtain k v t where m: "m = (k, v, t)" by (rule prod_cases3)
  obtain k' v' t' where m': "m' = (k', v', t')" by (rule prod_cases3)
  have "value_text d v t" using "3.prems"(2) m by auto
  moreover have "members_text d (map (\<lambda>(k, v, t). (appendString k, v)) (m' # ms)) (encode_members (map (\<lambda>(k, v, t). (k, t)) (m' # ms)))"
    using "3.prems"(2) by (intro "3.IH"(2)) auto
  ultimately show ?case
    using more_members [OF _ appendString_body [of k] _ _ _, of "[]" "[]" "[]" d v t "[]"]
    by (simp add: m m' encode_string_def blank_def)
qed simp

lemma encode_object_parsed:
  assumes "ms \<noteq> []" and "\<And>k v t. (k, v, t) \<in> set ms \<Longrightarrow> value_text 9999 v t"
  shows "json_parse (encode_object (map (\<lambda>(k, v, t). (k, t)) ms)) = Some (JObject (map (\<lambda>(k, v, t). (appendString k, v)) ms))"
proof -
  have "max_nesting = Suc 9999" by (simp add: max_nesting_def)
  then have "value_text max_nesting (JObject (map (\<lambda>(k, v, t). (appendString k, v)) ms))
      (encode_object (map (\<lambda>(k, v, t). (k, t)) ms))"
    using object [OF encode_members_text [OF assms]] by (simp add: encode_object_def)
  then show ?thesis
    unfolding json_parse_text json_text_def
    by (intro exI [of _ "[]"] exI [of _ "encode_object (map (\<lambda>(k, v, t). (k, t)) ms)"]) (simp add: blank_def)
qed

end
