(* ===== verification/JsonDecode.thy ===== *)
theory JsonDecode
  imports JsonEncode
begin

text \<open>
  The decoder of \<open>encoding/json\<close> as far as \<open>json.Unmarshal\<close> into the repository's structs uses it:
  the value of a string token (escapes, surrogate pairs, replacement of invalid UTF-8), the members
  of an object with the raw text of their values (what a \<open>json.RawMessage\<close> receives), the match of
  member names, and \<open>compact\<close>, which the encoder applies to a raw message.

  The lemmas show that decoding inverts the encoding of strings, that the members read are those
  of the grammar, and that compacting a text keeps its value.
\<close>

section \<open>Strings\<close>

definition utf8_encode :: "nat \<Rightarrow> string" where
  "utf8_encode r =
     (if r < 0x80 then [char_of r]
      else if r < 0x800 then [char_of (0xC0 + r div 0x40), char_of (0x80 + r mod 0x40)]
      else if r < 0x10000 then
        [char_of (0xE0 + r div 0x1000), char_of (0x80 + r div 0x40 mod 0x40), char_of (0x80 + r mod 0x40)]
      else
        [char_of (0xF0 + r div 0x40000), char_of (0x80 + r div 0x1000 mod 0x40),
         char_of (0x80 + r div 0x40 mod 0x40), char_of (0x80 + r mod 0x40)])"

definition replacement :: string where
  "replacement = [CHR 0xEF, CHR 0xBF, CHR 0xBD]"

definition xdigit_value :: "char \<Rightarrow> nat" where
  "xdigit_value c =
     (if is_digit c then of_char c - 48
      else if byte_between CHR ''a'' CHR ''f'' c then of_char c - 87
      else of_char c - 55)"

text \<open>\<open>getu4\<close>: the code unit of \<open>\uXXXX\<close> at the front of a text.\<close>

definition getu4 :: "string \<Rightarrow> (nat \<times> string) option" where
  "getu4 s =
     (case s of
        b # u # h1 # h2 # h3 # h4 # r \<Rightarrow>
          if b = CHR 0x5C \<and> u = CHR ''u'' \<and> any_hex h1 \<and> any_hex h2 \<and> any_hex h3 \<and> any_hex h4
          then Some (xdigit_value h1 * 4096 + xdigit_value h2 * 256 + xdigit_value h3 * 16 + xdigit_value h4, r)
          else None
      | _ \<Rightarrow> None)"

definition unescape :: "char \<Rightarrow> char" where
  "unescape e =
     (if e = CHR ''b'' then CHR 0x08 else if e = CHR ''f'' then CHR 0x0C else if e = CHR ''n'' then CHR 0x0A
      else if e = CHR ''r'' then CHR 0x0D else if e = CHR ''t'' then CHR 0x09 else e)"

text \<open>A code unit and the text after it: a surrogate needs its partner, anything else is replaced.\<close>

definition code_unit :: "nat \<Rightarrow> string \<Rightarrow> string \<times> string" where
  "code_unit u r =
     (if u < 0xD800 \<or> 0xE000 \<le> u then (utf8_encode u, r)
      else case getu4 r of
             Some (u', r') \<Rightarrow>
               if u < 0xDC00 \<and> 0xDC00 \<le> u' \<and> u' < 0xE000
               then (utf8_encode ((u - 0xD800) * 0x400 + (u' - 0xDC00) + 0x10000), r')
               else (replacement, r)
           | None \<Rightarrow> (replacement, r))"

lemma getu4_shorter: "getu4 s = Some (u, r) \<Longrightarrow> length r < length s"
  by (auto simp: getu4_def split: list.splits if_splits)

lemma code_unit_length: "length (snd (code_unit u r)) \<le> length r"
  by (auto simp: code_unit_def dest!: getu4_shorter split: option.splits)

function unquote :: "string \<Rightarrow> string" where
  "unquote s =
     (case getu4 s of
        Some (u, r) \<Rightarrow> fst (code_unit u r) @ unquote (snd (code_unit u r))
      | None \<Rightarrow>
     (case s of
        [] \<Rightarrow> []
      | c # cs \<Rightarrow>
          if c = CHR 0x5C then (case cs of [] \<Rightarrow> [] | e # es \<Rightarrow> unescape e # unquote es)
          else if (of_char c :: nat) < 0x80 then c # unquote cs
          else (case rune_length (c # cs) of
                  None \<Rightarrow> replacement @ unquote cs
                | Some n \<Rightarrow> take n (c # cs) @ unquote (drop n (c # cs)))))"
  by pat_completeness auto
termination
  by (relation "measure length")
    (auto dest!: getu4_shorter rune_length_pos intro: le_less_trans [OF code_unit_length])

declare unquote.simps [simp del]

text \<open>A string with its invalid UTF-8 replaced, as the encoder writes it.\<close>

function to_valid_utf8 :: "string \<Rightarrow> string" where
  "to_valid_utf8 [] = []"
| "to_valid_utf8 (c # cs) =
     (if (of_char c :: nat) < 0x80 then c # to_valid_utf8 cs
      else (case rune_length (c # cs) of
              None \<Rightarrow> replacement @ to_valid_utf8 cs
            | Some n \<Rightarrow> take n (c # cs) @ to_valid_utf8 (drop n (c # cs))))"
  by pat_completeness auto
termination
  by (relation "measure length") (auto dest: rune_length_pos)

declare to_valid_utf8.simps(2) [simp del]

section \<open>Members\<close>

definition read_value :: "nat \<Rightarrow> string \<Rightarrow> (json \<times> string) option" where
  "read_value d s = parse_value (Suc (length s)) d s"

lemma read_value_shorter: "read_value d s = Some (v, r) \<Longrightarrow> length r < length s"
  unfolding read_value_def using parse_enough [of "Suc (length s)" d s v r "[]" "[]"] by (auto dest: enoughD(1))

text \<open>The members of an object after its opening brace: name token, value, raw text of the value.\<close>

function raw_members :: "nat \<Rightarrow> string \<Rightarrow> (string \<times> json \<times> string) list" where
  "raw_members d s =
     (case skip_ws s of
        [] \<Rightarrow> []
      | q # qs \<Rightarrow>
     if q \<noteq> CHR 0x22 then [] else
     (case scan_string qs of
        None \<Rightarrow> []
      | Some (k, r) \<Rightarrow>
     (case skip_ws r of
        [] \<Rightarrow> []
      | x # xs \<Rightarrow>
     (case read_value d xs of
        None \<Rightarrow> []
      | Some (v, r2) \<Rightarrow>
          (k, v, take (length (skip_ws xs) - length r2) (skip_ws xs))
          # (case skip_ws r2 of
               c # cs \<Rightarrow> if c = CHR '','' then raw_members d cs else []
             | [] \<Rightarrow> [])))))"
  by pat_completeness auto
termination
  by (relation "measure (\<lambda>(d, s). length s)")
    (auto dest!: skip_ws_shorter scan_string_shorter read_value_shorter)

declare raw_members.simps [simp del]

text \<open>The fold under which member names are compared: ASCII letters in upper case, and the two other
  runes whose case orbit meets ASCII (long s and the Kelvin sign).\<close>

definition upper_ascii :: "char \<Rightarrow> char" where
  "upper_ascii c = (if byte_between CHR ''a'' CHR ''z'' c then char_of (of_char c - 32 :: nat) else c)"

fun foldName :: "string \<Rightarrow> string" where
  "foldName [] = []"
| "foldName (c # cs) =
     (if c = CHR 0xC5 \<and> take 1 cs = [CHR 0xBF] then CHR ''S'' # foldName (drop 1 cs)
      else if c = CHR 0xE2 \<and> take 2 cs = [CHR 0x84, CHR 0xAA] then CHR ''K'' # foldName (drop 2 cs)
      else upper_ascii c # foldName cs)"

text \<open>The field of a struct a member name selects: an exact match, or else one up to case.\<close>

definition field_for :: "string list \<Rightarrow> string \<Rightarrow> string option" where
  "field_for names key =
     (if key \<in> set names then Some key else find (\<lambda>n. foldName n = foldName key) names)"

section \<open>Compact\<close>

text \<open>\<open>compact\<close> with HTML escaping: white space outside strings is dropped; within strings three ASCII
  characters and the line separators are escaped. The flag says whether the text is inside a string.\<close>

fun compact :: "bool \<Rightarrow> string \<Rightarrow> string" where
  "compact inside [] = []"
| "compact inside (c # cs) =
     (if \<not> inside then (if json_space c then compact False cs else c # compact (c = CHR 0x22) cs)
      else if c = CHR 0x5C then (case cs of [] \<Rightarrow> [c] | e # es \<Rightarrow> c # e # compact True es)
      else if c = CHR ''<'' \<or> c = CHR ''>'' \<or> c = CHR ''&'' then ascii_text c @ compact True cs
      else if c = CHR 0xE2 \<and> take 2 cs = [CHR 0x80, CHR 0xA8] then backslash # ''u2028'' @ compact True (drop 2 cs)
      else if c = CHR 0xE2 \<and> take 2 cs = [CHR 0x80, CHR 0xA9] then backslash # ''u2029'' @ compact True (drop 2 cs)
      else c # compact (c \<noteq> CHR 0x22) cs)"

section \<open>Decoding inverts encoding\<close>

lemma unquote_Nil [simp]: "unquote [] = []"
  by (subst unquote.simps) (simp add: getu4_def)

lemma getu4_None: "c \<noteq> CHR 0x5C \<Longrightarrow> getu4 (c # cs) = None"
  by (simp add: getu4_def split: list.split)

lemma unquote_ascii:
  assumes "(of_char c :: nat) < 0x80" and "c \<noteq> CHR 0x5C"
  shows "unquote (c # cs) = c # unquote cs"
  using assms by (subst unquote.simps) (simp add: getu4_None)

lemma unquote_escape:
  assumes "e \<noteq> CHR ''u''"
  shows "unquote (CHR 0x5C # e # es) = unescape e # unquote es"
  using assms by (subst unquote.simps) (simp add: getu4_def split: list.split)

lemma unquote_unit:
  assumes "any_hex h1" "any_hex h2" "any_hex h3" "any_hex h4"
    and "xdigit_value h1 * 4096 + xdigit_value h2 * 256 + xdigit_value h3 * 16 + xdigit_value h4 = u" and "u < 0xD800 \<or> 0xE000 \<le> u"
  shows "unquote (CHR 0x5C # CHR ''u'' # h1 # h2 # h3 # h4 # r) = utf8_encode u @ unquote r"
  using assms by (subst unquote.simps) (simp add: getu4_def code_unit_def)

lemma high_not_backslash: "0x80 \<le> (of_char c :: nat) \<Longrightarrow> c \<noteq> CHR 0x5C"
  by auto

lemma unquote_rune:
  assumes "rune_length (c # cs) = Some n" and "0x80 \<le> (of_char c :: nat)"
  shows "unquote (c # cs) = take n (c # cs) @ unquote (drop n (c # cs))"
  using assms high_not_backslash [OF assms(2)] by (subst unquote.simps) (simp add: getu4_None)

lemma rune_length_prefix:
  assumes "rune_length (c # cs) = Some n"
  shows "rune_length (take n (c # cs) @ r) = Some n"
  using assms by (auto simp: rune_length_def numeral_eq_Suc split: list.splits if_splits)

lemma unquote_take_rune:
  assumes "rune_length (c # cs) = Some n" and "0x80 \<le> (of_char c :: nat)"
  shows "unquote (take n (c # cs) @ r) = take n (c # cs) @ unquote r"
proof -
  have n: "1 < n" "n \<le> length (c # cs)" using rune_length_pos [OF assms(1)] by auto
  then obtain k where k: "n = Suc k" by (cases n) auto
  have "rune_length (c # take k cs @ r) = Some n" using rune_length_prefix [OF assms(1), of r] by (simp add: k)
  from unquote_rune [OF this assms(2)] show ?thesis using n by (simp add: k)
qed

lemma hex_digit_xdigit: "n < 16 \<Longrightarrow> xdigit_value (hex_digit n) = n"
proof -
  have "list_all (\<lambda>n. xdigit_value (hex_digit n) = n) [0..<16]" by code_simp
  then show "n < 16 \<Longrightarrow> xdigit_value (hex_digit n) = n" by (simp add: list_all_iff)
qed

lemma unquote_control:
  assumes "(of_char c :: nat) < 0x80"
  shows "unquote (backslash # ''u00'' @ [hex_digit (of_char c div 16), hex_digit (of_char c mod 16)] @ r) = c # unquote r"
proof -
  have "utf8_encode (of_char c) = [c]" using assms by (simp add: utf8_encode_def)
  moreover have "xdigit_value CHR ''0'' = 0" "any_hex CHR ''0''" by (simp_all add: xdigit_value_def any_hex_def is_digit_def byte_between_def)
  moreover have "xdigit_value (hex_digit (of_char c div 16)) * 16 + xdigit_value (hex_digit (of_char c mod 16)) = of_char c"
    by (simp add: hex_digit_xdigit char_nibbles)
  ultimately show ?thesis
    using unquote_unit [of "CHR ''0''" "CHR ''0''" "hex_digit (of_char c div 16)" "hex_digit (of_char c mod 16)" "of_char c" r] assms
    by (simp add: backslash_def any_hex_digit char_nibbles)
qed

lemma unquote_ascii_text:
  assumes "(of_char c :: nat) < 0x80"
  shows "unquote (ascii_text c @ r) = c # unquote r"
  using assms unquote_control [OF assms, of r]
  by (simp add: ascii_text_def backslash_def unquote_escape unquote_ascii unescape_def)

lemma unquote_literals:
  "unquote (backslash # ''ufffd'' @ r) = replacement @ unquote r"
  "unquote (backslash # ''u2028'' @ r) = [CHR 0xE2, CHR 0x80, CHR 0xA8] @ unquote r"
  "unquote (backslash # ''u2029'' @ r) = [CHR 0xE2, CHR 0x80, CHR 0xA9] @ unquote r"
proof -
  have hexes: "any_hex CHR ''f''" "any_hex CHR ''d''" "any_hex CHR ''2''" "any_hex CHR ''0''" "any_hex CHR ''8''" "any_hex CHR ''9''"
    "xdigit_value CHR ''f'' = 15" "xdigit_value CHR ''d'' = 13" "xdigit_value CHR ''2'' = 2" "xdigit_value CHR ''0'' = 0" "xdigit_value CHR ''8'' = 8" "xdigit_value CHR ''9'' = 9"
    by (simp_all add: any_hex_def xdigit_value_def is_digit_def byte_between_def)
  have "char_of (of_char c :: nat) = c" for c by simp
  from this [of "CHR 0xEF"] this [of "CHR 0xBF"] this [of "CHR 0xBD"] this [of "CHR 0xE2"] this [of "CHR 0x80"]
    this [of "CHR 0xA8"] this [of "CHR 0xA9"]
  have "utf8_encode 0xFFFD = replacement" "utf8_encode 0x2028 = [CHR 0xE2, CHR 0x80, CHR 0xA8]" "utf8_encode 0x2029 = [CHR 0xE2, CHR 0x80, CHR 0xA9]"
    by (simp_all add: utf8_encode_def replacement_def)
  then show "unquote (backslash # ''ufffd'' @ r) = replacement @ unquote r"
    "unquote (backslash # ''u2028'' @ r) = [CHR 0xE2, CHR 0x80, CHR 0xA8] @ unquote r"
    "unquote (backslash # ''u2029'' @ r) = [CHR 0xE2, CHR 0x80, CHR 0xA9] @ unquote r"
    using unquote_unit [of "CHR ''f''" "CHR ''f''" "CHR ''f''" "CHR ''d''" "0xFFFD" r]
      unquote_unit [of "CHR ''2''" "CHR ''0''" "CHR ''2''" "CHR ''8''" "0x2028" r]
      unquote_unit [of "CHR ''2''" "CHR ''0''" "CHR ''2''" "CHR ''9''" "0x2029" r]
    by (simp_all add: backslash_def hexes)
qed

theorem unquote_appendString: "unquote (appendString s) = to_valid_utf8 s"
proof (induction s rule: appendString.induct)
  case (2 c cs)
  show ?case
  proof (cases "(of_char c :: nat) < 0x80")
    case True
    then show ?thesis using "2.IH"(1) by (simp add: appendString.simps(2) to_valid_utf8.simps(2) unquote_ascii_text)
  next
    case False
    show ?thesis
    proof (cases "rune_length (c # cs)")
      case None
      then show ?thesis
        using False "2.IH"(2) [OF False None] by (simp only: appendString.simps(2) to_valid_utf8.simps(2) if_False option.case unquote_literals)
    next
      case (Some n)
      note IH = "2.IH"(3) [OF False Some refl]
      have rune: "unquote (take n (c # cs) @ r) = take n (c # cs) @ unquote r" for r
        using unquote_take_rune [OF Some] False by simp
      show ?thesis
        using False Some IH unquote_literals(2,3) rune [of "appendString (drop n (c # cs))"]
        by (simp only: appendString.simps(2) to_valid_utf8.simps(2) if_False option.case Let_def) (auto simp del: take_Suc_Cons drop_Suc_Cons)
    qed
  qed
qed simp

lemma unquote_plain:
  assumes "list_all (\<lambda>c. (of_char c :: nat) < 0x80 \<and> c \<noteq> CHR 0x5C) s"
  shows "unquote s = s"
  using assms by (induction s) (simp_all add: unquote_ascii)

section \<open>The members read\<close>

lemma read_value_text:
  assumes "value_text d v t" and "blank a" and "number_ends r"
  shows "read_value d (a @ t @ r) = Some (v, r)"
proof -
  have "reads_always (\<lambda>m. parse_value m d (a @ t @ r)) v r"
    using assms by (intro accepts_ws parse_complete(1))
  then obtain n where "parse_value n d (a @ t @ r) = Some (v, r)" by (auto simp: reads_always_def)
  then have "fuel_enough (\<lambda>m. parse_value m d (a @ t @ r)) (a @ t @ r) v r"
    using parse_enough [of n d "a @ t @ r" v r "[]" "[]"] by blast
  then show ?thesis unfolding read_value_def by (rule enoughD(2)) simp
qed

lemma raw_members_step:
  assumes "blank a" "string_body k" "blank b" "blank a'" "value_text d v t" "blank b'" and "c \<in> {CHR '','', CHR ''}''}"
  shows "raw_members d (a @ CHR 0x22 # k @ CHR 0x22 # b @ CHR '':'' # a' @ t @ b' @ c # u)
    = (k, v, t) # (if c = CHR '','' then raw_members d u else [])"
proof -
  have "read_value d (a' @ t @ b' @ c # u) = Some (v, b' @ c # u)"
    using assms by (intro read_value_text stops_ws) auto
  moreover have "skip_ws (a' @ t @ b' @ c # u) = t @ b' @ c # u" by (rule value_skip [OF assms(5,4)])
  moreover have "skip_ws (b' @ c # u) = c # u" using assms(6,7) separators by (auto simp: skip_ws_append)
  ultimately show ?thesis
    by (subst raw_members.simps) (simp add: skip_ws_append assms(1,3) separators scan_string_complete [OF assms(2)])
qed

lemma raw_members_text:
  assumes "members_text d ms t"
  shows "\<exists>raws. raw_members d (t @ CHR ''}'' # r) = raws \<and> map (\<lambda>(k, v, u). (k, v)) raws = ms
    \<and> (\<forall>(k, v, u) \<in> set raws. value_text d v u)"
  using assms
proof (induction ms arbitrary: t)
  case Nil
  then show ?case by (auto elim: members_text.cases)
next
  case (Cons m ms)
  from Cons.prems show ?case
  proof (cases rule: members_text.cases)
    case (one_member a k b a' v w b')
    then show ?thesis using raw_members_step [OF one_member(4-9), of "CHR ''}''" r] by (simp add: one_member(1-3))
  next
    case (more_members a k b a' v w b' u)
    from Cons.IH [OF more_members(9)] show ?thesis
      using raw_members_step [OF more_members(3-8), of "CHR '',''" "u @ CHR ''}'' # r"] more_members(7) by (auto simp: more_members(1,2))
  qed
qed

lemma raw_members_encoded:
  assumes "ms \<noteq> []" and "\<And>k v t. (k, v, t) \<in> set ms \<Longrightarrow> value_text d v t"
  shows "raw_members d (encode_members (map (\<lambda>(k, v, t). (k, t)) ms) @ CHR ''}'' # r)
    = map (\<lambda>(k, v, t). (appendString k, v, t)) ms"
  using assms
proof (induction ms rule: induct_list012)
  case (2 m)
  obtain k v t where m: "m = (k, v, t)" by (rule prod_cases3)
  then have "value_text d v t" using "2.prems" by auto
  from raw_members_step [OF _ appendString_body [of k] _ _ this, of "[]" "[]" "[]" "[]" "CHR ''}''" r] show ?case
    by (simp add: m encode_string_def blank_def)
next
  case (3 m m' ms)
  obtain k v t where m: "m = (k, v, t)" by (rule prod_cases3)
  obtain k' v' t' where m': "m' = (k', v', t')" by (rule prod_cases3)
  have "value_text d v t" using "3.prems"(2) m by auto
  from raw_members_step [OF _ appendString_body [of k] _ _ this, of "[]" "[]" "[]" "[]" "CHR '',''"
      "encode_members (map (\<lambda>(k, v, t). (k, t)) (m' # ms)) @ CHR ''}'' # r"]
  moreover have "raw_members d (encode_members (map (\<lambda>(k, v, t). (k, t)) (m' # ms)) @ CHR ''}'' # r)
      = map (\<lambda>(k, v, t). (appendString k, v, t)) (m' # ms)"
    using "3.prems"(2) by (intro "3.IH"(2)) auto
  ultimately show ?case by (simp add: m m' encode_string_def blank_def)
qed simp

section \<open>Compacting keeps the value\<close>

fun compact_value :: "json \<Rightarrow> json" where
  "compact_value (JString t) = JString (compact True t)"
| "compact_value (JArray vs) = JArray (map compact_value vs)"
| "compact_value (JObject ms) = JObject (map (\<lambda>(k, v). (compact True k, compact_value v)) ms)"
| "compact_value v = v"

lemma blank_Nil [simp]: "blank []"
  by (simp add: blank_def)

lemma compact_blank: "blank w \<Longrightarrow> compact False (w @ u) = compact False u"
  by (induction w) (auto simp: blank_def)

lemma compact_token: "list_all (\<lambda>c. \<not> json_space c \<and> c \<noteq> CHR 0x22) t \<Longrightarrow> compact False (t @ u) = t @ compact False u"
  by (induction t) auto

lemma compact_inside:
  "compact True (CHR 0x22 # cs) = CHR 0x22 # compact False cs"
  "compact True (CHR 0x5C # e # es) = CHR 0x5C # e # compact True es"
  "c = CHR ''<'' \<or> c = CHR ''>'' \<or> c = CHR ''&'' \<Longrightarrow> compact True (c # cs) = ascii_text c @ compact True cs"
  "compact True (CHR 0xE2 # CHR 0x80 # CHR 0xA8 # cs) = backslash # ''u2028'' @ compact True cs"
  "compact True (CHR 0xE2 # CHR 0x80 # CHR 0xA9 # cs) = backslash # ''u2029'' @ compact True cs"
  by (auto simp: numeral_2_eq_2)

definition line_start :: "char \<Rightarrow> string \<Rightarrow> bool" where
  "line_start c cs \<longleftrightarrow> c = CHR 0xE2 \<and> (take 2 cs = [CHR 0x80, CHR 0xA8] \<or> take 2 cs = [CHR 0x80, CHR 0xA9])"

lemma compact_plain:
  assumes "plain_char c" and "\<not> (c = CHR ''<'' \<or> c = CHR ''>'' \<or> c = CHR ''&'')" and "\<not> line_start c cs"
  shows "compact True (c # cs) = c # compact True cs"
proof -
  have "\<not> (c = CHR 0xE2 \<and> take 2 cs = [CHR 0x80, CHR 0xA8])" "\<not> (c = CHR 0xE2 \<and> take 2 cs = [CHR 0x80, CHR 0xA9])"
    using assms(3) unfolding line_start_def by blast+
  moreover have "c \<noteq> CHR 0x22" "c \<noteq> CHR 0x5C" using assms(1) by (simp_all add: plain_char_def)
  ultimately show ?thesis using assms(2) by (simp only: compact.simps(2) if_False if_True simp_thms)
qed

declare compact.simps(2) [simp del]

lemma line_start_cases:
  assumes "line_start c t"
  obtains x w where "c = CHR 0xE2" "t = CHR 0x80 # x # w" "x = CHR 0xA8 \<or> x = CHR 0xA9"
  using assms by (cases t; cases "tl t") (auto simp: line_start_def numeral_2_eq_2)

lemma line_start_quote: "line_start c (t @ CHR 0x22 # u) \<longleftrightarrow> line_start c t"
  by (cases t; cases "tl t") (auto simp: line_start_def numeral_2_eq_2)

lemma line_bodies: "string_body s \<Longrightarrow> string_body (backslash # ''u2028'' @ s)" "string_body s \<Longrightarrow> string_body (backslash # ''u2029'' @ s)"
proof -
  have "any_hex CHR ''2''" "any_hex CHR ''0''" "any_hex CHR ''8''" "any_hex CHR ''9''"
    by (simp_all add: any_hex_def is_digit_def byte_between_def)
  then show "string_body s \<Longrightarrow> string_body (backslash # ''u2028'' @ s)" "string_body s \<Longrightarrow> string_body (backslash # ''u2029'' @ s)"
    by (simp_all add: backslash_def body_unicode)
qed

inductive_cases body_ConsE: "string_body (c # t)"

lemma body_tail: "string_body (c # t) \<Longrightarrow> c \<noteq> CHR 0x5C \<Longrightarrow> string_body t"
  by (erule body_ConsE) auto

text \<open>A string token: what precedes the closing quote is compacted alone, stays a token and keeps
  its value.\<close>

lemma compact_body:
  assumes "string_body k"
  shows "compact True (k @ CHR 0x22 # u) = compact True k @ CHR 0x22 # compact False u \<and> string_body (compact True k)"
  using assms
proof (induction k rule: length_induct)
  case (1 k)
  then have IH: "\<And>t. string_body t \<Longrightarrow> length t < length k \<Longrightarrow>
    compact True (t @ CHR 0x22 # u) = compact True t @ CHR 0x22 # compact False u \<and> string_body (compact True t)" by blast
  from "1.prems" show ?case
  proof cases
    case body_Nil
    then show ?thesis by (simp add: string_body.body_Nil compact_inside)
  next
    case (body_plain c t)
    have tail: "compact True (t @ CHR 0x22 # u) = compact True t @ CHR 0x22 # compact False u" "string_body (compact True t)"
      using IH [OF body_plain(3)] body_plain(1) by auto
    consider "line_start c t" | "c = CHR ''<'' \<or> c = CHR ''>'' \<or> c = CHR ''&''"
      | (plain) "\<not> (c = CHR ''<'' \<or> c = CHR ''>'' \<or> c = CHR ''&'')" "\<not> line_start c t" by blast
    then show ?thesis
    proof cases
      case 1
      then obtain x w where line: "c = CHR 0xE2" "t = CHR 0x80 # x # w" "x = CHR 0xA8 \<or> x = CHR 0xA9" by (rule line_start_cases)
      then have "string_body w" using body_plain(3) by (auto dest!: body_tail)
      then show ?thesis using IH [of w] line line_bodies [of "compact True w"] by (auto simp: body_plain(1) compact_inside)
    next
      case 2
      then have "string_body (ascii_text c)" by (intro ascii_body) auto
      with tail show ?thesis by (simp add: body_plain(1) compact_inside(3) [OF 2] string_body_append)
    next
      case plain
      then show ?thesis
        using tail string_body.body_plain [OF body_plain(2)]
        by (simp add: body_plain(1) compact_plain [OF body_plain(2)] line_start_quote)
    qed
  next
    case (body_escape e t)
    then show ?thesis using IH [OF body_escape(3)] by (auto simp: compact_inside intro: string_body.body_escape)
  next
    case (body_unicode h1 h2 h3 h4 t)
    have copied: "compact True (h # w) = h # compact True w" if "any_hex h" for h w
      using that by (intro compact_plain) (auto simp: any_hex_def is_digit_def byte_between_def plain_char_def line_start_def)
    from body_unicode show ?thesis
      using IH [OF body_unicode(6)] by (auto simp: copied compact_inside intro: string_body.body_unicode)
  qed
qed

lemma compact_scalar:
  "compact False (''null'' @ u) = ''null'' @ compact False u" "compact False (''true'' @ u) = ''true'' @ compact False u"
  "compact False (''false'' @ u) = ''false'' @ compact False u"
  "string_body k \<Longrightarrow> compact False (CHR 0x22 # k @ CHR 0x22 # u) = CHR 0x22 # compact True k @ CHR 0x22 # compact False u"
  by (simp_all add: compact.simps(2) json_space_def compact_body)

lemma number_chars: "number_text t \<Longrightarrow> list_all (\<lambda>c. \<not> json_space c \<and> c \<noteq> CHR 0x22) t"
proof -
  have "digit_text ds \<Longrightarrow> list_all (\<lambda>c. \<not> json_space c \<and> c \<noteq> CHR 0x22) ds" for ds
    using digit_not_space by (auto simp: digit_text_def list_all_iff)
  then show "number_text t \<Longrightarrow> ?thesis"
    by (auto simp: number_text_def int_text_def frac_text_def exp_text_def json_space_def)
qed

text \<open>Structural characters are copied.\<close>

lemma compact_struct: "c \<in> {CHR ''{'', CHR ''}'', CHR ''['', CHR '']'', CHR '','', CHR '':''} \<Longrightarrow> compact False (c # u) = c # compact False u"
  by (simp only: insert_iff empty_iff simp_thms, elim disjE; simp add: compact.simps(2) json_space_def)

definition compacts :: "string \<Rightarrow> string \<Rightarrow> bool" where
  "compacts t t' \<longleftrightarrow> (\<forall>u. compact False (t @ u) = t' @ compact False u)"

lemma compacts_D: "compacts t t' \<Longrightarrow> compact False (t @ u) = t' @ compact False u" "compacts t t' \<Longrightarrow> compact False t = t'"
  unfolding compacts_def by (blast, metis append_Nil2 compact.simps(1))

lemma compact_text_aux:
  "value_text d v t \<Longrightarrow> \<exists>t'. compacts t t' \<and> value_text d (compact_value v) t'"
  "elements_text d vs t \<Longrightarrow> \<exists>t'. compacts t t' \<and> elements_text d (map compact_value vs) t'"
  "members_text d ms t \<Longrightarrow> \<exists>t'. compacts t t' \<and> members_text d (map (\<lambda>(k, v). (compact True k, compact_value v)) ms) t'"
proof (induction rule: value_text_elements_text_members_text.inducts)
  case (null_text d)
  show ?case by (intro exI [of _ "''null''"]) (use compact_scalar(1) in \<open>auto simp: compacts_def intro: value_text_elements_text_members_text.intros\<close>)
next
  case (true_text d)
  show ?case by (intro exI [of _ "''true''"]) (use compact_scalar(2) in \<open>auto simp: compacts_def intro: value_text_elements_text_members_text.intros\<close>)
next
  case (false_text d)
  show ?case by (intro exI [of _ "''false''"]) (use compact_scalar(3) in \<open>auto simp: compacts_def intro: value_text_elements_text_members_text.intros\<close>)
next
  case (string_text k d)
  show ?case
    using value_text_elements_text_members_text.string_text [of "compact True k" d] compact_body [OF string_text] compact_scalar(4) [OF string_text]
    by (intro exI [of _ "CHR 0x22 # compact True k @ [CHR 0x22]"]) (simp add: compacts_def)
next
  case (number t d)
  then show ?case
    using compact_token [OF number_chars [OF number]] value_text_elements_text_members_text.number [OF number]
    by (intro exI [of _ t]) (simp add: compacts_def)
next
  case (empty_array w d)
  show ?case using value_text_elements_text_members_text.empty_array [of "[]" d]
    by (intro exI [of _ "''[]''"]) (simp add: compacts_def compact_struct compact_blank empty_array del: compact.simps)
next
  case (array d vs t)
  then obtain t' where "compacts t t'" "elements_text d (map compact_value vs) t'" by blast
  then show ?case using value_text_elements_text_members_text.array
    by (intro exI [of _ "CHR ''['' # t' @ '']''"]) (simp add: compacts_def compact_struct del: compact.simps)
next
  case (empty_object w d)
  show ?case using value_text_elements_text_members_text.empty_object [of "[]" d]
    by (intro exI [of _ "''{}''"]) (simp add: compacts_def compact_struct compact_blank empty_object del: compact.simps)
next
  case (object d ms t)
  then obtain t' where "compacts t t'" "members_text d (map (\<lambda>(k, v). (compact True k, compact_value v)) ms) t'" by blast
  then show ?case using value_text_elements_text_members_text.object
    by (intro exI [of _ "CHR ''{'' # t' @ ''}''"]) (simp add: compacts_def compact_struct del: compact.simps)
next
  case (one_element a d v t b)
  then obtain t' where "compacts t t'" "value_text d (compact_value v) t'" by blast
  then show ?case using value_text_elements_text_members_text.one_element [of "[]" d _ t' "[]"]
    by (intro exI [of _ t']) (simp add: compacts_def compact_blank one_element)
next
  case (more_elements a d v t b vs w)
  then obtain t' w' where "compacts t t'" "value_text d (compact_value v) t'" "compacts w w'" "elements_text d (map compact_value vs) w'" by blast
  then show ?case using value_text_elements_text_members_text.more_elements [of "[]" d _ t' "[]" _ w']
    by (intro exI [of _ "t' @ '','' @ w'"]) (simp add: compacts_def compact_blank compact_struct more_elements del: compact.simps)
next
  case (one_member a k b a' d v t b')
  then obtain t' where "compacts t t'" "value_text d (compact_value v) t'" by blast
  then show ?case
    using value_text_elements_text_members_text.one_member [of "[]" "compact True k" "[]" "[]" d _ t' "[]"] compact_body [OF one_member.hyps(2)]
    by (intro exI [of _ "CHR 0x22 # compact True k @ CHR 0x22 # CHR '':'' # t'"])
      (simp add: compacts_def compact_blank compact_struct compact_scalar(4) one_member.hyps del: compact.simps)
next
  case (more_members a k b a' d v t b' ms w)
  then obtain t' w' where "compacts t t'" "value_text d (compact_value v) t'" "compacts w w'"
    "members_text d (map (\<lambda>(k, v). (compact True k, compact_value v)) ms) w'" by blast
  then show ?case
    using value_text_elements_text_members_text.more_members [of "[]" "compact True k" "[]" "[]" d _ t' "[]" _ w'] compact_body [OF more_members.hyps(2)]
    by (intro exI [of _ "CHR 0x22 # compact True k @ CHR 0x22 # CHR '':'' # t' @ CHR '','' # w'"])
      (simp add: compacts_def compact_blank compact_struct compact_scalar(4) more_members.hyps del: compact.simps)
qed

lemma compact_value_text: "value_text d v t \<Longrightarrow> value_text d (compact_value v) (compact False t)"
  using compact_text_aux(1) compacts_D(2) by blast

end
