(* ===== verification/EnvelopeCodec.thy ===== *)
theory EnvelopeCodec
  imports Event JsonDecode
begin

text \<open>
  \<open>json.Marshal\<close> and \<open>json.Unmarshal\<close> of an \<open>event.Envelope\<close> (the struct tags of envelope.go), as
  outbox/repository.go, outbox/relay.go and eventconsumer/consumer.go call them.

  Decoding follows \<open>encoding/json\<close>: the whole text is checked first; members select fields exactly or
  up to case, unknown members are skipped, later members overwrite earlier ones; a value of the
  wrong kind is remembered as the error of the call while decoding goes on; an error of
  \<open>time.Time.UnmarshalJSON\<close> ends it at once. The envelope reached is returned with the error, since the
  consumer reads its \<open>ID\<close> even then.

  The lemmas show that decoding inverts encoding up to the white space and HTML escapes of the raw
  data, and that what was decoded and validated can be sent on without loss.
\<close>

section \<open>Encoding\<close>

text \<open>\<open>json.RawMessage\<close>: nil is null; anything else is checked and compacted.\<close>

definition marshal_raw :: "string \<Rightarrow> string result" where
  "marshal_raw data =
     (if data = [] then Inr ''null''
      else case json_parse data of
             None \<Rightarrow> Inl (External ''json: error calling MarshalJSON for type json.RawMessage'')
           | Some v \<Rightarrow> Inr (compact False data))"

definition marshal_time :: "time \<Rightarrow> int \<Rightarrow> string result" where
  "marshal_time t offset =
     (case MarshalText t offset of
        Inl err \<Rightarrow> Inl (wrapf ''json: error calling MarshalJSON for type time.Time: %w'' err)
      | Inr s \<Rightarrow> Inr (CHR 0x22 # s @ [CHR 0x22]))"

definition marshal_aggregate :: "aggregate \<Rightarrow> string" where
  "marshal_aggregate a = encode_object [(''type'', encode_string (agg_type a)), (''id'', encode_string (agg_id a))]"

definition marshal_optional :: "string option \<Rightarrow> string" where
  "marshal_optional t = (case t of None \<Rightarrow> ''null'' | Some s \<Rightarrow> encode_string s)"

definition marshal_envelope :: "envelope \<Rightarrow> string result" where
  "marshal_envelope e =
     bindR (marshal_time (occurred_at e) (occurred_offset e)) (\<lambda>at.
     bindR (marshal_raw (env_data e)) (\<lambda>data.
       Inr (encode_object
         [(''id'', encode_string (env_id e)), (''type'', encode_string (env_type e)),
          (''version'', Itoa (env_version e)), (''occurred_at'', at),
          (''tenant_id'', marshal_optional (tenant_id e)), (''aggregate'', marshal_aggregate (env_aggregate e)),
          (''correlation_id'', encode_string (correlation_id e)), (''causation_id'', encode_string (causation_id e)),
          (''data'', data)])))"

section \<open>Decoding\<close>

definition zero_envelope :: envelope where
  "zero_envelope =
     \<lparr>env_id = [], env_type = [], env_version = 0, occurred_at = zero_time, occurred_offset = 0,
      tenant_id = None, env_aggregate = \<lparr>agg_type = [], agg_id = []\<rparr>, correlation_id = [],
      causation_id = [], env_data = []\<rparr>"

text \<open>The value a member stores in a string field, and whether it fits.\<close>

definition decode_string :: "json \<Rightarrow> string \<Rightarrow> string \<times> bool" where
  "decode_string v old =
     (case v of JString t \<Rightarrow> (unquote t, True) | JNull \<Rightarrow> (old, True) | _ \<Rightarrow> (old, False))"

definition decode_int :: "json \<Rightarrow> int \<Rightarrow> int \<times> bool" where
  "decode_int v old =
     (case v of
        JNumber t \<Rightarrow> (case Atoi t of Some n \<Rightarrow> (n, True) | None \<Rightarrow> (old, False))
      | JNull \<Rightarrow> (old, True)
      | _ \<Rightarrow> (old, False))"

text \<open>A pointer to a string is allocated before the value is looked at, unless it is null.\<close>

definition decode_optional :: "json \<Rightarrow> string option \<Rightarrow> string option \<times> bool" where
  "decode_optional v old =
     (case v of
        JNull \<Rightarrow> (None, True)
      | _ \<Rightarrow> (case decode_string v (case old of None \<Rightarrow> [] | Some s \<Rightarrow> s) of (s, ok) \<Rightarrow> (Some s, ok)))"

fun decode_aggregate_members :: "(string \<times> json) list \<Rightarrow> aggregate \<times> bool \<Rightarrow> aggregate \<times> bool" where
  "decode_aggregate_members [] s = s"
| "decode_aggregate_members ((k, v) # ms) (a, ok) =
     decode_aggregate_members ms
       (case field_for [''type'', ''id''] (unquote k) of
          None \<Rightarrow> (a, ok)
        | Some f \<Rightarrow>
            if f = ''type'' then (case decode_string v (agg_type a) of (s, fits) \<Rightarrow> (a\<lparr>agg_type := s\<rparr>, ok \<and> fits))
            else (case decode_string v (agg_id a) of (s, fits) \<Rightarrow> (a\<lparr>agg_id := s\<rparr>, ok \<and> fits)))"

definition decode_aggregate :: "json \<Rightarrow> aggregate \<Rightarrow> aggregate \<times> bool" where
  "decode_aggregate v old =
     (case v of
        JObject ms \<Rightarrow> decode_aggregate_members ms (old, True)
      | JNull \<Rightarrow> (old, True)
      | _ \<Rightarrow> (old, False))"

text \<open>\<open>time.Time.UnmarshalJSON\<close> reads the token between the quotes as it stands.\<close>

definition decode_time :: "json \<Rightarrow> time \<times> int \<Rightarrow> (time \<times> int) result" where
  "decode_time v old =
     (case v of
        JNull \<Rightarrow> Inr old
      | JString t \<Rightarrow> (case parse_rfc3339 t of None \<Rightarrow> Inl (External ''parsing time'') | Some x \<Rightarrow> Inr x)
      | _ \<Rightarrow> Inl (errorf ''Time.UnmarshalJSON: input is not a JSON string''))"

text \<open>\<open>dec_saved\<close> is the first value of the wrong kind, \<open>dec_stop\<close> an error that ended the decoding.\<close>

record decoding =
  dec_envelope :: envelope
  dec_saved :: "go_error option"
  dec_stop :: "go_error option"

definition mistyped :: go_error where
  "mistyped = External ''json: cannot unmarshal value into Go struct field''"

definition saveError :: "bool \<Rightarrow> go_error option \<Rightarrow> go_error option" where
  "saveError fits saved = (if fits then saved else case saved of None \<Rightarrow> Some mistyped | Some err \<Rightarrow> Some err)"

definition store_field :: "envelope \<Rightarrow> bool \<Rightarrow> decoding \<Rightarrow> decoding" where
  "store_field e fits s = s\<lparr>dec_envelope := e, dec_saved := saveError fits (dec_saved s)\<rparr>"

definition envelope_fields :: "string list" where
  "envelope_fields =
     [''id'', ''type'', ''version'', ''occurred_at'', ''tenant_id'', ''aggregate'', ''correlation_id'', ''causation_id'', ''data'']"

definition decode_field :: "string \<Rightarrow> json \<Rightarrow> string \<Rightarrow> decoding \<Rightarrow> decoding" where
  "decode_field f v raw s =
     (let e = dec_envelope s in
      if f = ''id'' then (case decode_string v (env_id e) of (x, fits) \<Rightarrow> store_field (e\<lparr>env_id := x\<rparr>) fits s)
      else if f = ''type'' then (case decode_string v (env_type e) of (x, fits) \<Rightarrow> store_field (e\<lparr>env_type := x\<rparr>) fits s)
      else if f = ''version'' then (case decode_int v (env_version e) of (x, fits) \<Rightarrow> store_field (e\<lparr>env_version := x\<rparr>) fits s)
      else if f = ''occurred_at'' then
        (case decode_time v (occurred_at e, occurred_offset e) of
           Inl err \<Rightarrow> s\<lparr>dec_stop := Some err\<rparr>
         | Inr (t, offset) \<Rightarrow> store_field (e\<lparr>occurred_at := t, occurred_offset := offset\<rparr>) True s)
      else if f = ''tenant_id'' then (case decode_optional v (tenant_id e) of (x, fits) \<Rightarrow> store_field (e\<lparr>tenant_id := x\<rparr>) fits s)
      else if f = ''aggregate'' then (case decode_aggregate v (env_aggregate e) of (x, fits) \<Rightarrow> store_field (e\<lparr>env_aggregate := x\<rparr>) fits s)
      else if f = ''correlation_id'' then
        (case decode_string v (correlation_id e) of (x, fits) \<Rightarrow> store_field (e\<lparr>correlation_id := x\<rparr>) fits s)
      else if f = ''causation_id'' then
        (case decode_string v (causation_id e) of (x, fits) \<Rightarrow> store_field (e\<lparr>causation_id := x\<rparr>) fits s)
      else store_field (e\<lparr>env_data := raw\<rparr>) True s)"

fun decode_members :: "(string \<times> json \<times> string) list \<Rightarrow> decoding \<Rightarrow> decoding" where
  "decode_members [] s = s"
| "decode_members ((k, v, raw) # ms) s =
     (if dec_stop s \<noteq> None then s
      else decode_members ms
        (case field_for envelope_fields (unquote k) of None \<Rightarrow> s | Some f \<Rightarrow> decode_field f v raw s))"

definition Unmarshal :: "string \<Rightarrow> go_error option \<times> envelope" where
  "Unmarshal data =
     (case json_parse data of
        None \<Rightarrow> (Some (External ''json: syntax error''), zero_envelope)
      | Some JNull \<Rightarrow> (None, zero_envelope)
      | Some (JObject _) \<Rightarrow>
          (let s = decode_members (raw_members (max_nesting - 1) (tl (skip_ws data)))
                     \<lparr>dec_envelope = zero_envelope, dec_saved = None, dec_stop = None\<rparr>
           in (case dec_stop s of Some err \<Rightarrow> Some err | None \<Rightarrow> dec_saved s, dec_envelope s))
      | Some _ \<Rightarrow> (Some mistyped, zero_envelope))"

definition unmarshal_envelope :: "string \<Rightarrow> envelope result" where
  "unmarshal_envelope data = (case Unmarshal data of (None, e) \<Rightarrow> Inr e | (Some err, _) \<Rightarrow> Inl err)"

section \<open>Decoding inverts encoding\<close>

lemma simple_unquote: "list_all simple_char s \<Longrightarrow> unquote s = s"
  by (rule unquote_plain) (auto simp: list_all_iff simple_char_def)

lemma simple_names: "name \<in> {''id'', ''type'', ''version'', ''occurred_at'', ''tenant_id'', ''aggregate'', ''correlation_id'', ''causation_id'', ''data''} \<Longrightarrow>
    list_all simple_char name"
proof -
  have "list_all (list_all simple_char) envelope_fields" by code_simp
  then show "name \<in> {''id'', ''type'', ''version'', ''occurred_at'', ''tenant_id'', ''aggregate'', ''correlation_id'', ''causation_id'', ''data''} \<Longrightarrow> ?thesis"
    by (auto simp: list_all_iff envelope_fields_def)
qed

lemma name_text: "name \<in> set envelope_fields \<Longrightarrow> appendString name = name \<and> unquote name = name"
  using simple_names [of name] by (simp add: envelope_fields_def simple_appendString simple_unquote)

text \<open>The members of an encoded envelope: name, value, text.\<close>

definition string_member :: "string \<Rightarrow> string \<Rightarrow> string \<times> json \<times> string" where
  "string_member k s = (k, JString (appendString s), encode_string s)"

definition aggregate_value :: "aggregate \<Rightarrow> json" where
  "aggregate_value a = JObject [(''type'', JString (appendString (agg_type a))), (''id'', JString (appendString (agg_id a)))]"

definition envelope_members :: "envelope \<Rightarrow> json \<Rightarrow> (string \<times> json \<times> string) list" where
  "envelope_members e v =
     [string_member ''id'' (env_id e), string_member ''type'' (env_type e),
      (''version'', JNumber (Itoa (env_version e)), Itoa (env_version e)),
      (''occurred_at'', JString (rfc3339_nano (occurred_at e) (occurred_offset e)),
        CHR 0x22 # rfc3339_nano (occurred_at e) (occurred_offset e) @ [CHR 0x22]),
      (''tenant_id'', case tenant_id e of None \<Rightarrow> JNull | Some t \<Rightarrow> JString (appendString t), marshal_optional (tenant_id e)),
      (''aggregate'', aggregate_value (env_aggregate e), marshal_aggregate (env_aggregate e)),
      string_member ''correlation_id'' (correlation_id e), string_member ''causation_id'' (causation_id e),
      (''data'', v, compact False (env_data e))]"

lemma aggregate_text: "value_text (Suc d) (aggregate_value a) (marshal_aggregate a)"
proof -
  let ?ms = "[string_member ''type'' (agg_type a), string_member ''id'' (agg_id a)]"
  have names: "appendString ''type'' = ''type''" "appendString ''id'' = ''id''" using name_text by (auto simp: envelope_fields_def)
  have "members_text d (map (\<lambda>(k, v, t). (appendString k, v)) ?ms) (encode_members (map (\<lambda>(k, v, t). (k, t)) ?ms))"
    by (rule encode_members_text) (auto simp: string_member_def encode_string_text)
  from value_text_elements_text_members_text.object [OF this] show ?thesis
    by (simp add: aggregate_value_def marshal_aggregate_def encode_object_def string_member_def names)
qed

lemma envelope_members_text:
  assumes "value_text (Suc d) v (compact False (env_data e))" and "0 \<le> env_version e" and "(k, x, t) \<in> set (envelope_members e v)"
  shows "value_text (Suc d) x t"
proof -
  have "value_text (Suc d) (case tenant_id e of None \<Rightarrow> JNull | Some t \<Rightarrow> JString (appendString t)) (marshal_optional (tenant_id e))"
    by (auto simp: marshal_optional_def encode_string_text null_text split: option.split)
  then show ?thesis
    using assms by (auto simp: envelope_members_def string_member_def encode_string_text Itoa_number time_value aggregate_text)
qed

lemma marshal_envelope_members:
  assumes "marshal_envelope e = Inr payload" and "env_data e \<noteq> []"
  shows "payload = encode_object (map (\<lambda>(k, v, t). (k, t)) (envelope_members e v))"
    and "json_parse (env_data e) \<noteq> None" and "MarshalText (occurred_at e) (occurred_offset e) = Inr (rfc3339_nano (occurred_at e) (occurred_offset e))"
  using assms
  by (auto simp: marshal_envelope_def marshal_time_def marshal_raw_def MarshalText_def envelope_members_def string_member_def go_simps
      split: option.splits if_splits sum.splits)

lemma decode_appendString: "to_valid_utf8 s = s \<Longrightarrow> decode_string (JString (appendString s)) old = (s, True)"
  by (simp add: decode_string_def unquote_appendString)

definition utf8_envelope :: "envelope \<Rightarrow> bool" where
  "utf8_envelope e \<longleftrightarrow> to_valid_utf8 (env_id e) = env_id e \<and> to_valid_utf8 (env_type e) = env_type e
     \<and> to_valid_utf8 (agg_type (env_aggregate e)) = agg_type (env_aggregate e) \<and> to_valid_utf8 (agg_id (env_aggregate e)) = agg_id (env_aggregate e)
     \<and> to_valid_utf8 (correlation_id e) = correlation_id e \<and> to_valid_utf8 (causation_id e) = causation_id e
     \<and> (\<forall>t. tenant_id e = Some t \<longrightarrow> to_valid_utf8 t = t)"

text \<open>What the time text keeps of an envelope: the offset in minutes.\<close>

definition as_written :: "envelope \<Rightarrow> envelope" where
  "as_written e =
     e\<lparr>occurred_at := occurred_at e + (occurred_offset e - whole_minutes (occurred_offset e)) * Second,
       occurred_offset := whole_minutes (occurred_offset e)\<rparr>"

lemma written_id: "occurred_offset e mod 60 = 0 \<Longrightarrow> as_written e = e"
  by (simp add: as_written_def whole_minutes_id)

lemma decode_envelope_members:
  assumes "utf8_envelope e" and "in_i64 (env_version e)"
    and "MarshalText (occurred_at e) (occurred_offset e) = Inr (rfc3339_nano (occurred_at e) (occurred_offset e))"
  shows "decode_members (map (\<lambda>(k, v, t). (appendString k, v, t)) (envelope_members e v)) \<lparr>dec_envelope = zero_envelope, dec_saved = None, dec_stop = None\<rparr>
    = \<lparr>dec_envelope = (as_written e)\<lparr>env_data := compact False (env_data e)\<rparr>, dec_saved = None, dec_stop = None\<rparr>"
proof -
  have field: "field_for envelope_fields (unquote (appendString k)) = Some k" if "k \<in> set envelope_fields" for k
    using that name_text [OF that] by (simp add: field_for_def)
  have tenant: "decode_optional (case tenant_id e of None \<Rightarrow> JNull | Some t \<Rightarrow> JString (appendString t)) None = (tenant_id e, True)"
    using assms(1) by (auto simp: decode_optional_def decode_string_def unquote_appendString utf8_envelope_def split: option.split)
  have "unquote ''type'' = ''type''" "unquote ''id'' = ''id''" using name_text by (auto simp: envelope_fields_def)
  then have aggregate: "decode_aggregate (aggregate_value (env_aggregate e)) a = (env_aggregate e, True)" for a
    using assms(1) by (simp add: decode_aggregate_def aggregate_value_def field_for_def decode_appendString utf8_envelope_def)
  have version: "decode_int (JNumber (Itoa (env_version e))) old = (env_version e, True)" for old
    using assms(2) by (simp add: decode_int_def Atoi_Itoa)
  show ?thesis
    using assms(1) field
    by (simp add: envelope_members_def string_member_def envelope_fields_def decode_field_def decode_appendString tenant aggregate version
        decode_time_def parse_MarshalText [OF assms(3)] as_written_def store_field_def saveError_def zero_envelope_def utf8_envelope_def)
qed

lemma encode_object_skip: "tl (skip_ws (encode_object ms)) = encode_members ms @ ''}''"
  by (simp add: encode_object_def skip_ws_def json_space_def)

lemma max_nesting_Suc: "max_nesting - 1 = 9999" "max_nesting = Suc 9999"
  by (simp_all add: max_nesting_def)

lemma Unmarshal_marshal:
  assumes "marshal_envelope e = Inr payload" and "utf8_envelope e" and "0 \<le> env_version e" and "in_i64 (env_version e)"
    and "value_text 9999 v (env_data e)"
  shows "Unmarshal payload = (None, (as_written e)\<lparr>env_data := compact False (env_data e)\<rparr>)"
proof -
  have data: "env_data e \<noteq> []" using value_hd [OF assms(5)] by auto
  note members = marshal_envelope_members [OF assms(1) data]
  let ?ms = "envelope_members e (compact_value v)"
  have texts: "\<And>k x t. (k, x, t) \<in> set ?ms \<Longrightarrow> value_text 9999 x t"
    using envelope_members_text [of 9998 "compact_value v" e] compact_value_text [OF assms(5)] assms(3) by simp
  have nonempty: "?ms \<noteq> []" by (simp add: envelope_members_def)
  have "json_parse payload = Some (JObject (map (\<lambda>(k, v, t). (appendString k, v)) ?ms))"
    unfolding members(1) [of "compact_value v"] by (rule encode_object_parsed [OF nonempty texts])
  moreover have "raw_members (max_nesting - 1) (tl (skip_ws payload)) = map (\<lambda>(k, v, t). (appendString k, v, t)) ?ms"
    unfolding members(1) [of "compact_value v"] encode_object_skip max_nesting_Suc(1)
    using raw_members_encoded [OF nonempty texts, where r = "[]"] by simp
  ultimately show ?thesis
    using decode_envelope_members [OF assms(2,4) members(3), of "compact_value v"] by (simp add: Unmarshal_def Let_def)
qed

section \<open>Valid envelopes\<close>

lemma simple_valid_utf8: "list_all simple_char s \<Longrightarrow> to_valid_utf8 s = s"
  by (induction s) (simp_all add: to_valid_utf8.simps(2) simple_char_def)

lemma simple_lower_hex: "lower_hex c \<Longrightarrow> simple_char c"
proof -
  have "list_all simple_char hextable" by code_simp
  then show "lower_hex c \<Longrightarrow> simple_char c" using lower_hexD by (auto simp: list_all_iff)
qed

lemma simple_IsUUIDv7:
  assumes "IsUUIDv7 u"
  shows "list_all simple_char u"
  unfolding list_all_length
proof (intro allI impI)
  fix k assume "k < length u"
  note u = IsUUIDv7_D [OF assms]
  have "simple_char CHR ''-''" by code_simp
  moreover have "uuid_dash k \<Longrightarrow> u ! k = CHR ''-''" using u(2-5) by (auto simp: uuid_dash_def)
  ultimately show "simple_char (u ! k)"
    using u(1) u(8) [of k] \<open>k < length u\<close> simple_lower_hex by (cases "uuid_dash k") auto
qed

lemma simple_name_char: "in_class name_rest c \<Longrightarrow> simple_char c"
proof -
  assume range: "in_class name_rest c"
  have "\<not> in_class name_rest d" if "d \<in> {CHR 0x5C, CHR 0x22, CHR 0x08, CHR 0x0C, CHR 0x0A, CHR 0x0D, CHR 0x09, CHR ''<'', CHR ''>'', CHR ''&''}" for d
    using that by (elim insertE emptyE) (simp_all add: in_class_def name_rest_def byte_between_def)
  with range have "c \<notin> {CHR 0x5C, CHR 0x22, CHR 0x08, CHR 0x0C, CHR 0x0A, CHR 0x0D, CHR 0x09, CHR ''<'', CHR ''>'', CHR ''&''}" by blast
  moreover have "(of_char c :: nat) < 0x80" "\<not> (of_char c :: nat) < 0x20"
    using range by (auto simp: in_class_def name_rest_def byte_between_def)
  ultimately show "simple_char c" by (simp add: simple_char_def ascii_text_def)
qed

lemma simple_dotted:
  assumes "set ss \<subseteq> Collect name_segment"
  shows "list_all simple_char (dotted ss)"
proof -
  have seg: "list_all simple_char s" if "s \<in> set ss" for s
    using that assms name_segment_chars simple_name_char by (auto simp: list_all_iff)
  have "simple_char CHR ''.''" by code_simp
  with seg show ?thesis by (induction ss rule: dotted.induct) simp_all
qed

lemma valid_utf8_envelope:
  assumes "valid_envelope e"
  shows "utf8_envelope e"
proof -
  have "list_all simple_char (env_type e)" using assms simple_dotted by (auto simp: valid_envelope_def)
  moreover have "list_all simple_char (agg_type (env_aggregate e))"
    using assms name_segment_chars simple_name_char by (auto simp: valid_envelope_def list_all_iff)
  ultimately show ?thesis
    using assms unfolding utf8_envelope_def valid_envelope_def by (auto intro!: simple_valid_utf8 simple_IsUUIDv7)
qed

section \<open>What was decoded can be encoded\<close>

lemma zone_offset_minutes: "zone_offset s = Some (offset, r) \<Longrightarrow> offset mod 60 = 0"
  by (auto simp: zone_offset_def Let_def Option.bind_eq_Some_conv split: list.splits if_splits) 

lemma parse_rfc3339_minutes: "parse_rfc3339 s = Some (t, offset) \<Longrightarrow> offset mod 60 = 0"
  by (auto simp: parse_rfc3339_def Option.bind_eq_Some_conv dest: zone_offset_minutes split: if_splits prod.splits)

definition decoded_envelope :: "envelope \<Rightarrow> bool" where
  "decoded_envelope e \<longleftrightarrow> in_i64 (env_version e) \<and> occurred_offset e mod 60 = 0
     \<and> (env_data e = [] \<or> (\<exists>v. value_text 9999 v (env_data e)))"

lemma decode_int_i64: "decode_int v old = (n, ok) \<Longrightarrow> in_i64 old \<Longrightarrow> in_i64 n"
  by (auto simp: decode_int_def dest: Atoi_in_i64 split: json.splits option.splits)

lemma decode_time_minutes: "decode_time v (t, o') = Inr (t', offset) \<Longrightarrow> o' mod 60 = 0 \<Longrightarrow> offset mod 60 = 0"
  by (auto simp: decode_time_def dest: parse_rfc3339_minutes split: json.splits option.splits)

lemma decode_field_decoded:
  assumes "decoded_envelope (dec_envelope s)" and "value_text 9999 v raw"
  shows "decoded_envelope (dec_envelope (decode_field f v raw s))"
  using assms decode_int_i64 decode_time_minutes unfolding decode_field_def Let_def decoded_envelope_def store_field_def
  by (auto split: prod.splits sum.splits)

lemma decode_members_decoded:
  assumes "decoded_envelope (dec_envelope s)" and "\<forall>(k, v, raw) \<in> set ms. value_text 9999 v raw"
  shows "decoded_envelope (dec_envelope (decode_members ms s))"
  using assms
proof (induction ms s rule: decode_members.induct)
  case (2 k v raw ms s)
  then show ?case using decode_field_decoded [of s v raw] by (auto split: option.splits)
qed simp

text \<open>The members found at the top of a parsed object.\<close>

lemma object_members:
  assumes "json_parse data = Some (JObject ms)"
  shows "map (\<lambda>(k, v, u). (k, v)) (raw_members 9999 (tl (skip_ws data))) = ms
    \<and> (\<forall>(k, v, raw) \<in> set (raw_members 9999 (tl (skip_ws data))). value_text 9999 v raw)"
proof -
  from assms obtain a t b where obj: "blank a" "value_text (Suc 9999) (JObject ms) t" "data = a @ t @ b"
    by (auto simp: json_parse_text json_text_def max_nesting_def)
  have skip: "tl (skip_ws data) = tl t @ b"
    using value_skip [OF obj(2,1), of b] value_hd [OF obj(2)] by (auto simp: obj(3))
  from obj(2) show ?thesis
  proof cases
    case (empty_object w)
    then have "skip_ws (tl t @ b) = CHR ''}'' # b" by (simp add: skip_ws_append separators)
    then have "raw_members 9999 (tl t @ b) = []" by (subst raw_members.simps) simp
    then show ?thesis using empty_object by (simp add: skip)
  next
    case (object u)
    then have "tl t @ b = u @ CHR ''}'' # b" by simp
    with raw_members_text [OF object(2), of b] show ?thesis by (auto simp: skip)
  qed
qed

lemma Unmarshal_decoded:
  assumes "Unmarshal data = (err, e)"
  shows "decoded_envelope e"
proof -
  have zero: "decoded_envelope zero_envelope" by (simp add: decoded_envelope_def zero_envelope_def in_i64_def)
  consider ms where "json_parse data = Some (JObject ms)" | "e = zero_envelope"
    using assms by (auto simp: Unmarshal_def split: option.splits json.splits)
  then show ?thesis
  proof cases
    case 1
    from object_members [OF 1] zero show ?thesis
      using decode_members_decoded assms 1 by (auto simp: Unmarshal_def Let_def max_nesting_Suc)
  qed (use zero in simp)
qed

section \<open>Sending on what was decoded\<close>

definition graphic :: "char \<Rightarrow> bool" where
  "graphic c \<longleftrightarrow> 0x20 < (of_char c :: nat) \<and> (of_char c :: nat) < 0x80"

lemma leading_rune_graphic:
  assumes "list_all (\<lambda>w. w = [] \<or> \<not> graphic (hd w)) runes" and "t \<noteq> []" and "graphic (hd t)"
  shows "leading_rune runes t = None"
  unfolding leading_rune_space_None_iff
proof (intro ballI impI notI)
  fix w assume w: "w \<in> set runes" "w \<noteq> []" "take (length w) t = w"
  then have "hd w = hd t" by (metis assms(2) hd_take length_greater_0_conv)
  with w assms(1,3) show False by (auto simp: list_all_iff)
qed

lemma TrimSpace_graphic:
  assumes "t \<noteq> []" and "graphic (hd t)" and "graphic (last t)"
  shows "TrimSpace t = t"
proof -
  have "list_all (\<lambda>w. w = [] \<or> \<not> graphic (hd w)) space_runes" "list_all (\<lambda>w. w = [] \<or> \<not> graphic (hd w)) (map rev space_runes)"
    by (simp_all add: space_runes_def graphic_def)
  with assms show ?thesis by (simp add: TrimSpace_id_iff leading_rune_graphic hd_rev)
qed

lemma object_TrimSpace: "value_text d (JObject ms) t \<Longrightarrow> TrimSpace t = t"
  using object_text_braces [of d ms t] by (auto intro!: TrimSpace_graphic simp: graphic_def)

text \<open>A raw value that \<open>isJSONObject\<close> accepts is an object.\<close>

lemma digit_graphic: "is_digit c \<Longrightarrow> graphic c"
  by (auto simp: is_digit_def byte_between_def graphic_def)

lemma number_last:
  assumes "number_text t"
  shows "graphic (last t)"
proof -
  have digits: "graphic (last ds)" if "digit_text ds" for ds
    using that digit_graphic by (cases ds rule: rev_cases) (auto simp: digit_text_def)
  from assms obtain s i f e where t: "t = s @ i @ f @ e" "int_text i" "frac_text f" "exp_text e" by (auto simp: number_text_def)
  have i: "i \<noteq> []" "graphic (last i)" using t(2) digits by (auto simp: int_text_def digit_text_def digit_graphic is_digit_def byte_between_def graphic_def)
  have f: "f = [] \<or> graphic (last f)" using t(3) digits by (auto simp: frac_text_def digit_text_def)
  have e: "e = [] \<or> graphic (last e)" using t(4) digits by (auto simp: exp_text_def digit_text_def)
  show ?thesis using i f e by (auto simp: t(1) last_append)
qed

lemma value_ends:
  assumes "value_text d v t"
  shows "t \<noteq> [] \<and> graphic (hd t) \<and> graphic (last t)"
  using assms
proof cases
  case number
  then show ?thesis
    using number_hd [of t] number_last [of t] digit_graphic by (auto simp: graphic_def)
qed (simp_all add: graphic_def)

lemma data_object:
  assumes "isJSONObject t" and "value_text d v t"
  shows "\<exists>ms. v = JObject ms"
proof -
  have "TrimSpace t = t" using value_ends [OF assms(2)] TrimSpace_graphic by blast
  with assms(1) obtain ms where "value_text max_nesting (JObject ms) t" by (auto simp: isJSONObject_iff json_object_text_def)
  then have "hd t = CHR ''{''" using object_text_braces by fastforce
  with assms(2) show ?thesis
  proof cases
    case number
    with \<open>hd t = CHR ''{''\<close> number_hd [of t] show ?thesis by (auto simp: is_digit_def byte_between_def)
  qed auto
qed

lemma value_text_deeper:
  "value_text d v t \<Longrightarrow> value_text (Suc d) v t"
  "elements_text d vs t \<Longrightarrow> elements_text (Suc d) vs t"
  "members_text d ms t \<Longrightarrow> members_text (Suc d) ms t"
  by (induction rule: value_text_elements_text_members_text.inducts) (rule value_text_elements_text_members_text.intros; assumption)+

text \<open>Compacting the data of a valid envelope leaves it valid.\<close>

definition compact_data :: "envelope \<Rightarrow> envelope" where
  "compact_data e = e\<lparr>env_data := compact False (env_data e)\<rparr>"

lemma compact_data_valid:
  assumes "Validate e = None" and "value_text 9999 v (env_data e)"
  shows "Validate (compact_data e) = None"
proof -
  have "isJSONObject (env_data e)"
    using assms(1) by (simp add: Validate_None_iff valid_envelope_def isJSONObject_iff)
  then obtain ms where v: "v = JObject ms" using data_object assms(2) by blast
  have obj: "value_text 9999 (compact_value v) (compact False (env_data e))" by (rule compact_value_text [OF assms(2)])
  have "json_object_text (compact False (env_data e))"
    using value_text_deeper(1) [OF obj] by (auto simp: json_object_text_def max_nesting_Suc v)
  moreover have "TrimSpace (compact False (env_data e)) = compact False (env_data e)"
    using obj by (auto simp: v intro: object_TrimSpace)
  ultimately show ?thesis
    using assms(1) by (simp add: Validate_None_iff valid_envelope_def compact_data_def)
qed

lemma decoded_data:
  assumes "decoded_envelope e" and "Validate e = None"
  obtains v where "value_text 9999 v (env_data e)"
proof -
  have "isJSONObject (env_data e)" using assms(2) by (simp add: Validate_None_iff valid_envelope_def isJSONObject_iff)
  moreover have "TrimSpace [] = []" using TrimSpace_infix [of "[]"] by simp
  ultimately have "env_data e \<noteq> []" by (auto simp: isJSONObject_def Let_def)
  then show ?thesis using assms(1) that by (auto simp: decoded_envelope_def)
qed

theorem Unmarshal_resent:
  assumes "Unmarshal data = (err, e)" and "Validate e = None" and "marshal_envelope e = Inr payload"
  shows "Unmarshal payload = (None, compact_data e) \<and> Validate (compact_data e) = None"
proof -
  have dec: "decoded_envelope e" by (rule Unmarshal_decoded [OF assms(1)])
  obtain v where v: "value_text 9999 v (env_data e)" by (rule decoded_data [OF dec assms(2)])
  have valid: "valid_envelope e" using assms(2) by (simp add: Validate_None_iff)
  have "Unmarshal payload = (None, compact_data e)"
    unfolding compact_data_def
    using Unmarshal_marshal [OF assms(3) valid_utf8_envelope [OF valid] _ _ v] dec valid
    by (simp add: decoded_envelope_def valid_envelope_def written_id)
  with compact_data_valid [OF assms(2) v] show ?thesis by blast
qed

text \<open>The text of the example envelope.\<close>

definition probe_text :: string where
  "probe_text = encode_object
     [(''id'', encode_string (probe_id CHR ''1'')), (''type'', encode_string ''infrastructure.probe''), (''version'', ''1''),
      (''occurred_at'', encode_string ''2026-09-24T12:00:00Z''), (''tenant_id'', ''null''),
      (''aggregate'', marshal_aggregate \<lparr>agg_type = ''infrastructure_probe'', agg_id = probe_id CHR ''2''\<rparr>),
      (''correlation_id'', encode_string (probe_id CHR ''3'')), (''causation_id'', encode_string (probe_id CHR ''4'')), (''data'', ''{}'')]"

lemma probe_marshal: "marshal_envelope probe_envelope = Inr probe_text"
  by code_simp

lemma probe_unmarshal: "Unmarshal probe_text = (None, probe_envelope)"
proof -
  have "value_text 9999 (JObject []) (env_data probe_envelope)"
    using empty_object [of "[]" 9998] by (simp add: probe_envelope_def)
  moreover have "utf8_envelope probe_envelope" using probe_valid by (simp add: Validate_None_iff valid_utf8_envelope)
  moreover have "(as_written probe_envelope)\<lparr>env_data := compact False (env_data probe_envelope)\<rparr> = probe_envelope" by code_simp
  ultimately show ?thesis
    using Unmarshal_marshal [OF probe_marshal, of "JObject []"] by (simp add: probe_envelope_def in_i64_def)
qed

lemma probe_unmarshal_envelope: "unmarshal_envelope probe_text = Inr probe_envelope"
  by (simp add: unmarshal_envelope_def probe_unmarshal)

end
