(* ===== verification/EnvelopeStore.thy ===== *)
theory EnvelopeStore
  imports EnvelopeCodec
begin

text \<open>
  An encoded envelope in a \<open>jsonb\<close> column. PostgreSQL parses the text on the way in and prints it
  anew on the way out: white space, the order of members and the spelling of strings and numbers
  may change, the values may not. \<open>jsonb_faithful\<close> states that much of its documented behaviour.

  The lemmas show that the text given back decodes to the envelope that was stored, up to the
  spelling of its data.
\<close>

section \<open>What the column keeps\<close>

definition member_values :: "(string \<times> json) list \<Rightarrow> (string \<times> json) list" where
  "member_values ms = map (\<lambda>(k, v). (unquote k, v)) ms"

lemma member_values_simps [simp]: "member_values [] = []" "member_values ((k, v) # ms) = (unquote k, v) # member_values ms"
  by (simp_all add: member_values_def)

text \<open>\<open>same_value v v'\<close>: \<open>v'\<close> is an admissible reprint of \<open>v\<close>. Strings keep their content, and tokens
  without escapes their spelling; integers keep their value; an object with distinct members keeps
  them in some order. Of an object with repeated members nothing is required.\<close>

inductive same_value :: "json \<Rightarrow> json \<Rightarrow> bool" where
  same_null: "same_value JNull JNull"
| same_bool: "same_value (JBool b) (JBool b)"
| same_number: "(\<And>n. Atoi t = Some n \<Longrightarrow> Atoi t' = Some n) \<Longrightarrow> same_value (JNumber t) (JNumber t')"
| same_string: "unquote t' = unquote t \<Longrightarrow> (list_all simple_char t \<Longrightarrow> t' = t) \<Longrightarrow> same_value (JString t) (JString t')"
| same_array: "list_all2 same_value vs vs' \<Longrightarrow> same_value (JArray vs) (JArray vs')"
| same_object: "distinct (map fst (member_values ms)) \<Longrightarrow> distinct (map fst (member_values ms')) \<Longrightarrow>
    (\<And>k. rel_option same_value (map_of (member_values ms) k) (map_of (member_values ms') k)) \<Longrightarrow>
    same_value (JObject ms) (JObject ms')"
| same_repeated: "\<not> distinct (map fst (member_values ms)) \<Longrightarrow> same_value (JObject ms) (JObject ms')"

inductive_cases same_nullE: "same_value JNull v"
inductive_cases same_numberE: "same_value (JNumber t) v"
inductive_cases same_stringE: "same_value (JString t) v"
inductive_cases same_objectE: "same_value (JObject ms) v"

text \<open>A JSON text nested at most \<open>d\<close> deep. A column that accepts one gives back the same value, nested no
deeper; it may refuse the text.\<close>

definition json_grammar :: "nat \<Rightarrow> json \<Rightarrow> string \<Rightarrow> bool" where
  "json_grammar d v s \<longleftrightarrow> (\<exists>a t b. blank a \<and> value_text d v t \<and> blank b \<and> s = a @ t @ b)"

definition jsonb_faithful :: "(string \<Rightarrow> string option) \<Rightarrow> bool" where
  "jsonb_faithful jsonb \<longleftrightarrow>
     (\<forall>d s v t. json_grammar d v s \<and> jsonb s = Some t \<longrightarrow> (\<exists>v'. json_grammar d v' t \<and> same_value v v'))"

text \<open>A column that keeps the text is one example.\<close>

lemma same_value_refl: "same_value v v"
proof (induction v)
  case (JArray vs)
  then show ?case by (intro same_array) (auto simp: list_all2_same)
next
  case (JObject ms)
  have "rel_option same_value (map_of (member_values ms) k) (map_of (member_values ms) k)" for k
  proof (cases "map_of (member_values ms) k")
    case (Some u)
    then have "(k, u) \<in> set (member_values ms)" by (rule map_of_SomeD)
    then obtain k' where "(k', u) \<in> set ms" by (auto simp: member_values_def)
    then have "same_value u u" by (intro JObject.IH) (auto simp: snds.simps)
    with Some show ?thesis by simp
  qed simp
  then show ?case by (cases "distinct (map fst (member_values ms))") (auto intro: same_object same_repeated)
qed (auto intro: same_null same_bool same_number same_string)

lemma identity_faithful: "jsonb_faithful Some"
  using same_value_refl by (auto simp: jsonb_faithful_def)

text \<open>A text has one value.\<close>

lemma value_text_lift: "d \<le> D \<Longrightarrow> value_text d v t \<Longrightarrow> value_text D v t"
  by (induction rule: dec_induct) (auto intro: value_text_deeper(1))

lemma grammar_reads:
  assumes "value_text d v t" and "blank a" and "blank b" and "d \<le> D"
  shows "reads_always (\<lambda>m. parse_value m D (a @ t @ b)) v b"
proof -
  have "number_ends b" using assms(3) by (cases b) (auto simp: number_ends_def blank_def json_space_def is_digit_def byte_between_def)
  then show ?thesis using assms by (intro accepts_ws parse_complete(1) value_text_lift [OF assms(4,1)]) auto
qed

lemma json_grammar_unique:
  assumes "json_grammar d v s" and "json_grammar d' w s"
  shows "v = w"
proof -
  obtain a t b where v: "value_text d v t" "blank a" "blank b" "s = a @ t @ b" using assms(1) by (auto simp: json_grammar_def)
  obtain a' t' b' where w: "value_text d' w t'" "blank a'" "blank b'" "s = a' @ t' @ b'" using assms(2) by (auto simp: json_grammar_def)
  have "reads_always (\<lambda>m. parse_value m (max d d') s) v b" "reads_always (\<lambda>m. parse_value m (max d d') s) w b'"
    using grammar_reads [OF v(1-3), of "max d d'"] grammar_reads [OF w(1-3), of "max d d'"] by (simp_all add: v(4) w(4) [symmetric])
  then obtain M N where "\<And>m. M \<le> m \<Longrightarrow> parse_value m (max d d') s = Some (v, b)" "\<And>m. N \<le> m \<Longrightarrow> parse_value m (max d d') s = Some (w, b')"
    by (auto simp: reads_always_def)
  from this(1) [of "max M N"] this(2) [of "max M N"] show ?thesis by simp
qed

lemma json_parse_grammar: "json_parse s = Some v \<longleftrightarrow> json_grammar max_nesting v s"
  by (auto simp: json_parse_text json_text_def json_grammar_def)

section \<open>Members in any order\<close>

lemma field_cases:
  "f \<in> set envelope_fields \<Longrightarrow> f = ''id'' \<or> f = ''type'' \<or> f = ''version'' \<or> f = ''occurred_at'' \<or> f = ''tenant_id''
    \<or> f = ''aggregate'' \<or> f = ''correlation_id'' \<or> f = ''causation_id'' \<or> f = ''data''"
  unfolding envelope_fields_def list.set by (simp only: insert_iff empty_iff simp_thms)

lemma decode_field_simps:
  "decode_field ''id'' v r s = store_field ((dec_envelope s)\<lparr>env_id := fst (decode_string v (env_id (dec_envelope s)))\<rparr>)
     (snd (decode_string v (env_id (dec_envelope s)))) s"
  "decode_field ''type'' v r s = store_field ((dec_envelope s)\<lparr>env_type := fst (decode_string v (env_type (dec_envelope s)))\<rparr>)
     (snd (decode_string v (env_type (dec_envelope s)))) s"
  "decode_field ''version'' v r s = store_field ((dec_envelope s)\<lparr>env_version := fst (decode_int v (env_version (dec_envelope s)))\<rparr>)
     (snd (decode_int v (env_version (dec_envelope s)))) s"
  "decode_field ''occurred_at'' v r s =
     (case decode_time v (occurred_at (dec_envelope s), occurred_offset (dec_envelope s)) of
        Inl err \<Rightarrow> s\<lparr>dec_stop := Some err\<rparr>
      | Inr x \<Rightarrow> store_field ((dec_envelope s)\<lparr>occurred_at := fst x, occurred_offset := snd x\<rparr>) True s)"
  "decode_field ''tenant_id'' v r s = store_field ((dec_envelope s)\<lparr>tenant_id := fst (decode_optional v (tenant_id (dec_envelope s)))\<rparr>)
     (snd (decode_optional v (tenant_id (dec_envelope s)))) s"
  "decode_field ''aggregate'' v r s = store_field ((dec_envelope s)\<lparr>env_aggregate := fst (decode_aggregate v (env_aggregate (dec_envelope s)))\<rparr>)
     (snd (decode_aggregate v (env_aggregate (dec_envelope s)))) s"
  "decode_field ''correlation_id'' v r s = store_field ((dec_envelope s)\<lparr>correlation_id := fst (decode_string v (correlation_id (dec_envelope s)))\<rparr>)
     (snd (decode_string v (correlation_id (dec_envelope s)))) s"
  "decode_field ''causation_id'' v r s = store_field ((dec_envelope s)\<lparr>causation_id := fst (decode_string v (causation_id (dec_envelope s)))\<rparr>)
     (snd (decode_string v (causation_id (dec_envelope s)))) s"
  "decode_field ''data'' v r s = store_field ((dec_envelope s)\<lparr>env_data := r\<rparr>) True s"
  by (simp_all add: decode_field_def Let_def case_prod_beta split: sum.split)

text \<open>The envelope assembled from the members, each field from the member with its name.\<close>

definition member_or :: "'a \<Rightarrow> (json \<Rightarrow> string \<Rightarrow> 'a) \<Rightarrow> (json \<times> string) option \<Rightarrow> 'a" where
  "member_or d g x = (case x of None \<Rightarrow> d | Some (v, raw) \<Rightarrow> g v raw)"

lemma member_or_simps [simp]: "member_or d g None = d" "member_or d g (Some (v, raw)) = g v raw"
  by (simp_all add: member_or_def)

definition assembled :: "(string \<Rightarrow> (json \<times> string) option) \<Rightarrow> envelope \<Rightarrow> envelope" where
  "assembled m e =
     \<lparr>env_id = member_or (env_id e) (\<lambda>v _. fst (decode_string v (env_id e))) (m ''id''),
      env_type = member_or (env_type e) (\<lambda>v _. fst (decode_string v (env_type e))) (m ''type''),
      env_version = member_or (env_version e) (\<lambda>v _. fst (decode_int v (env_version e))) (m ''version''),
      occurred_at = member_or (occurred_at e) (\<lambda>v _. fst (projr (decode_time v (occurred_at e, occurred_offset e)))) (m ''occurred_at''),
      occurred_offset =
        member_or (occurred_offset e) (\<lambda>v _. snd (projr (decode_time v (occurred_at e, occurred_offset e)))) (m ''occurred_at''),
      tenant_id = member_or (tenant_id e) (\<lambda>v _. fst (decode_optional v (tenant_id e))) (m ''tenant_id''),
      env_aggregate = member_or (env_aggregate e) (\<lambda>v _. fst (decode_aggregate v (env_aggregate e))) (m ''aggregate''),
      correlation_id = member_or (correlation_id e) (\<lambda>v _. fst (decode_string v (correlation_id e))) (m ''correlation_id''),
      causation_id = member_or (causation_id e) (\<lambda>v _. fst (decode_string v (causation_id e))) (m ''causation_id''),
      env_data = member_or (env_data e) (\<lambda>_ raw. raw) (m ''data'')\<rparr>"

text \<open>A value of the kind its field takes.\<close>

definition fits_field :: "string \<Rightarrow> json \<Rightarrow> bool" where
  "fits_field f v \<longleftrightarrow>
     (if f = ''version'' then \<exists>t n. v = JNumber t \<and> Atoi t = Some n
      else if f = ''occurred_at'' then \<exists>t x. v = JString t \<and> parse_rfc3339 t = Some x
      else if f = ''tenant_id'' then v = JNull \<or> (\<exists>t. v = JString t)
      else if f = ''aggregate'' then \<forall>a. snd (decode_aggregate v a)
      else if f = ''data'' then True
      else \<exists>t. v = JString t)"

lemma fits_field_simps:
  "fits_field ''id'' v \<longleftrightarrow> (\<exists>t. v = JString t)" "fits_field ''type'' v \<longleftrightarrow> (\<exists>t. v = JString t)"
  "fits_field ''version'' v \<longleftrightarrow> (\<exists>t n. v = JNumber t \<and> Atoi t = Some n)"
  "fits_field ''occurred_at'' v \<longleftrightarrow> (\<exists>t x. v = JString t \<and> parse_rfc3339 t = Some x)"
  "fits_field ''tenant_id'' v \<longleftrightarrow> (v = JNull \<or> (\<exists>t. v = JString t))"
  "fits_field ''aggregate'' v \<longleftrightarrow> (\<forall>a. snd (decode_aggregate v a))"
  "fits_field ''correlation_id'' v \<longleftrightarrow> (\<exists>t. v = JString t)" "fits_field ''causation_id'' v \<longleftrightarrow> (\<exists>t. v = JString t)"
  by (simp_all add: fits_field_def)

lemma decode_field_step:
  assumes "f \<in> set envelope_fields" and "fits_field f v" and "m f = None"
  shows "assembled (m(f \<mapsto> (v, r))) (dec_envelope s) = assembled m (dec_envelope (decode_field f v r s))
    \<and> dec_saved (decode_field f v r s) = dec_saved s \<and> dec_stop (decode_field f v r s) = dec_stop s"
proof -
  have fits: "snd (decode_string (JString t) x)" "Atoi t = Some n \<Longrightarrow> snd (decode_int (JNumber t) i)"
    "snd (decode_optional (JString t) o')" "snd (decode_optional JNull o')"
    "parse_rfc3339 t = Some y \<Longrightarrow> decode_time (JString t) z = Inr y" for t x i o' n y z
    by (simp_all add: decode_string_def decode_int_def decode_optional_def decode_time_def)
  consider "f = ''id''" | "f = ''type''" | "f = ''version''" | "f = ''occurred_at''" | "f = ''tenant_id''"
    | "f = ''aggregate''" | "f = ''correlation_id''" | "f = ''causation_id''" | "f = ''data''"
    using field_cases [OF assms(1)] by argo
  then show ?thesis
  proof cases
    case 1
    with assms(2,3) show ?thesis by (auto simp: decode_field_simps(1) fits_field_simps(1) assembled_def store_field_def saveError_def fits)
  next
    case 2
    with assms(2,3) show ?thesis by (auto simp: decode_field_simps(2) fits_field_simps(2) assembled_def store_field_def saveError_def fits)
  next
    case 3
    with assms(2,3) show ?thesis by (auto simp: decode_field_simps(3) fits_field_simps(3) assembled_def store_field_def saveError_def fits)
  next
    case 4
    with assms(2,3) show ?thesis by (auto simp: decode_field_simps(4) fits_field_simps(4) assembled_def store_field_def saveError_def fits)
  next
    case 5
    with assms(2,3) show ?thesis by (auto simp: decode_field_simps(5) fits_field_simps(5) assembled_def store_field_def saveError_def fits)
  next
    case 6
    with assms(2,3) show ?thesis by (simp add: decode_field_simps(6) fits_field_simps(6) assembled_def store_field_def saveError_def)
  next
    case 7
    with assms(2,3) show ?thesis by (auto simp: decode_field_simps(7) fits_field_simps(7) assembled_def store_field_def saveError_def fits)
  next
    case 8
    with assms(2,3) show ?thesis by (auto simp: decode_field_simps(8) fits_field_simps(8) assembled_def store_field_def saveError_def fits)
  next
    case 9
    with assms(3) show ?thesis by (simp add: decode_field_simps(9) assembled_def store_field_def saveError_def)
  qed
qed

lemma assembled_empty: "assembled (\<lambda>_. None) e = e"
  by (simp add: assembled_def)

text \<open>Members with distinct, exactly spelled names of the right kinds are all stored.\<close>

lemma decode_members_assembled:
  assumes "distinct (map (\<lambda>(k, v, r). unquote k) ms)" and "dec_stop s = None"
    and "\<forall>(k, v, r) \<in> set ms. unquote k \<in> set envelope_fields \<and> fits_field (unquote k) v"
  shows "decode_members ms s =
    s\<lparr>dec_envelope := assembled (map_of (map (\<lambda>(k, v, r). (unquote k, v, r)) ms)) (dec_envelope s)\<rparr>"
  using assms
proof (induction ms arbitrary: s)
  case Nil
  then show ?case by (simp add: assembled_empty)
next
  case (Cons m ms)
  obtain k v r where m: "m = (k, v, r)" by (rule prod_cases3)
  let ?m = "map_of (map (\<lambda>(k, v, r). (unquote k, v, r)) ms)" and ?s = "decode_field (unquote k) v r s"
  have f: "unquote k \<in> set envelope_fields" "fits_field (unquote k) v" using Cons.prems(3) by (auto simp: m)
  have fresh: "?m (unquote k) = None"
    using Cons.prems(1) by (auto simp: m map_of_eq_None_iff)
  note step = decode_field_step [of _ _ ?m, OF f fresh, of r s]
  then have "decode_members ms ?s = ?s\<lparr>dec_envelope := assembled ?m (dec_envelope ?s)\<rparr>"
    using Cons.prems by (intro Cons.IH) (auto simp: m)
  moreover have "field_for envelope_fields (unquote k) = Some (unquote k)" using f(1) by (simp add: field_for_def)
  ultimately show ?case using step Cons.prems(2) by (cases s; cases ?s) (simp add: m del: fun_upd_apply)
qed

section \<open>The aggregate\<close>

lemma decode_aggregate_members_exact:
  assumes "distinct (map fst (member_values ms))" and "\<forall>(k, v) \<in> set (member_values ms). k \<in> {''type'', ''id''} \<and> (\<exists>t. v = JString t)"
  shows "decode_aggregate_members ms (a, ok) =
    (\<lparr>agg_type = (case map_of (member_values ms) ''type'' of Some (JString t) \<Rightarrow> unquote t | _ \<Rightarrow> agg_type a),
      agg_id = (case map_of (member_values ms) ''id'' of Some (JString t) \<Rightarrow> unquote t | _ \<Rightarrow> agg_id a)\<rparr>, ok)"
  using assms
proof (induction ms arbitrary: a)
  case Nil
  then show ?case by (simp add: member_values_def)
next
  case (Cons m ms)
  obtain k v where m: "m = (k, v)" by (cases m)
  obtain t where v: "v = JString t" using Cons.prems(2) by (auto simp: m member_values_def)
  have "unquote k = ''type'' \<or> unquote k = ''id''" using Cons.prems(2) by (auto simp: m member_values_def)
  moreover have fresh: "map_of (member_values ms) (unquote k) = None"
    using Cons.prems(1) by (simp add: m map_of_eq_None_iff)
  moreover have "decode_aggregate_members ms (b, ok) =
    (\<lparr>agg_type = (case map_of (member_values ms) ''type'' of Some (JString t) \<Rightarrow> unquote t | _ \<Rightarrow> agg_type b),
      agg_id = (case map_of (member_values ms) ''id'' of Some (JString t) \<Rightarrow> unquote t | _ \<Rightarrow> agg_id b)\<rparr>, ok)" for b
    using Cons.prems by (intro Cons.IH) (auto simp: m)
  ultimately show ?case
    by (elim disjE) (simp_all add: m v field_for_def decode_string_def split: option.split json.split)
qed

section \<open>What comes back\<close>

lemma same_simple: "same_value (JString s) v \<Longrightarrow> list_all simple_char s \<Longrightarrow> v = JString s"
  by (auto elim: same_stringE)

lemma map_of_raws:
  "map_of (member_values (map (\<lambda>(k, v, r). (k, v)) raws)) f = map_option fst (map_of (map (\<lambda>(k, v, r). (unquote k, v, r)) raws) f)"
  by (induction raws) auto

definition simple_envelope :: "envelope \<Rightarrow> bool" where
  "simple_envelope e \<longleftrightarrow> list_all simple_char (env_id e) \<and> list_all simple_char (env_type e)
     \<and> list_all simple_char (agg_type (env_aggregate e)) \<and> list_all simple_char (agg_id (env_aggregate e))
     \<and> list_all simple_char (correlation_id e) \<and> list_all simple_char (causation_id e)
     \<and> (\<forall>t. tenant_id e = Some t \<longrightarrow> list_all simple_char t)"

lemma valid_simple: "valid_envelope e \<Longrightarrow> simple_envelope e"
  using simple_dotted name_segment_chars simple_name_char
  by (fastforce simp: valid_envelope_def simple_envelope_def list_all_iff intro: simple_IsUUIDv7 [unfolded list_all_iff, rule_format])

lemma simple_charI:
  assumes "0x20 \<le> (of_char c :: nat)" "(of_char c :: nat) < 0x80" and "c \<notin> {CHR 0x5C, CHR 0x22, CHR ''<'', CHR ''>'', CHR ''&''}"
  shows "simple_char c"
proof -
  have "c \<notin> {CHR 0x08, CHR 0x0C, CHR 0x0A, CHR 0x0D, CHR 0x09}" using assms(1) by auto
  with assms show ?thesis by (simp add: simple_char_def ascii_text_def)
qed

lemma time_char_simple: "time_char c \<Longrightarrow> simple_char c"
  by (rule simple_charI) (auto simp: time_char_def is_digit_def byte_between_def)

text \<open>The value of each member of an encoded envelope.\<close>

definition member_value :: "envelope \<Rightarrow> json \<Rightarrow> string \<Rightarrow> json option" where
  "member_value e v = map_of (member_values (map (\<lambda>(k, v, t). (appendString k, v)) (envelope_members e v)))"

lemma member_value_simps:
  assumes "simple_envelope e"
  shows "member_value e v ''id'' = Some (JString (env_id e))" "member_value e v ''type'' = Some (JString (env_type e))"
    "member_value e v ''version'' = Some (JNumber (Itoa (env_version e)))"
    "member_value e v ''occurred_at'' = Some (JString (rfc3339_nano (occurred_at e) (occurred_offset e)))"
    "member_value e v ''tenant_id'' = Some (case tenant_id e of None \<Rightarrow> JNull | Some t \<Rightarrow> JString t)"
    "member_value e v ''aggregate'' = Some (aggregate_value (env_aggregate e))"
    "member_value e v ''correlation_id'' = Some (JString (correlation_id e))" "member_value e v ''causation_id'' = Some (JString (causation_id e))"
    "member_value e v ''data'' = Some v"
    "f \<notin> set envelope_fields \<Longrightarrow> member_value e v f = None"
proof -
  have names: "unquote (appendString k) = k" if "k \<in> set envelope_fields" for k using name_text [OF that] by simp
  show "member_value e v ''id'' = Some (JString (env_id e))" "member_value e v ''type'' = Some (JString (env_type e))"
    "member_value e v ''version'' = Some (JNumber (Itoa (env_version e)))"
    "member_value e v ''occurred_at'' = Some (JString (rfc3339_nano (occurred_at e) (occurred_offset e)))"
    "member_value e v ''tenant_id'' = Some (case tenant_id e of None \<Rightarrow> JNull | Some t \<Rightarrow> JString t)"
    "member_value e v ''aggregate'' = Some (aggregate_value (env_aggregate e))"
    "member_value e v ''correlation_id'' = Some (JString (correlation_id e))" "member_value e v ''causation_id'' = Some (JString (causation_id e))"
    "member_value e v ''data'' = Some v"
    "f \<notin> set envelope_fields \<Longrightarrow> member_value e v f = None"
    using assms names
    by (auto simp: member_value_def envelope_members_def string_member_def simple_envelope_def simple_appendString envelope_fields_def
        split: option.split)
qed

text \<open>JSON white space is trimmed.\<close>

lemma trim_left_blank:
  assumes "blank a" and "runes = space_runes \<or> runes = map rev space_runes"
  shows "trim_left runes (a @ s) = trim_left runes s"
  using assms(1)
proof (induction a)
  case (Cons c a)
  then have "json_space c" "blank a" by (simp_all add: blank_def)
  then have "leading_rune runes (c # a @ s) = Some [c]"
    using assms(2) unfolding json_space_def by (elim disjE) (simp_all add: leading_rune_def space_runes_def)
  then show ?case using Cons.IH [OF \<open>blank a\<close>] by (simp add: trim_left.simps [of runes "c # a @ s"])
qed simp

lemma TrimSpace_blank:
  assumes "blank a" and "blank b" and "value_text d v t"
  shows "TrimSpace (a @ t @ b) = t"
proof -
  note ends = value_ends [OF assms(3)]
  then have trimmed: "TrimSpace t = t" using TrimSpace_graphic by blast
  have "blank (rev b)" using assms(2) by (simp add: blank_def)
  have "trim_left space_runes (a @ t @ b) = t @ b"
  proof -
    have "leading_rune space_runes (t @ b) = None"
      by (rule leading_rune_graphic) (use ends in \<open>auto simp: space_runes_def graphic_def\<close>)
    then show ?thesis using trim_left_blank [OF assms(1), of space_runes "t @ b"] by (simp add: trim_left_stop)
  qed
  moreover have "trim_right space_runes (t @ b) = t"
  proof -
    have "trim_left (map rev space_runes) (rev b @ rev t) = trim_left (map rev space_runes) (rev t)"
      using trim_left_blank [OF \<open>blank (rev b)\<close>] by blast
    also have "\<dots> = rev t"
      by (intro trim_left_stop leading_rune_graphic) (use ends in \<open>auto simp: space_runes_def graphic_def hd_rev\<close>)
    finally show ?thesis by (simp add: trim_right_def)
  qed
  ultimately show ?thesis by (simp add: TrimSpace_def)
qed

text \<open>The text of an encoded envelope in the grammar is one deeper than that of its data.\<close>

lemma grammarI: "value_text d v t \<Longrightarrow> json_grammar d v t"
  unfolding json_grammar_def by (intro exI [of _ "[]"] exI [of _ t]) simp

lemma valid_data_value:
  assumes "Validate e = None" and "json_grammar d v (env_data e)"
  shows "\<exists>os. v = JObject os"
proof -
  obtain os where os: "value_text max_nesting (JObject os) (TrimSpace (env_data e))"
    using assms(1) by (auto simp: Validate_None_iff valid_envelope_def json_object_text_def)
  obtain a t b where t: "blank a" "value_text d v t" "blank b" "env_data e = a @ t @ b"
    using assms(2) by (auto simp: json_grammar_def)
  from os have "value_text max_nesting (JObject os) t" by (simp add: t(4) TrimSpace_blank [OF t(1,3,2)])
  from json_grammar_unique [OF grammarI [OF t(2)] grammarI [OF this]] show ?thesis by blast
qed

lemma marshal_grammar:
  assumes marshal: "marshal_envelope e = Inr payload" and valid: "Validate e = None"
    and data: "json_grammar (Suc d) v (env_data e)"
  shows "json_grammar (Suc (Suc d))
    (JObject (map (\<lambda>(k, v, t). (appendString k, v)) (envelope_members e (compact_value v)))) payload"
proof -
  from data obtain a t b where t: "blank a" "value_text (Suc d) v t" "blank b" "env_data e = a @ t @ b"
    by (auto simp: json_grammar_def)
  have "env_data e \<noteq> []" using value_hd [OF t(2)] by (auto simp: t(4))
  note members = marshal_envelope_members [OF marshal this]
  obtain t' where t': "compacts t t'" "value_text (Suc d) (compact_value v) t'" using compact_text_aux(1) [OF t(2)] by blast
  have "compact False b = []" using compact_blank [OF t(3), of "[]"] by simp
  then have "compact False (env_data e) = t'" using t'(1) by (simp add: t(4) compact_blank [OF t(1)] compacts_def)
  with t'(2) have obj: "value_text (Suc d) (compact_value v) (compact False (env_data e))" by simp
  let ?ms = "envelope_members e (compact_value v)"
  have "0 \<le> env_version e" using valid by (simp add: Validate_None_iff valid_envelope_def)
  then have "members_text (Suc d) (map (\<lambda>(k, v, t). (appendString k, v)) ?ms) (encode_members (map (\<lambda>(k, v, t). (k, t)) ?ms))"
    using envelope_members_text [OF obj] by (intro encode_members_text) (auto simp: envelope_members_def)
  from grammarI [OF value_text_elements_text_members_text.object [OF this]] show ?thesis
    unfolding members(1) [of "compact_value v"] encode_object_def by auto
qed

lemma same_aggregate:
  assumes "same_value (aggregate_value x) v" and "list_all simple_char (agg_type x)" and "list_all simple_char (agg_id x)"
  shows "decode_aggregate v a = (x, True)"
proof -
  have names: "unquote ''type'' = ''type''" "unquote ''id'' = ''id''" using name_text by (auto simp: envelope_fields_def)
  let ?ms = "[(''type'', JString (agg_type x)), (''id'', JString (agg_id x))]"
  have x: "aggregate_value x = JObject ?ms" using assms(2,3) by (simp add: aggregate_value_def simple_appendString)
  then obtain ms where v: "v = JObject ms" "distinct (map fst (member_values ms))"
    and rel: "\<And>k. rel_option same_value (map_of (member_values ?ms) k) (map_of (member_values ms) k)"
    using assms(1) by (auto elim!: same_objectE simp: names)
  have type: "map_of (member_values ms) ''type'' = Some (JString (agg_type x))"
    using rel [of "''type''"] same_simple assms(2) by (auto simp: names option_rel_Some1)
  have id: "map_of (member_values ms) ''id'' = Some (JString (agg_id x))"
    using rel [of "''id''"] same_simple assms(3) by (auto simp: names option_rel_Some1)
  have "k \<in> {''type'', ''id''} \<and> (\<exists>t. u = JString t)" if "(k, u) \<in> set (member_values ms)" for k u
  proof -
    have u: "map_of (member_values ms) k = Some u" using v(2) that by simp
    then have "k = ''type'' \<or> k = ''id''" using rel [of k] by (auto simp: names split: if_splits)
    with u type id show ?thesis by auto
  qed
  then have "\<forall>(k, u) \<in> set (member_values ms). k \<in> {''type'', ''id''} \<and> (\<exists>t. u = JString t)" by blast
  from decode_aggregate_members_exact [OF v(2) this] show ?thesis
    using assms(2,3) by (simp add: decode_aggregate_def v(1) type id simple_unquote)
qed

text \<open>What a stored and reprinted envelope decodes to.\<close>

lemma reprinted_fits:
  assumes "simple_envelope e" and "in_i64 (env_version e)" and "MarshalText (occurred_at e) (occurred_offset e) = Inr (rfc3339_nano (occurred_at e) (occurred_offset e))"
    and "member_value e v f = Some x" and "same_value x y"
  shows "f \<in> set envelope_fields \<and> fits_field f y"
proof -
  have f: "f \<in> set envelope_fields" using assms(4) member_value_simps(10) [OF assms(1)] by fastforce
  note mv = member_value_simps [OF assms(1)]
  have time: "list_all simple_char (rfc3339_nano (occurred_at e) (occurred_offset e))"
    using rfc3339_chars time_char_simple by (auto simp: list_all_iff)
  have strings: "list_all simple_char (env_id e)" "list_all simple_char (env_type e)" "list_all simple_char (correlation_id e)"
    "list_all simple_char (causation_id e)" "\<And>t. tenant_id e = Some t \<Longrightarrow> list_all simple_char t"
    using assms(1) by (simp_all add: simple_envelope_def)
  consider "f = ''id''" | "f = ''type''" | "f = ''version''" | "f = ''occurred_at''" | "f = ''tenant_id''"
    | "f = ''aggregate''" | "f = ''correlation_id''" | "f = ''causation_id''" | "f = ''data''"
    using field_cases [OF f] by argo
  then have "fits_field f y"
  proof cases
    case 1 then show ?thesis using assms(4,5) mv(1) strings(1) same_simple by (auto simp: fits_field_simps)
  next
    case 2 then show ?thesis using assms(4,5) mv(2) strings(2) same_simple by (auto simp: fits_field_simps)
  next
    case 3 then show ?thesis using assms(4,5) mv(3) Atoi_Itoa [OF assms(2)] by (auto simp: fits_field_simps elim!: same_numberE)
  next
    case 4 then show ?thesis using assms(4,5) mv(4) same_simple [OF _ time] parse_MarshalText [OF assms(3)] by (auto simp: fits_field_simps)
  next
    case 5 then show ?thesis using assms(4,5) mv(5) strings(5) same_simple
      by (auto simp: fits_field_simps elim: same_nullE split: option.splits)
  next
    case 6 then show ?thesis using assms(1,4,5) mv(6) same_aggregate [of "env_aggregate e" y] by (auto simp: fits_field_simps simple_envelope_def)
  next
    case 7 then show ?thesis using assms(4,5) mv(7) strings(3) same_simple by (auto simp: fits_field_simps)
  next
    case 8 then show ?thesis using assms(4,5) mv(8) strings(4) same_simple by (auto simp: fits_field_simps)
  next
    case 9 then show ?thesis by (simp add: fits_field_def)
  qed
  with f show ?thesis ..
qed

lemma assembled_written:
  assumes simple: "simple_envelope e" and version: "in_i64 (env_version e)"
    and time: "MarshalText (occurred_at e) (occurred_offset e) = Inr (rfc3339_nano (occurred_at e) (occurred_offset e))"
    and M: "\<And>f x. member_value e v f = Some x \<Longrightarrow> \<exists>y r. M f = Some (y, r) \<and> same_value x y"
  shows "\<exists>y raw. M ''data'' = Some (y, raw) \<and> same_value v y \<and> assembled M zero_envelope = (as_written e)\<lparr>env_data := raw\<rparr>"
proof -
  note mv = member_value_simps [OF simple]
  have simples: "list_all simple_char (rfc3339_nano (occurred_at e) (occurred_offset e))" "list_all simple_char (env_id e)"
    "list_all simple_char (env_type e)" "list_all simple_char (correlation_id e)"
    "list_all simple_char (causation_id e)" "\<And>t. tenant_id e = Some t \<Longrightarrow> list_all simple_char t"
    using simple rfc3339_chars time_char_simple by (auto simp: simple_envelope_def list_all_iff)
  have str: "\<exists>r. M f = Some (JString s, r)" if "member_value e v f = Some (JString s)" "list_all simple_char s" for f s
    using M [OF that(1)] same_simple [OF _ that(2)] by blast
  obtain r1 r2 r4 r7 r8 where strings: "M ''id'' = Some (JString (env_id e), r1)" "M ''type'' = Some (JString (env_type e), r2)"
    "M ''occurred_at'' = Some (JString (rfc3339_nano (occurred_at e) (occurred_offset e)), r4)"
    "M ''correlation_id'' = Some (JString (correlation_id e), r7)" "M ''causation_id'' = Some (JString (causation_id e), r8)"
    using str [OF mv(1) simples(2)] str [OF mv(2) simples(3)] str [OF mv(4) simples(1)] str [OF mv(7) simples(4)] str [OF mv(8) simples(5)]
    by blast
  obtain y3 r3 where version': "M ''version'' = Some (y3, r3)" "same_value (JNumber (Itoa (env_version e))) y3" using M [OF mv(3)] by blast
  then have "decode_int y3 x = (env_version e, True)" for x
    using Atoi_Itoa [OF version] by (auto elim!: same_numberE simp: decode_int_def)
  moreover obtain y5 r5 where tenant: "M ''tenant_id'' = Some (y5, r5)" "same_value (case tenant_id e of None \<Rightarrow> JNull | Some t \<Rightarrow> JString t) y5"
    using M [OF mv(5)] by blast
  then have "decode_optional y5 None = (tenant_id e, True)"
    using same_simple [OF _ simples(6), of _ y5]
    by (cases "tenant_id e") (auto elim: same_nullE dest!: same_simple [OF _ simples(6)] simp: decode_optional_def decode_string_def simple_unquote simples(6))
  moreover obtain y6 r6 where aggregate: "M ''aggregate'' = Some (y6, r6)" "same_value (aggregate_value (env_aggregate e)) y6"
    using M [OF mv(6)] by blast
  then have "decode_aggregate y6 a = (env_aggregate e, True)" for a
    using simple by (intro same_aggregate) (simp_all add: simple_envelope_def)
  moreover obtain y9 r9 where data: "M ''data'' = Some (y9, r9)" "same_value v y9" using M [OF mv(9)] by blast
  moreover have "decode_string (JString s) x = (s, True)" if "list_all simple_char s" for s x
    using that by (simp add: decode_string_def simple_unquote)
  ultimately have "assembled M zero_envelope = (as_written e)\<lparr>env_data := r9\<rparr>"
    using version'(1) tenant(1) aggregate(1) strings simples parse_MarshalText [OF time]
    by (simp add: assembled_def zero_envelope_def decode_time_def as_written_def)
  with data show ?thesis by blast
qed

text \<open>The data given back has the value of the compacted data.\<close>

definition data_kept :: "string \<Rightarrow> string \<Rightarrow> bool" where
  "data_kept data raw \<longleftrightarrow> (\<exists>v w. json_grammar max_nesting v data \<and> json_grammar max_nesting w raw \<and> same_value (compact_value v) w)"

text \<open>The value of a stored and reprinted envelope, and what it decodes to.\<close>

lemma stored_grammar:
  assumes "jsonb_faithful jsonb" and "Validate e = None" and "marshal_envelope e = Inr payload" and "jsonb payload = Some t"
    and "json_grammar (Suc d) v (env_data e)"
  shows "\<exists>w. json_grammar (Suc (Suc d)) w t
    \<and> same_value (JObject (map (\<lambda>(k, v, t). (appendString k, v)) (envelope_members e (compact_value v)))) w"
proof -
  from marshal_grammar [OF assms(3,2,5)] assms(1,4) show ?thesis unfolding jsonb_faithful_def by blast
qed

lemma stored_parsed:
  assumes "jsonb_faithful jsonb" and "Validate e = None" and "marshal_envelope e = Inr payload" and "jsonb payload = Some t"
    and "json_grammar 9999 v (env_data e)"
  shows "json_parse t \<noteq> None"
proof -
  have "json_grammar (Suc 9998) v (env_data e)" using assms(5) by simp
  from stored_grammar [OF assms(1-4) this] obtain w where "json_grammar (Suc (Suc 9998)) w t" by blast
  then have "json_parse t = Some w" by (simp add: json_parse_grammar max_nesting_def)
  then show ?thesis by simp
qed

theorem Unmarshal_stored:
  assumes "jsonb_faithful jsonb" and "Validate e = None" and "in_i64 (env_version e)"
    and "marshal_envelope e = Inr payload" and "jsonb payload = Some t" and "json_parse t \<noteq> None"
  shows "\<exists>raw ms. Unmarshal t = (None, (as_written e)\<lparr>env_data := raw\<rparr>) \<and> value_text 9999 (JObject ms) raw
    \<and> data_kept (env_data e) raw"
proof -
  have simple: "simple_envelope e" using assms(2) by (simp add: Validate_None_iff valid_simple)
  have time: "MarshalText (occurred_at e) (occurred_offset e) = Inr (rfc3339_nano (occurred_at e) (occurred_offset e))"
    using assms(4) by (auto simp: marshal_envelope_def marshal_time_def MarshalText_def go_simps split: if_splits sum.splits)
  have "env_data e \<noteq> []"
    using assms(2) TrimSpace_infix [of "[]"] object_text_braces
    by (fastforce simp: Validate_None_iff valid_envelope_def json_object_text_def)
  then obtain v where v: "json_grammar (Suc 9999) v (env_data e)"
    using marshal_envelope_members(2) [OF assms(4)] by (auto simp: json_parse_grammar max_nesting_Suc)
  from stored_grammar [OF assms(1,2,4,5) v] obtain w where w: "json_grammar (Suc (Suc 9999)) w t"
    "same_value (JObject (map (\<lambda>(k, v, t). (appendString k, v)) (envelope_members e (compact_value v)))) w"
    by blast
  let ?ms = "map (\<lambda>(k, v, t). (appendString k, v)) (envelope_members e (compact_value v))"
  have "map fst (member_values ?ms) = envelope_fields"
    using name_text by (simp add: envelope_members_def string_member_def envelope_fields_def)
  then have "distinct (map fst (member_values ?ms))" by (simp add: envelope_fields_def)
  with w(2) obtain ms where ms: "w = JObject ms" "distinct (map fst (member_values ms))"
    and rel: "\<And>k. rel_option same_value (member_value e (compact_value v) k) (map_of (member_values ms) k)"
    by (auto elim!: same_objectE simp: member_value_def)
  have parsed: "json_parse t = Some (JObject ms)"
    using assms(6) json_grammar_unique [OF w(1)] by (auto simp: ms(1) json_parse_grammar)
  let ?raws = "raw_members 9999 (tl (skip_ws t))" and ?M = "\<lambda>raws. map_of (map (\<lambda>(k, v, r). (unquote k, v, r)) raws)"
  have raws: "map (\<lambda>(k, v, u). (k, v)) ?raws = ms" "\<forall>(k, v, raw) \<in> set ?raws. value_text 9999 v raw"
    using object_members [OF parsed] by blast+
  have M: "map_of (member_values ms) f = map_option fst (?M ?raws f)" for f
    using map_of_raws [of ?raws f] by (simp only: raws(1))
  have names: "map (\<lambda>(k, v, r). unquote k) ?raws = map fst (member_values ms)"
    unfolding raws(1) [symmetric] by (simp add: member_values_def comp_def case_prod_beta)
  have "unquote k \<in> set envelope_fields \<and> fits_field (unquote k) y" if "(k, y, r) \<in> set ?raws" for k y r
  proof -
    have "(k, y) \<in> set ms" using that unfolding raws(1) [symmetric] by force
    then have "(unquote k, y) \<in> set (member_values ms)" by (auto simp: member_values_def)
    then have "map_of (member_values ms) (unquote k) = Some y" using ms(2) by simp
    then obtain x where "member_value e (compact_value v) (unquote k) = Some x" "same_value x y"
      using rel [of "unquote k"] by (auto simp: option_rel_Some2)
    from reprinted_fits [OF simple assms(3) time this] show ?thesis .
  qed
  then have "\<forall>(k, y, r) \<in> set ?raws. unquote k \<in> set envelope_fields \<and> fits_field (unquote k) y" by blast
  then have "Unmarshal t = (None, assembled (?M ?raws) zero_envelope)"
    using decode_members_assembled [of ?raws "\<lparr>dec_envelope = zero_envelope, dec_saved = None, dec_stop = None\<rparr>"] ms(2)
    by (simp add: Unmarshal_def parsed Let_def max_nesting_Suc names)
  moreover have "\<exists>y r. ?M ?raws f = Some (y, r) \<and> same_value x y" if "member_value e (compact_value v) f = Some x" for f x
    using rel [of f] that M [of f] by (auto simp: option_rel_Some1)
  then obtain y raw where data: "?M ?raws ''data'' = Some (y, raw)" "same_value (compact_value v) y"
    "assembled (?M ?raws) zero_envelope = (as_written e)\<lparr>env_data := raw\<rparr>"
    using assembled_written [OF simple assms(3) time, of "compact_value v" "?M ?raws"] by blast
  moreover have "value_text 9999 y raw" using map_of_SomeD [OF data(1)] raws(2) by auto
  moreover obtain os where "v = JObject os" using valid_data_value [OF assms(2) v] by blast
  then obtain ms' where "y = JObject ms'" using data(2) by (auto elim: same_objectE)
  ultimately show ?thesis
    using v data(2) grammarI [OF value_text_deeper(1), of 9999 y raw] by (auto simp: data_kept_def max_nesting_Suc)
qed

lemma stored_decodes:
  assumes "jsonb_faithful jsonb" and "Validate e = None" and "in_i64 (env_version e)"
    and "marshal_envelope e = Inr payload" and "jsonb payload = Some t" and "unmarshal_envelope t = Inr e'"
  shows "\<exists>raw. e' = (as_written e)\<lparr>env_data := raw\<rparr>"
proof -
  have "json_parse t \<noteq> None" using assms(6) by (cases "json_parse t") (simp_all add: unmarshal_envelope_def Unmarshal_def)
  from Unmarshal_stored [OF assms(1-5) this] assms(6) show ?thesis
    by (auto simp: unmarshal_envelope_def)
qed

lemma stored_valid:
  assumes "Validate e = None" and "value_text 9999 (JObject ms) raw"
  shows "Validate (e\<lparr>env_data := raw\<rparr>) = None"
proof -
  have "json_object_text raw" using value_text_deeper(1) [OF assms(2)] by (auto simp: json_object_text_def max_nesting_Suc)
  with assms show ?thesis by (simp add: Validate_None_iff valid_envelope_def object_TrimSpace)
qed

end
