(* ===== verification/Lifecycle.thy ===== *)
theory Lifecycle
  imports Prelude
begin

text \<open>
  The contract behind the interface \<open>dependency.Component\<close> (set.go): \<open>Start\<close>, \<open>Check\<close> and
  \<open>Close\<close> on a component with its own state \<open>'s\<close>. The argument \<open>'e\<close> of a call is what the code
  outside the repository does during that call.

  The locale \<open>component\<close> states the laws every component of the process keeps; what follows from
  them is proved here once, for any sequence of calls. The theories of the database, NATS, Redis
  and object-storage clients, the relay and the consumer interpret it.
\<close>

datatype 'e life_call = CallStart 'e | CallClose 'e

datatype life_event = StartedOk | StartRefused | Closed

fun life_run :: "('e \<Rightarrow> 's \<Rightarrow> go_error option \<times> 's) \<Rightarrow> ('e \<Rightarrow> 's \<Rightarrow> go_error option \<times> 's)
    \<Rightarrow> 'e life_call list \<Rightarrow> 's \<Rightarrow> life_event list \<times> 's" where
  "life_run Start Close [] s = ([], s)"
| "life_run Start Close (CallStart e # calls) s =
     (case Start e s of (err, s') \<Rightarrow>
      case life_run Start Close calls s' of (tr, s'') \<Rightarrow>
        ((if err = None then StartedOk else StartRefused) # tr, s''))"
| "life_run Start Close (CallClose e # calls) s =
     (case Close e s of (err, s') \<Rightarrow>
      case life_run Start Close calls s' of (tr, s'') \<Rightarrow> (Closed # tr, s''))"

text \<open>Successful starts and closes alternate; \<open>up_after\<close> is whether the trace ends started.\<close>

fun bracketed :: "bool \<Rightarrow> life_event list \<Rightarrow> bool" where
  "bracketed up [] = True"
| "bracketed up (StartedOk # tr) = (\<not> up \<and> bracketed True tr)"
| "bracketed up (StartRefused # tr) = bracketed up tr"
| "bracketed up (Closed # tr) = bracketed False tr"

fun up_after :: "bool \<Rightarrow> life_event list \<Rightarrow> bool" where
  "up_after up [] = up"
| "up_after up (StartedOk # tr) = up_after True tr"
| "up_after up (StartRefused # tr) = up_after up tr"
| "up_after up (Closed # tr) = up_after False tr"

locale component =
  fixes Started :: "'s \<Rightarrow> bool"
    and Start :: "'e \<Rightarrow> 's \<Rightarrow> go_error option \<times> 's"
    and Check :: "'e \<Rightarrow> 's \<Rightarrow> go_error option"
    and Close :: "'e \<Rightarrow> 's \<Rightarrow> go_error option \<times> 's"
  assumes start_twice: "Started s \<Longrightarrow> fst (Start e s) \<noteq> None"
    and start_ok: "Start e s = (None, s') \<Longrightarrow> Started s'"
    and start_failed: "Start e s = (Some err, s') \<Longrightarrow> s' = s"
    and check_idle: "\<not> Started s \<Longrightarrow> Check e s \<noteq> None"
    and close_stops: "\<not> Started (snd (Close e s))"
    and close_idle: "\<not> Started s \<Longrightarrow> fst (Close e s) = None"
begin

lemma start_ok_iff: "fst (Start e s) = None \<Longrightarrow> \<not> Started s \<and> Started (snd (Start e s))"
  using start_twice [of s e] start_ok [of e s "snd (Start e s)"] by (metis prod.collapse)

lemma run_bracketed:
  "life_run Start Close calls s = (tr, s') \<Longrightarrow>
    bracketed (Started s) tr \<and> Started s' = up_after (Started s) tr"
proof (induction calls arbitrary: s tr)
  case (Cons call calls)
  show ?case
  proof (cases call)
    case (CallStart e)
    obtain err s1 where start: "Start e s = (err, s1)" by fastforce
    obtain tr1 where rest: "life_run Start Close calls s1 = (tr1, s')"
      and tr: "tr = (if err = None then StartedOk else StartRefused) # tr1"
      using Cons.prems by (auto simp: CallStart start split: prod.splits)
    show ?thesis
    proof (cases err)
      case None
      then have "\<not> Started s" "Started s1"
        using start start_ok_iff [of e s] by simp_all
      with Cons.IH [OF rest] show ?thesis by (simp add: tr None)
    next
      case (Some x)
      then have "s1 = s" using start start_failed by blast
      with Cons.IH [OF rest] show ?thesis by (simp add: tr Some)
    qed
  next
    case (CallClose e)
    obtain err s1 where close: "Close e s = (err, s1)" by fastforce
    then have "\<not> Started s1" using close_stops [of e s] by simp
    with Cons.IH [of s1] Cons.prems show ?thesis
      by (auto simp: CallClose close split: prod.splits)
  qed
qed simp

text \<open>A component that reports itself ready is started, and its trace shows the open start.\<close>

lemma ready_after_run:
  "life_run Start Close calls s = (tr, s') \<Longrightarrow> Check e s' = None \<Longrightarrow> up_after (Started s) tr"
  using run_bracketed check_idle by blast

end

end
