(* ===== verification/Database.thy ===== *)
theory Database
  imports Lifecycle
begin

text \<open>
  Package \<open>database\<close> (database.go, transaction.go): the pool's lifecycle and the transaction
  boundary.

  \<open>pgxpool\<close> is not part of the repository: parsing a connection string, building a pool, pinging
  it, and the outcome of \<open>BeginTx\<close>, \<open>Commit\<close> and \<open>Rollback\<close> are arguments. A commit error
  carries whether the server had already applied the transaction, since a client that gets an
  error from \<open>Commit\<close> cannot tell.

  \<open>InTransaction\<close> runs an operation on a private copy of the database state. The operation may
  return an error, return nil, or panic; its captured Go variables (\<open>'cap\<close>) survive a rollback.
  The result records the calls made on the transaction, the deferred rollback included.
\<close>

section \<open>The pool\<close>

record db_config =
  ConnectionString :: string
  MaxConnections :: int
  MinConnections :: int

record 'pool database =
  db_configuration :: db_config
  db_pool :: "'pool option"

definition database_New :: "(string \<Rightarrow> 'cfg result) \<Rightarrow> db_config \<Rightarrow> 'pool database result" where
  "database_New ParseConfig configuration =
     (if MaxConnections configuration < 1 then
        Inl (errorf ''database maximum connections must be positive'')
      else if MinConnections configuration < 0 \<or> MinConnections configuration > MaxConnections configuration then
        Inl (errorf ''database minimum connections must be between zero and the maximum'')
      else (case ParseConfig (ConnectionString configuration) of
              Inl err \<Rightarrow> Inl (errorf ''parse database connection configuration'')
            | Inr _ \<Rightarrow> Inr \<lparr>db_configuration = configuration, db_pool = None\<rparr>))"

definition database_Name :: string where
  "database_Name = ''postgres''"

definition database_Start ::
  "(string \<Rightarrow> 'cfg result) \<Rightarrow> ('cfg \<Rightarrow> int \<Rightarrow> int \<Rightarrow> 'pool result) \<Rightarrow> 'pool database
    \<Rightarrow> go_error option \<times> 'pool database" where
  "database_Start ParseConfig NewWithConfig db =
     (if db_pool db \<noteq> None then (Some (errorf ''database pool has already started''), db)
      else (case ParseConfig (ConnectionString (db_configuration db)) of
              Inl err \<Rightarrow> (Some (errorf ''parse database connection configuration''), db)
            | Inr poolConfig \<Rightarrow>
                (case NewWithConfig poolConfig (MaxConnections (db_configuration db))
                        (MinConnections (db_configuration db)) of
                   Inl err \<Rightarrow> (Some (wrapf ''create database pool: %w'' err), db)
                 | Inr pool \<Rightarrow> (None, db\<lparr>db_pool := Some pool\<rparr>))))"

definition database_Pool :: "'pool database \<Rightarrow> 'pool result" where
  "database_Pool db =
     (case db_pool db of
        None \<Rightarrow> Inl (errorf ''database pool is not started'')
      | Some pool \<Rightarrow> Inr pool)"

definition database_Check :: "('pool \<Rightarrow> go_error option) \<Rightarrow> 'pool database \<Rightarrow> go_error option" where
  "database_Check Ping db =
     (case database_Pool db of
        Inl err \<Rightarrow> Some err
      | Inr pool \<Rightarrow> map_option (wrapf ''ping database: %w'') (Ping pool))"

text \<open>\<open>Close\<close> also returns the pool it closes, if any.\<close>

definition database_Close :: "'pool database \<Rightarrow> go_error option \<times> 'pool option \<times> 'pool database" where
  "database_Close db = (None, db_pool db, db\<lparr>db_pool := None\<rparr>)"

section \<open>Transactions\<close>

datatype 'a go_outcome = Returns 'a | Panics string

datatype ('cap, 'db) op_result = OpDone "go_error option" 'cap 'db | OpPanic string

datatype tx_call = TxBegin | TxCommit | TxRollback

record tx_env =
  begin_err :: "go_error option"
  rollback_err :: "go_error option"
  commit_err :: "(go_error \<times> bool) option"

record ('cap, 'db) tx_result =
  tx_outcome :: "go_error option go_outcome"
  tx_captured :: "'cap option"
  tx_db :: 'db
  tx_calls :: "tx_call list"

definition InTransaction ::
  "'pool database \<Rightarrow> tx_env \<Rightarrow> ('db \<Rightarrow> ('cap, 'db) op_result) option \<Rightarrow> 'db \<Rightarrow> ('cap, 'db) tx_result" where
  "InTransaction db env operation s =
     (case operation of
        None \<Rightarrow> \<lparr>tx_outcome = Returns (Some (errorf ''database transaction operation must not be nil'')),
                tx_captured = None, tx_db = s, tx_calls = []\<rparr>
      | Some op \<Rightarrow>
     (case database_Pool db of
        Inl err \<Rightarrow> \<lparr>tx_outcome = Returns (Some err), tx_captured = None, tx_db = s, tx_calls = []\<rparr>
      | Inr pool \<Rightarrow>
     (case begin_err env of
        Some err \<Rightarrow> \<lparr>tx_outcome = Returns (Some (wrapf ''begin database transaction: %w'' err)),
                   tx_captured = None, tx_db = s, tx_calls = [TxBegin]\<rparr>
      | None \<Rightarrow>
     (case op s of
        OpPanic msg \<Rightarrow> \<lparr>tx_outcome = Panics msg, tx_captured = None, tx_db = s,
                       tx_calls = [TxBegin, TxRollback]\<rparr>
      | OpDone (Some err) cap s' \<Rightarrow>
          \<lparr>tx_outcome = Returns
             (case rollback_err env of
                Some rerr \<Rightarrow>
                  if \<not> errors_Is rerr ErrTxClosed
                  then errors_Join [Some err, Some (wrapf ''rollback database transaction: %w'' rerr)]
                  else Some err
              | None \<Rightarrow> Some err),
           tx_captured = Some cap, tx_db = s, tx_calls = [TxBegin, TxRollback, TxRollback]\<rparr>
      | OpDone None cap s' \<Rightarrow>
          (case commit_err env of
             Some (cerr, applied) \<Rightarrow>
               \<lparr>tx_outcome = Returns (Some (wrapf ''commit database transaction: %w'' cerr)),
                tx_captured = Some cap, tx_db = (if applied then s' else s),
                tx_calls = [TxBegin, TxCommit, TxRollback]\<rparr>
           | None \<Rightarrow>
               \<lparr>tx_outcome = Returns None, tx_captured = Some cap, tx_db = s',
                tx_calls = [TxBegin, TxCommit, TxRollback]\<rparr>)))))"

section \<open>Lemmas\<close>

lemma InTransaction_success_iff:
  "tx_outcome (InTransaction db env (Some op) s) = Returns None \<longleftrightarrow>
    (\<exists>pool cap s'. db_pool db = Some pool \<and> begin_err env = None \<and> op s = OpDone None cap s'
      \<and> commit_err env = None
      \<and> tx_captured (InTransaction db env (Some op) s) = Some cap
      \<and> tx_db (InTransaction db env (Some op) s) = s')"
  by (auto simp: InTransaction_def database_Pool_def errors_Join_def Let_def map_filter_simps
      split: option.splits op_result.splits if_splits)

lemma InTransaction_db_cases:
  "tx_db (InTransaction db env operation s) = s
   \<or> (\<exists>op cap s'. operation = Some op \<and> op s = OpDone None cap s'
        \<and> tx_db (InTransaction db env operation s) = s'
        \<and> (commit_err env = None \<or> (\<exists>e. commit_err env = Some (e, True))))"
  by (auto simp: InTransaction_def split: option.splits op_result.splits sum.splits)

text \<open>An invariant that the operation keeps on success holds after the transaction.\<close>

lemma InTransaction_invariant [inv_intros]:
  assumes "I s" and "\<And>op cap s'. operation = Some op \<Longrightarrow> op s = OpDone None cap s' \<Longrightarrow> I s'"
  shows "I (tx_db (InTransaction db env operation s))"
  using InTransaction_db_cases [of db env operation s] assms by metis

section \<open>Lifecycle\<close>

text \<open>The driver's functions during one call: parsing the connection string, creating the pool, and
  pinging it.\<close>

record ('cfg, 'pool) pgx_lib =
  px_parse :: "string \<Rightarrow> 'cfg result"
  px_new_pool :: "'cfg \<Rightarrow> int \<Rightarrow> int \<Rightarrow> 'pool result"
  px_ping :: "'pool \<Rightarrow> go_error option"

definition database_start_call :: "('cfg, 'pool) pgx_lib \<Rightarrow> 'pool database \<Rightarrow> go_error option \<times> 'pool database" where
  "database_start_call lib = database_Start (px_parse lib) (px_new_pool lib)"

definition database_close_call :: "('cfg, 'pool) pgx_lib \<Rightarrow> 'pool database \<Rightarrow> go_error option \<times> 'pool database" where
  "database_close_call lib db = (case database_Close db of (err, closed, db') \<Rightarrow> (err, db'))"

interpretation database_component: component
  "\<lambda>db. db_pool db \<noteq> None" database_start_call "\<lambda>lib. database_Check (px_ping lib)" database_close_call
  by unfold_locales
    (auto simp: database_start_call_def database_close_call_def database_Start_def database_Check_def
      database_Pool_def database_Close_def split: if_splits sum.splits option.splits)

section \<open>Properties\<close>

text \<open>
  C15. Atomicity: the database changes only when the operation returned nil and the commit was
  applied, and then to exactly the operation's state. A returned nil means the transaction was
  committed; an operation that fails or panics leaves the database as it was.
\<close>

theorem InTransaction_atomic:
  fixes r :: "('cap, 'db) tx_result"
  assumes "r = InTransaction db env (Some op) s"
  shows "(tx_outcome r = Returns None \<longrightarrow> (\<exists>cap. op s = OpDone None cap (tx_db r) \<and> tx_captured r = Some cap))
    \<and> (tx_db r \<noteq> s \<longrightarrow> (\<exists>cap. op s = OpDone None cap (tx_db r)))
    \<and> (\<forall>err cap s'. op s = OpDone (Some err) cap s' \<longrightarrow> tx_db r = s \<and> tx_outcome r \<noteq> Returns None)
    \<and> (\<forall>msg. op s = OpPanic msg \<longrightarrow> tx_db r = s)"
  unfolding assms
  by (auto simp: InTransaction_def database_Pool_def errors_Join_def Let_def map_filter_simps
      split: option.splits op_result.splits if_splits)

definition running_db :: "unit database" where
  "running_db = \<lparr>db_configuration = \<lparr>ConnectionString = ''postgres://db/manoreck'', MaxConnections = 10,
     MinConnections = 1\<rparr>, db_pool = Some ()\<rparr>"

definition quiet_tx :: tx_env where
  "quiet_tx = \<lparr>begin_err = None, rollback_err = None, commit_err = None\<rparr>"

theorem InTransaction_atomic_witness:
  "tx_outcome (InTransaction running_db quiet_tx (Some (\<lambda>n. OpDone None () (n + 1))) (0::nat)) = Returns None
   \<and> (\<exists>cap. OpDone None () (0 + 1 :: nat)
        = OpDone None cap (tx_db (InTransaction running_db quiet_tx (Some (\<lambda>n. OpDone None () (n + 1))) 0)))"
proof -
  have "tx_outcome (InTransaction running_db quiet_tx (Some (\<lambda>n. OpDone None () (n + 1))) (0::nat)) = Returns None"
    by (simp add: InTransaction_def database_Pool_def running_db_def quiet_tx_def)
  then show ?thesis
    using InTransaction_atomic [OF refl, of running_db quiet_tx "\<lambda>n. OpDone None () (n + 1)" "0::nat"]
    by blast
qed

text \<open>
  Every transaction that was begun is closed by the deferred rollback, and a commit is
  attempted exactly when the operation returned nil.
\<close>

theorem InTransaction_calls:
  fixes r :: "('cap, 'db) tx_result"
  assumes "r = InTransaction db env (Some op) s" and "db_pool db = Some pool" and "begin_err env = None"
  shows "last (tx_calls r) = TxRollback \<and> hd (tx_calls r) = TxBegin
    \<and> (TxCommit \<in> set (tx_calls r) \<longleftrightarrow> (\<exists>cap s'. op s = OpDone None cap s'))"
  using assms(2,3) unfolding assms(1)
  by (auto simp: InTransaction_def database_Pool_def split: option.splits op_result.splits)

theorem InTransaction_calls_witness:
  "last (tx_calls (InTransaction running_db quiet_tx
     (Some (\<lambda>n. OpDone (Some (External ''boom'')) () (n + 1))) (0::nat))) = TxRollback"
  using InTransaction_calls [OF refl, of running_db "()" quiet_tx
       "\<lambda>n. OpDone (Some (External ''boom'')) () (n + 1)" "0::nat"]
  by (simp add: running_db_def quiet_tx_def)

end
