(* ===== verification/Outbox.thy ===== *)
theory Outbox
  imports EnvelopeStore Database "HOL-Library.Product_Lexorder"
begin

text \<open>
  Package \<open>outbox\<close>, repository.go: the table \<open>platform.outbox_events\<close> and its statements.

  The table is a list of rows with the columns of migration 000002; instants in it are
  microseconds, as PostgreSQL keeps them. Each method is the Go control flow around the meaning
  of its SQL statement. The rest of PostgreSQL and of its driver is a parameter (record \<open>pg\<close>):
  the conversion of a text argument to \<open>uuid\<close>, what a \<open>jsonb\<close> column gives back for a text,
  reading a field of it, and the order in which \<open>RETURNING\<close> delivers rows. Failures of the
  connection are parameters too (an error together with whether the statement took effect).
  Envelopes are encoded and decoded by \<open>EnvelopeCodec\<close>.

  The lemmas show that every operation keeps the table's \<open>CHECK\<close> constraints and key, give the
  exact effect of each operation, and that a leased event belongs to one worker at a time.
\<close>

section \<open>Tables\<close>

datatype outbox_status = Pending | Publishing | Published | DeadLetter

record outbox_row =
  row_id :: string
  row_tenant_id :: "string option"
  row_event_type :: string
  row_event_version :: int
  row_aggregate_type :: string
  row_aggregate_id :: string
  row_subject :: string
  row_occurred_at :: int
  row_correlation_id :: string
  row_causation_id :: string
  row_payload :: string
  row_status :: outbox_status
  row_attempt_count :: int
  row_next_attempt_at :: int
  row_lease_owner :: "string option"
  row_lease_expires_at :: "int option"
  row_published_at :: "int option"
  row_dead_lettered_at :: "int option"
  row_last_error_code :: "string option"
  row_created_at :: int
  row_updated_at :: int

type_synonym outbox_table = "outbox_row list"

text \<open>\<open>Record\<close> of the source.\<close>

record outbox_record =
  rec_envelope :: envelope
  rec_subject :: string
  rec_attempt :: int

type_synonym failure_class = string

definition FailureTransient :: failure_class where
  "FailureTransient = ''transient''"

definition FailurePermanent :: failure_class where
  "FailurePermanent = ''permanent''"

record pg =
  to_uuid :: "string \<Rightarrow> string option"
  jsonb_text :: "string \<Rightarrow> string option"
  jsonb_object :: "string \<Rightarrow> bool"
  jsonb_field :: "string \<Rightarrow> string \<Rightarrow> string option"
  returning_order :: "outbox_row list \<Rightarrow> outbox_row list"

text \<open>The failure of one statement: the error and whether the server had applied it.\<close>

type_synonym exec_fault = "(go_error \<times> bool) option"

section \<open>Constraints of the migration\<close>

definition subject_check_pattern :: rexp where
  "subject_check_pattern =
     RSeq (RText ''manoreck.events.'')
       (RSeq (RClass name_start)
         (RSeq (RStar (RClass (name_rest @ [(CHR ''.'', CHR ''.'')])))
           (RSeq (RText ''.v'')
             (RSeq (RClass [(CHR ''1'', CHR ''9'')]) (RStar (RClass [(CHR ''0'', CHR ''9'')]))))))"

definition null_or_equal :: "string option \<Rightarrow> string \<Rightarrow> bool" where
  "null_or_equal field value = (case field of None \<Rightarrow> True | Some s \<Rightarrow> s = value)"

definition null_or_version :: "string option \<Rightarrow> int \<Rightarrow> bool" where
  "null_or_version field v = (case field of None \<Rightarrow> True | Some s \<Rightarrow> Atoi s = Some v)"

definition payload_identity :: "pg \<Rightarrow> outbox_row \<Rightarrow> bool" where
  "payload_identity q r \<longleftrightarrow>
     null_or_equal (jsonb_field q (row_payload r) ''id'') (row_id r)
     \<and> null_or_equal (jsonb_field q (row_payload r) ''type'') (row_event_type r)
     \<and> null_or_version (jsonb_field q (row_payload r) ''version'') (row_event_version r)"

definition lease_state :: "outbox_row \<Rightarrow> bool" where
  "lease_state r \<longleftrightarrow>
     (row_status r = Publishing \<and> row_lease_owner r \<noteq> None \<and> row_lease_expires_at r \<noteq> None)
     \<or> (row_status r \<noteq> Publishing \<and> row_lease_owner r = None \<and> row_lease_expires_at r = None)"

definition terminal_state :: "outbox_row \<Rightarrow> bool" where
  "terminal_state r \<longleftrightarrow>
     (row_status r = Published \<and> row_published_at r \<noteq> None \<and> row_dead_lettered_at r = None)
     \<or> (row_status r = DeadLetter \<and> row_dead_lettered_at r \<noteq> None \<and> row_published_at r = None)
     \<or> ((row_status r = Pending \<or> row_status r = Publishing) \<and> row_published_at r = None
        \<and> row_dead_lettered_at r = None)"

definition row_constraints :: "pg \<Rightarrow> outbox_row \<Rightarrow> bool" where
  "row_constraints q r \<longleftrightarrow>
     0 < row_event_version r \<and> in_i32 (row_event_version r)
     \<and> jsonb_object q (row_payload r)
     \<and> 0 \<le> row_attempt_count r \<and> in_i32 (row_attempt_count r)
     \<and> MatchString eventTypePattern (row_event_type r)
     \<and> MatchString aggregateTypePattern (row_aggregate_type r)
     \<and> MatchString subject_check_pattern (row_subject r)
     \<and> payload_identity q r \<and> lease_state r \<and> terminal_state r"

definition table_ok :: "pg \<Rightarrow> outbox_table \<Rightarrow> bool" where
  "table_ok q t \<longleftrightarrow> distinct (map row_id t) \<and> list_all (row_constraints q) t"

section \<open>Insert\<close>

definition uuid_arg :: "pg \<Rightarrow> string \<Rightarrow> string result" where
  "uuid_arg q s =
     (case to_uuid q s of None \<Rightarrow> Inl (External ''invalid uuid argument'') | Some u \<Rightarrow> Inr u)"

definition optional_uuid_arg :: "pg \<Rightarrow> string option \<Rightarrow> string option result" where
  "optional_uuid_arg q t =
     (case t of None \<Rightarrow> Inr None | Some s \<Rightarrow> bindR (uuid_arg q s) (\<lambda>u. Inr (Some u)))"

definition new_row :: "int \<Rightarrow> envelope \<Rightarrow> string \<Rightarrow> string \<Rightarrow> string option \<Rightarrow> string \<Rightarrow> string \<Rightarrow> string
    \<Rightarrow> string \<Rightarrow> outbox_row" where
  "new_row now e eid subject tenant aggregate correlation causation payload =
     \<lparr>row_id = eid, row_tenant_id = tenant, row_event_type = env_type e,
      row_event_version = env_version e, row_aggregate_type = agg_type (env_aggregate e),
      row_aggregate_id = aggregate, row_subject = subject, row_occurred_at = occurred_at e div 1000,
      row_correlation_id = correlation, row_causation_id = causation, row_payload = payload,
      row_status = Pending, row_attempt_count = 0, row_next_attempt_at = now,
      row_lease_owner = None, row_lease_expires_at = None, row_published_at = None,
      row_dead_lettered_at = None, row_last_error_code = None, row_created_at = now,
      row_updated_at = now\<rparr>"

definition sql_insert_event :: "pg \<Rightarrow> go_error option \<Rightarrow> int \<Rightarrow> envelope \<Rightarrow> string \<Rightarrow> string \<Rightarrow> outbox_table
    \<Rightarrow> outbox_table result" where
  "sql_insert_event q fault now e subject payload t =
     (case fault of
        Some err \<Rightarrow> Inl err
      | None \<Rightarrow>
          bindR (uuid_arg q (env_id e)) (\<lambda>eid.
          bindR (optional_uuid_arg q (tenant_id e)) (\<lambda>tenant.
          bindR (uuid_arg q (agg_id (env_aggregate e))) (\<lambda>aggregate.
          bindR (uuid_arg q (correlation_id e)) (\<lambda>correlation.
          bindR (uuid_arg q (causation_id e)) (\<lambda>causation.
            if \<not> in_i32 (env_version e) then Inl (External ''event_version out of range'')
            else case jsonb_text q payload of
                None \<Rightarrow> Inl (External ''invalid json payload'')
              | Some stored \<Rightarrow>
                  let row = new_row now e eid subject tenant aggregate correlation causation stored
                  in if \<not> row_constraints q row then Inl (External ''check constraint violation'')
                     else if list_ex (\<lambda>r. row_id r = eid) t then Inl (External ''duplicate key'')
                     else Inr (t @ [row])))))))"

definition Insert :: "pg \<Rightarrow> go_error option \<Rightarrow> int \<Rightarrow> envelope \<Rightarrow> outbox_table
    \<Rightarrow> go_error option \<times> outbox_table" where
  "Insert q fault now e t =
     (case Validate e of
        Some err \<Rightarrow> (Some (wrapf ''validate outbox event: %w'' err), t)
      | None \<Rightarrow>
     (case Subject e of
        Inl err \<Rightarrow> (Some (wrapf ''create outbox subject: %w'' err), t)
      | Inr subject \<Rightarrow>
     (case marshal_envelope e of
        Inl err \<Rightarrow> (Some (wrapf ''marshal outbox event: %w'' err), t)
      | Inr payload \<Rightarrow>
     (case sql_insert_event q fault now e subject payload t of
        Inl err \<Rightarrow> (Some (wrapf ''insert outbox event: %w'' err), t)
      | Inr t' \<Rightarrow> (None, t')))))"

section \<open>Claim\<close>

definition due :: "int \<Rightarrow> outbox_row \<Rightarrow> bool" where
  "due now r \<longleftrightarrow>
     (row_status r = Pending \<and> row_next_attempt_at r \<le> now)
     \<or> (row_status r = Publishing
        \<and> (case row_lease_expires_at r of None \<Rightarrow> False | Some x \<Rightarrow> x \<le> now))"

definition claim_candidates :: "int \<Rightarrow> (string \<Rightarrow> bool) \<Rightarrow> nat \<Rightarrow> outbox_table \<Rightarrow> outbox_table" where
  "claim_candidates now locked limit t =
     take limit (sort_key (\<lambda>r. (row_created_at r, row_id r))
       (filter (\<lambda>r. due now r \<and> \<not> locked (row_id r)) t))"

definition claim_row :: "int \<Rightarrow> string \<Rightarrow> int \<Rightarrow> outbox_row \<Rightarrow> outbox_row" where
  "claim_row now worker lease r =
     r\<lparr>row_status := Publishing, row_attempt_count := row_attempt_count r + 1,
       row_lease_owner := Some worker, row_lease_expires_at := Some (now + lease),
       row_updated_at := now\<rparr>"

definition sql_claim :: "pg \<Rightarrow> int \<Rightarrow> (string \<Rightarrow> bool) \<Rightarrow> string \<Rightarrow> int \<Rightarrow> nat \<Rightarrow> outbox_table
    \<Rightarrow> (outbox_row list \<times> outbox_table) result" where
  "sql_claim q now locked worker lease limit t =
     (let ids = map row_id (claim_candidates now locked limit t) in
      if list_ex (\<lambda>r. row_id r \<in> set ids \<and> row_attempt_count r + 1 \<ge> 2 ^ 31) t
      then Inl (External ''attempt_count out of range'')
      else
        let t' = map (\<lambda>r. if row_id r \<in> set ids then claim_row now worker lease r else r) t
        in Inr (returning_order q (filter (\<lambda>r. row_id r \<in> set ids) t'), t'))"

record claim_env =
  ce_now :: int
  ce_locked :: "string \<Rightarrow> bool"
  ce_query_err :: "go_error option"
  ce_scan_err :: "nat \<Rightarrow> go_error option"
  ce_rows_end :: "(nat \<times> go_error) option"
  ce_tx :: tx_env

fun scan_claimed :: "(nat \<Rightarrow> go_error option) \<Rightarrow> nat \<Rightarrow> outbox_row list \<Rightarrow> outbox_record list
    \<Rightarrow> go_error option \<times> outbox_record list" where
  "scan_claimed scan_err i [] records = (None, records)"
| "scan_claimed scan_err i (r # rs) records =
     (case scan_err i of
        Some err \<Rightarrow> (Some (wrapf ''scan claimed outbox event: %w'' err), records)
      | None \<Rightarrow>
     (case unmarshal_envelope (row_payload r) of
        Inl err \<Rightarrow> (Some (wrapf ''decode claimed outbox event: %w'' err), records)
      | Inr e \<Rightarrow>
     (case Validate e of
        Some err \<Rightarrow> (Some (wrapf ''validate claimed outbox event: %w'' err), records)
      | None \<Rightarrow>
          scan_claimed scan_err (Suc i) rs
            (records @ [\<lparr>rec_envelope = e, rec_subject = row_subject r,
                         rec_attempt = row_attempt_count r\<rparr>]))))"

definition claim_operation :: "pg \<Rightarrow> claim_env \<Rightarrow> string \<Rightarrow> int \<Rightarrow> duration \<Rightarrow> outbox_table
    \<Rightarrow> (outbox_record list, outbox_table) op_result" where
  "claim_operation q env workerID limit leaseDuration t =
     (case ce_query_err env of
        Some err \<Rightarrow> OpDone (Some (wrapf ''claim outbox events: %w'' err)) [] t
      | None \<Rightarrow>
     (case bindR (uuid_arg q workerID) (\<lambda>worker.
             sql_claim q (ce_now env) (ce_locked env) worker (quot leaseDuration 1000) (nat limit) t) of
        Inl err \<Rightarrow> OpDone (Some (wrapf ''claim outbox events: %w'' err)) [] t
      | Inr (rows, t') \<Rightarrow>
          let delivered = (case ce_rows_end env of None \<Rightarrow> rows | Some (k, err) \<Rightarrow> take k rows)
          in case scan_claimed (ce_scan_err env) 0 delivered [] of
               (Some err, records) \<Rightarrow> OpDone (Some err) records t'
             | (None, records) \<Rightarrow>
                 (case ce_rows_end env of
                    Some (k, err) \<Rightarrow>
                      OpDone (Some (wrapf ''iterate claimed outbox events: %w'' err)) records t'
                  | None \<Rightarrow> OpDone None records t')))"

text \<open>The operation never panics, so neither does the transaction; the last branch only keeps the
  result type simple.\<close>

definition Claim :: "pg \<Rightarrow> 'pool database \<Rightarrow> claim_env \<Rightarrow> string \<Rightarrow> int \<Rightarrow> duration \<Rightarrow> outbox_table
    \<Rightarrow> outbox_record list result \<times> outbox_table" where
  "Claim q db env workerID limit leaseDuration t =
     (if \<not> IsUUIDv7 workerID then (Inl (errorf ''outbox worker ID must be a UUIDv7''), t)
      else if limit < 1 \<or> limit > 1000 then
        (Inl (errorf ''outbox claim limit must be between 1 and 1000''), t)
      else if leaseDuration \<le> 0 then (Inl (errorf ''outbox lease duration must be positive''), t)
      else
        let r = InTransaction db (ce_tx env)
                  (Some (claim_operation q env workerID limit leaseDuration)) t
        in case tx_outcome r of
             Returns None \<Rightarrow> (Inr (case tx_captured r of None \<Rightarrow> [] | Some records \<Rightarrow> records), tx_db r)
           | Returns (Some err) \<Rightarrow> (Inl err, tx_db r)
           | Panics msg \<Rightarrow> (Inl (External msg), tx_db r))"

section \<open>Completing a lease\<close>

definition leased_by :: "string \<Rightarrow> string \<Rightarrow> outbox_row \<Rightarrow> bool" where
  "leased_by eid worker r \<longleftrightarrow>
     row_id r = eid \<and> row_status r = Publishing \<and> row_lease_owner r = Some worker"

definition publish_row :: "int \<Rightarrow> outbox_row \<Rightarrow> outbox_row" where
  "publish_row now r =
     r\<lparr>row_status := Published, row_published_at := Some now, row_lease_owner := None,
       row_lease_expires_at := None, row_last_error_code := None, row_updated_at := now\<rparr>"

definition dead_letter_now :: "failure_class \<Rightarrow> int \<Rightarrow> outbox_row \<Rightarrow> bool" where
  "dead_letter_now class maxAttempts r \<longleftrightarrow> class = ''permanent'' \<or> row_attempt_count r \<ge> maxAttempts"

definition fail_row :: "int \<Rightarrow> failure_class \<Rightarrow> int \<Rightarrow> int \<Rightarrow> string \<Rightarrow> outbox_row \<Rightarrow> outbox_row" where
  "fail_row now class maxAttempts nextAttempt errorCode r =
     r\<lparr>row_status := (if dead_letter_now class maxAttempts r then DeadLetter else Pending),
       row_next_attempt_at := nextAttempt, row_lease_owner := None, row_lease_expires_at := None,
       row_dead_lettered_at := (if dead_letter_now class maxAttempts r then Some now else None),
       row_last_error_code := Some errorCode, row_updated_at := now\<rparr>"

definition sql_update_leased :: "string \<Rightarrow> string \<Rightarrow> (outbox_row \<Rightarrow> outbox_row) \<Rightarrow> outbox_table
    \<Rightarrow> nat \<times> outbox_table" where
  "sql_update_leased eid worker f t =
     (length (filter (leased_by eid worker) t),
      map (\<lambda>r. if leased_by eid worker r then f r else r) t)"

text \<open>\<open>pool.Exec\<close> of an update of the leased row, and the check of \<open>RowsAffected\<close>.\<close>

definition exec_leased :: "pg \<Rightarrow> exec_fault \<Rightarrow> string \<Rightarrow> string \<Rightarrow> string \<Rightarrow> string
    \<Rightarrow> (outbox_row \<Rightarrow> outbox_row) \<Rightarrow> outbox_table \<Rightarrow> go_error option \<times> outbox_table" where
  "exec_leased q fault failed lost eventID workerID f t =
     (case bindR (uuid_arg q eventID) (\<lambda>eid. bindR (uuid_arg q workerID) (\<lambda>worker.
             Inr (sql_update_leased eid worker f t))) of
        Inl err \<Rightarrow> (Some (wrapf failed err), t)
      | Inr (affected, t') \<Rightarrow>
          (case fault of
             Some (err, applied) \<Rightarrow> (Some (wrapf failed err), if applied then t' else t)
           | None \<Rightarrow>
               if affected \<noteq> 1 then (Some (errorf lost), t') else (None, t')))"

definition MarkPublished :: "pg \<Rightarrow> 'pool database \<Rightarrow> exec_fault \<Rightarrow> int \<Rightarrow> string \<Rightarrow> string \<Rightarrow> outbox_table
    \<Rightarrow> go_error option \<times> outbox_table" where
  "MarkPublished q db fault now eventID workerID t =
     (case database_Pool db of
        Inl err \<Rightarrow> (Some err, t)
      | Inr pool \<Rightarrow>
          exec_leased q fault ''mark outbox event published: %w''
            ''outbox publication lease is no longer owned'' eventID workerID (publish_row now) t)"

definition MarkFailed :: "pg \<Rightarrow> 'pool database \<Rightarrow> exec_fault \<Rightarrow> int \<Rightarrow> string \<Rightarrow> string \<Rightarrow> failure_class \<Rightarrow> int
    \<Rightarrow> time \<Rightarrow> string \<Rightarrow> outbox_table \<Rightarrow> go_error option \<times> outbox_table" where
  "MarkFailed q db fault now eventID workerID class maxAttempts nextAttemptAt errorCode t =
     (if class \<noteq> FailureTransient \<and> class \<noteq> FailurePermanent then
        (Some (Errorf ''unknown outbox failure class %q'' [FStr class] None), t)
      else if maxAttempts < 1 then (Some (errorf ''outbox maximum attempts must be positive''), t)
      else if errorCode = [] then (Some (errorf ''outbox failure code must not be empty''), t)
      else
        (case database_Pool db of
           Inl err \<Rightarrow> (Some err, t)
         | Inr pool \<Rightarrow>
             if \<not> in_i32 maxAttempts then
               (Some (wrapf ''record outbox publication failure: %w'' (External ''attempt limit out of range'')), t)
             else
             exec_leased q fault ''record outbox publication failure: %w''
               ''outbox failure lease is no longer owned'' eventID workerID
               (fail_row now class maxAttempts (nextAttemptAt div 1000) errorCode) t))"

section \<open>Steps of the table\<close>

text \<open>
  The table under any sequence of repository calls by any workers, with any outcome of the
  connection. (An insertion is committed by its caller's transaction; a rolled back one is no
  step.) \<open>lifecycle\<close> is the abstract state machine of one event.
\<close>

inductive outbox_step :: "pg \<Rightarrow> outbox_table \<Rightarrow> outbox_table \<Rightarrow> bool" for q where
  step_insert: "Insert q fault now e t = (err, t') \<Longrightarrow> outbox_step q t t'"
| step_claim: "Claim q (db :: unit database) env worker limit lease t = (res, t') \<Longrightarrow> outbox_step q t t'"
| step_published: "MarkPublished q (db :: unit database) fault now eid worker t = (err, t') \<Longrightarrow> outbox_step q t t'"
| step_failed: "MarkFailed q (db :: unit database) fault now eid worker class maxAttempts next code t = (err, t')
    \<Longrightarrow> outbox_step q t t'"

inductive reachable_table :: "pg \<Rightarrow> outbox_table \<Rightarrow> bool" for q where
  reach_empty: "reachable_table q []"
| reach_step: "reachable_table q t \<Longrightarrow> outbox_step q t t' \<Longrightarrow> reachable_table q t'"

inductive lifecycle :: "outbox_status \<Rightarrow> outbox_status \<Rightarrow> bool" where
  lc_claim: "lifecycle Pending Publishing"
| lc_reclaim: "lifecycle Publishing Publishing"
| lc_publish: "lifecycle Publishing Published"
| lc_retry: "lifecycle Publishing Pending"
| lc_dead: "lifecycle Publishing DeadLetter"

inductive_simps lifecycle_from:
  "lifecycle Pending s" "lifecycle Publishing s" "lifecycle Published s" "lifecycle DeadLetter s"

definition row_of :: "outbox_table \<Rightarrow> string \<Rightarrow> outbox_row option" where
  "row_of t eid = find (\<lambda>r. row_id r = eid) t"

section \<open>Lemmas: single rows\<close>

lemma row_id_updates [simp]:
  "row_id (claim_row now w l r) = row_id r"
  "row_id (publish_row now r) = row_id r"
  "row_id (fail_row now c m n e r) = row_id r"
  by (simp_all add: claim_row_def publish_row_def fail_row_def)

lemma claim_row_constraints [inv_intros]:
  "row_constraints q r \<Longrightarrow> due now r \<Longrightarrow> row_attempt_count r + 1 < 2 ^ 31 \<Longrightarrow>
    row_constraints q (claim_row now' w l r)"
  by (auto simp: row_constraints_def claim_row_def payload_identity_def lease_state_def
      terminal_state_def in_i32_def due_def)

lemma publish_row_constraints [inv_intros]:
  "row_constraints q r \<Longrightarrow> row_status r = Publishing \<Longrightarrow> row_constraints q (publish_row now r)"
  by (auto simp: row_constraints_def publish_row_def payload_identity_def lease_state_def
      terminal_state_def)

lemma fail_row_constraints [inv_intros]:
  "row_constraints q r \<Longrightarrow> row_status r = Publishing \<Longrightarrow> row_constraints q (fail_row now c m n e r)"
  by (auto simp: row_constraints_def fail_row_def payload_identity_def lease_state_def
      terminal_state_def)

section \<open>Lemmas: tables\<close>

lemma row_of_Some_iff:
  "distinct (map row_id t) \<Longrightarrow> row_of t eid = Some r \<longleftrightarrow> r \<in> set t \<and> row_id r = eid"
proof (induction t)
  case (Cons a t)
  then show ?case by (auto simp: row_of_def)
qed (simp add: row_of_def)

lemma row_of_None_iff: "row_of t eid = None \<longleftrightarrow> eid \<notin> row_id ` set t"
  by (auto simp: row_of_def find_None_iff)

lemma row_of_map:
  assumes "\<And>r. row_id (f r) = row_id r"
  shows "row_of (map f t) eid = map_option f (row_of t eid)"
  by (induction t) (auto simp: row_of_def assms)

lemma row_of_append: "row_of (t @ u) eid = (case row_of t eid of Some r \<Rightarrow> Some r | None \<Rightarrow> row_of u eid)"
  by (induction t) (auto simp: row_of_def)

lemma table_ok_map [inv_intros]:
  assumes "table_ok q t" and "\<And>r. row_id (f r) = row_id r"
    and "\<And>r. r \<in> set t \<Longrightarrow> row_constraints q r \<Longrightarrow> row_constraints q (f r)"
  shows "table_ok q (map f t)"
proof -
  have "map row_id (map f t) = map row_id t"
    using assms(2) by simp
  then show ?thesis
    using assms unfolding table_ok_def by (auto simp: list_all_iff simp del: map_map)
qed

definition claimed :: "int \<Rightarrow> (string \<Rightarrow> bool) \<Rightarrow> nat \<Rightarrow> outbox_table \<Rightarrow> string set" where
  "claimed now locked limit t = set (map row_id (claim_candidates now locked limit t))"

definition claim_table :: "int \<Rightarrow> (string \<Rightarrow> bool) \<Rightarrow> nat \<Rightarrow> string \<Rightarrow> int \<Rightarrow> outbox_table \<Rightarrow> outbox_table" where
  "claim_table now locked limit worker lease t =
     map (\<lambda>r. if row_id r \<in> claimed now locked limit t then claim_row now worker lease r else r) t"

lemma candidates_subset:
  "set (claim_candidates now locked limit t) \<subseteq> {r \<in> set t. due now r \<and> \<not> locked (row_id r)}"
  by (auto simp: claim_candidates_def dest: in_set_takeD)

lemma claimed_due:
  assumes "distinct (map row_id t)" "r \<in> set t" "row_id r \<in> claimed now locked limit t"
  shows "due now r" and "\<not> locked (row_id r)"
proof -
  obtain r' where "r' \<in> set t" "row_id r' = row_id r" "due now r'" "\<not> locked (row_id r')"
    using assms(3) candidates_subset [of now locked limit t] by (auto simp: claimed_def)
  moreover from this have "r' = r"
    using assms(1,2) by (metis inj_on_def distinct_map)
  ultimately show "due now r" "\<not> locked (row_id r)" by auto
qed

lemma sql_claim_Inr:
  "sql_claim q now locked worker lease limit t = Inr (rows, t') \<longleftrightarrow>
    (\<forall>r \<in> set t. row_id r \<in> claimed now locked limit t \<longrightarrow> row_attempt_count r + 1 < 2 ^ 31)
    \<and> t' = claim_table now locked limit worker lease t
    \<and> rows = returning_order q (filter (\<lambda>r. row_id r \<in> claimed now locked limit t) t')"
  by (auto simp: sql_claim_def Let_def claim_table_def claimed_def list_ex_iff not_le)

lemma claim_table_ok [inv_intros]:
  assumes ok: "table_ok q t"
    and "\<forall>r \<in> set t. row_id r \<in> claimed now locked limit t \<longrightarrow> row_attempt_count r + 1 < 2 ^ 31"
  shows "table_ok q (claim_table now locked limit worker lease t)"
  unfolding claim_table_def
proof (rule table_ok_map [OF ok])
  fix r assume "r \<in> set t" "row_constraints q r"
  then show "row_constraints q (if row_id r \<in> claimed now locked limit t then claim_row now worker lease r else r)"
    using assms claimed_due(1) [of t r now locked limit]
    by (auto intro!: claim_row_constraints simp: table_ok_def)
qed simp

lemma update_leased_ok [inv_intros]:
  assumes "table_ok q t" and "\<And>r. row_id (f r) = row_id r"
    and "\<And>r. row_constraints q r \<Longrightarrow> row_status r = Publishing \<Longrightarrow> row_constraints q (f r)"
  shows "table_ok q (snd (sql_update_leased eid worker f t))"
  unfolding sql_update_leased_def snd_conv
  by (rule table_ok_map [OF assms(1)]) (auto simp: assms(2,3) leased_by_def)

section \<open>Lemmas: operations\<close>

definition record_of_row :: "outbox_row \<Rightarrow> outbox_record \<Rightarrow> bool" where
  "record_of_row r rec \<longleftrightarrow>
     unmarshal_envelope (row_payload r) = Inr (rec_envelope rec) \<and> Validate (rec_envelope rec) = None
     \<and> rec_subject rec = row_subject r \<and> rec_attempt rec = row_attempt_count r"

lemma scan_claimed_None:
  "scan_claimed se i rows acc = (None, recs) \<Longrightarrow>
    \<exists>new. recs = acc @ new \<and> list_all2 record_of_row rows new"
proof (induction se i rows acc rule: scan_claimed.induct)
  case (2 se i r rs acc)
  from "2.prems" obtain e where e: "se i = None" "unmarshal_envelope (row_payload r) = Inr e" "Validate e = None"
    and rest: "scan_claimed se (Suc i) rs (acc @ [\<lparr>rec_envelope = e, rec_subject = row_subject r,
        rec_attempt = row_attempt_count r\<rparr>]) = (None, recs)"
    by (auto split: option.splits sum.splits)
  from "2.IH" [OF e rest] obtain new where
    "recs = (acc @ [\<lparr>rec_envelope = e, rec_subject = row_subject r, rec_attempt = row_attempt_count r\<rparr>]) @ new"
    "list_all2 record_of_row rs new"
    by blast
  with e show ?case
    by (intro exI [of _ "\<lparr>rec_envelope = e, rec_subject = row_subject r, rec_attempt = row_attempt_count r\<rparr> # new"])
      (simp add: record_of_row_def [of r])
qed simp

lemma scan_claimed_total:
  assumes "\<And>i. se i = None"
    and "\<forall>r \<in> set rows. \<exists>e. unmarshal_envelope (row_payload r) = Inr e \<and> Validate e = None"
  shows "\<exists>recs. scan_claimed se i rows acc = (None, recs)"
  using assms by (induction se i rows acc rule: scan_claimed.induct) fastforce+

lemma claim_operation_None:
  "claim_operation q env w limit lease t = OpDone None recs t' \<Longrightarrow>
    \<exists>worker rows. to_uuid q w = Some worker
      \<and> sql_claim q (ce_now env) (ce_locked env) worker (quot lease 1000) (nat limit) t = Inr (rows, t')
      \<and> list_all2 record_of_row rows recs"
  by (auto simp: claim_operation_def uuid_arg_def Let_def split: option.splits sum.splits prod.splits
      dest!: scan_claimed_None)

lemma claim_operation_no_panic: "claim_operation q env w limit lease t \<noteq> OpPanic msg"
  by (auto simp: claim_operation_def Let_def split: option.splits sum.splits prod.splits)

text \<open>What a successful claim returns and does to the table.\<close>

lemma Claim_Inr:
  assumes "Claim q db env w limit lease t = (Inr recs, t')"
  obtains worker rows where "IsUUIDv7 w" "1 \<le> limit" "limit \<le> 1000" "0 < lease" "to_uuid q w = Some worker"
    "sql_claim q (ce_now env) (ce_locked env) worker (lease div 1000) (nat limit) t = Inr (rows, t')"
    "list_all2 record_of_row rows recs"
proof -
  let ?r = "InTransaction db (ce_tx env) (Some (claim_operation q env w limit lease)) t"
  from assms have g: "IsUUIDv7 w" "1 \<le> limit" "limit \<le> 1000" "0 < lease"
    and ok: "tx_outcome ?r = Returns None"
    and res: "recs = (case tx_captured ?r of None \<Rightarrow> [] | Some records \<Rightarrow> records)" "t' = tx_db ?r"
    by (auto simp: Claim_def Let_def split: if_splits go_outcome.splits option.splits)
  from ok obtain cap s' where "claim_operation q env w limit lease t = OpDone None cap s'"
    "tx_captured ?r = Some cap" "tx_db ?r = s'"
    by (auto simp: InTransaction_success_iff)
  with res have "claim_operation q env w limit lease t = OpDone None recs t'" by simp
  from claim_operation_None [OF this] obtain worker rows where "to_uuid q w = Some worker"
    "sql_claim q (ce_now env) (ce_locked env) worker (quot lease 1000) (nat limit) t = Inr (rows, t')"
    "list_all2 record_of_row rows recs" by blast
  with g show thesis by (intro that) (simp_all add: quot_nonneg)
qed

text \<open>Whatever a claim returns, the table is unchanged or the claim statement was applied.\<close>

lemma Claim_table_cases:
  assumes "Claim q db env w limit lease t = (res, t')"
  obtains "t' = t"
  | worker rows where "IsUUIDv7 w" "1 \<le> limit" "limit \<le> 1000" "0 < lease" "to_uuid q w = Some worker"
    "sql_claim q (ce_now env) (ce_locked env) worker (lease div 1000) (nat limit) t = Inr (rows, t')"
proof (cases "t' = t")
  case False
  let ?r = "InTransaction db (ce_tx env) (Some (claim_operation q env w limit lease)) t"
  from False assms have g: "IsUUIDv7 w" "1 \<le> limit" "limit \<le> 1000" "0 < lease" "t' = tx_db ?r"
    by (auto simp: Claim_def Let_def split: if_splits go_outcome.splits option.splits)
  with False InTransaction_db_cases [of db "ce_tx env" "Some (claim_operation q env w limit lease)" t]
  obtain cap where "claim_operation q env w limit lease t = OpDone None cap t'"
    by auto
  from claim_operation_None [OF this] g show thesis
    by (auto simp: quot_nonneg intro: that(2))
qed (rule that(1))

lemma exec_leased_table_cases:
  "exec_leased q fault failed lost eid w f t = (err, t') \<Longrightarrow>
    t' = t \<or> (\<exists>e worker. to_uuid q eid = Some e \<and> to_uuid q w = Some worker
      \<and> t' = snd (sql_update_leased e worker f t))"
  by (auto simp: exec_leased_def uuid_arg_def sql_update_leased_def split: option.splits if_splits)

lemma sql_insert_Inr:
  assumes "sql_insert_event q fault now e subject payload t = Inr t'"
  obtains eid tenant aggregate correlation causation stored where
    "to_uuid q (env_id e) = Some eid" "eid \<notin> row_id ` set t" "jsonb_text q payload = Some stored"
    "row_constraints q (new_row now e eid subject tenant aggregate correlation causation stored)"
    "t' = t @ [new_row now e eid subject tenant aggregate correlation causation stored]"
proof -
  from assms have "fault = None" by (cases fault) (simp_all add: sql_insert_event_def)
  with assms obtain eid tenant aggregate correlation causation where
    ids: "uuid_arg q (env_id e) = Inr eid" and
    rest: "(if \<not> in_i32 (env_version e) then Inl (External ''event_version out of range'')
       else case jsonb_text q payload of
          None \<Rightarrow> Inl (External ''invalid json payload'')
        | Some stored \<Rightarrow>
            let row = new_row now e eid subject tenant aggregate correlation causation stored
            in if \<not> row_constraints q row then Inl (External ''check constraint violation'')
               else if list_ex (\<lambda>r. row_id r = eid) t then Inl (External ''duplicate key'')
               else Inr (t @ [row])) = Inr t'"
    unfolding sql_insert_event_def by (simp only: bindR_Inr_iff option.case) blast
  from rest obtain stored where "jsonb_text q payload = Some stored"
    "row_constraints q (new_row now e eid subject tenant aggregate correlation causation stored)"
    "\<not> list_ex (\<lambda>r. row_id r = eid) t"
    "t' = t @ [new_row now e eid subject tenant aggregate correlation causation stored]"
    by (auto simp: Let_def split: if_splits option.splits)
  with ids show thesis
    by (intro that [of eid stored tenant aggregate correlation causation])
      (auto simp: uuid_arg_def list_ex_iff split: option.splits)
qed

lemma Insert_table_cases:
  assumes "Insert q fault now e t = (err, t')"
  obtains "t' = t" "err \<noteq> None"
  | subject payload where "err = None" "Validate e = None" "Subject e = Inr subject"
    "marshal_envelope e = Inr payload" "sql_insert_event q fault now e subject payload t = Inr t'"
  using assms
  by (auto simp: Insert_def split: option.splits sum.splits)

section \<open>Invariant and life cycle\<close>

lemma row_id_new_row [simp]: "row_id (new_row now e eid s t a c k p) = eid"
  by (simp add: new_row_def)

lemma Insert_ok [inv_intros]:
  assumes "table_ok q t" and "Insert q fault now e t = (err, t')"
  shows "table_ok q t'"
  using assms(2)
proof (cases rule: Insert_table_cases)
  case (2 subject payload)
  from 2(5) show ?thesis
    using assms(1) by (elim sql_insert_Inr) (auto simp: table_ok_def)
qed (use assms(1) in simp)

lemma Claim_ok [inv_intros]:
  assumes "table_ok q t" and "Claim q db env w limit lease t = (res, t')"
  shows "table_ok q t'"
  using assms(2)
proof (cases rule: Claim_table_cases)
  case (2 worker rows)
  then show ?thesis using assms(1) by (auto simp: sql_claim_Inr intro!: claim_table_ok)
qed (use assms(1) in simp)

lemma exec_leased_ok [inv_intros]:
  assumes "table_ok q t" and "exec_leased q fault failed lost eid w f t = (err, t')"
    and "\<And>r. row_id (f r) = row_id r"
    and "\<And>r. row_constraints q r \<Longrightarrow> row_status r = Publishing \<Longrightarrow> row_constraints q (f r)"
  shows "table_ok q t'"
  using exec_leased_table_cases [OF assms(2)] assms(1,3,4) by (auto intro: update_leased_ok)

lemma MarkPublished_ok [inv_intros]:
  "table_ok q t \<Longrightarrow> MarkPublished q db fault now eid w t = (err, t') \<Longrightarrow> table_ok q t'"
  by (auto simp: MarkPublished_def split: sum.splits
      intro: exec_leased_ok publish_row_constraints)

lemma MarkFailed_ok [inv_intros]:
  "table_ok q t \<Longrightarrow> MarkFailed q db fault now eid w c m n code t = (err, t') \<Longrightarrow> table_ok q t'"
  by (auto simp: MarkFailed_def split: sum.splits if_splits
      intro: exec_leased_ok fail_row_constraints)

lemma outbox_step_ok: "outbox_step q t t' \<Longrightarrow> table_ok q t \<Longrightarrow> table_ok q t'"
  by (induction rule: outbox_step.induct) (auto intro: inv_intros)

lemma reachable_table_ok: "reachable_table q t \<Longrightarrow> table_ok q t"
proof (induction rule: reachable_table.induct)
  case reach_empty
  then show ?case by (simp add: table_ok_def)
next
  case (reach_step t t')
  then show ?case by (blast intro: outbox_step_ok)
qed

lemma row_of_claim_table:
  "row_of (claim_table now locked limit worker lease t) eid =
    map_option (\<lambda>r. if row_id r \<in> claimed now locked limit t then claim_row now worker lease r else r)
      (row_of t eid)"
  unfolding claim_table_def by (rule row_of_map) simp

lemma row_of_update_leased:
  assumes "\<And>r. row_id (f r) = row_id r"
  shows "row_of (snd (sql_update_leased e worker f t)) eid =
    map_option (\<lambda>r. if leased_by e worker r then f r else r) (row_of t eid)"
  unfolding sql_update_leased_def snd_conv by (rule row_of_map) (simp add: assms)

text \<open>The columns no operation changes.\<close>

definition event_columns :: "outbox_row \<Rightarrow> outbox_row" where
  "event_columns r =
     r\<lparr>row_status := Pending, row_attempt_count := 0, row_next_attempt_at := 0, row_lease_owner := None,
       row_lease_expires_at := None, row_published_at := None, row_dead_lettered_at := None,
       row_last_error_code := None, row_updated_at := 0\<rparr>"

lemma event_columns_updates [simp]:
  "event_columns (claim_row now w l r) = event_columns r"
  "event_columns (publish_row now r) = event_columns r"
  "event_columns (fail_row now c m n e r) = event_columns r"
  by (simp_all add: event_columns_def claim_row_def publish_row_def fail_row_def)

text \<open>One event between two tables: nothing happened, or one edge of the life cycle.\<close>

definition event_moves :: "outbox_row \<Rightarrow> outbox_row \<Rightarrow> bool" where
  "event_moves r r' \<longleftrightarrow>
     r' = r \<or> (event_columns r' = event_columns r \<and> lifecycle (row_status r) (row_status r')
       \<and> row_attempt_count r' = row_attempt_count r + (if row_status r' = Publishing then 1 else 0))"

lemma event_moves_claim: "due now r \<Longrightarrow> event_moves r (claim_row now w l r)"
  by (auto simp: event_moves_def due_def claim_row_def lifecycle_from event_columns_def)

lemma event_moves_publish: "row_status r = Publishing \<Longrightarrow> event_moves r (publish_row now r)"
  by (auto simp: event_moves_def publish_row_def lifecycle_from event_columns_def)

lemma event_moves_fail: "row_status r = Publishing \<Longrightarrow> event_moves r (fail_row now c m n e r)"
  by (auto simp: event_moves_def fail_row_def lifecycle_from event_columns_def)

lemma event_moves_refl: "event_moves r r"
  by (simp add: event_moves_def)

lemma Insert_event:
  assumes "Insert q fault now e t = (err, t')" and "row_of t eid = Some r"
  shows "row_of t' eid = Some r"
  using assms(1)
proof (cases rule: Insert_table_cases)
  case (2 subject payload)
  from 2(5) show ?thesis
    by (rule sql_insert_Inr) (simp add: row_of_append assms(2))
qed (use assms(2) in simp)

lemma Claim_event:
  assumes "table_ok q t" and "Claim q db env w limit lease t = (res, t')" and "row_of t eid = Some r"
  shows "\<exists>r'. row_of t' eid = Some r' \<and> (r' = r \<or> due (ce_now env) r
    \<and> (\<exists>worker. to_uuid q w = Some worker \<and> r' = claim_row (ce_now env) worker (lease div 1000) r))"
  using assms(2)
proof (cases rule: Claim_table_cases)
  case (2 worker rows)
  have "r \<in> set t" "distinct (map row_id t)"
    using assms(1,3) by (auto simp: table_ok_def row_of_Some_iff)
  then have "due (ce_now env) r" if "row_id r \<in> claimed (ce_now env) (ce_locked env) (nat limit) t"
    using that by (blast intro: claimed_due(1))
  with 2 show ?thesis
    by (auto simp: sql_claim_Inr row_of_claim_table assms(3))
qed (use assms(3) in simp)

lemma exec_leased_event:
  assumes "exec_leased q fault failed lost ev w f t = (err, t')" and "row_of t eid = Some r"
    and "\<And>r. row_id (f r) = row_id r"
  shows "\<exists>r'. row_of t' eid = Some r' \<and> (r' = r \<or> (\<exists>e worker. to_uuid q ev = Some e \<and> to_uuid q w = Some worker
    \<and> leased_by e worker r \<and> r' = f r))"
  using exec_leased_table_cases [OF assms(1)] row_of_update_leased [OF assms(3)] assms(2) by auto

lemma exec_leased_other:
  assumes "row_of t eid = Some r" "row_lease_owner r = Some owner" "to_uuid q w \<noteq> Some owner"
    and "\<And>r. row_id (f r) = row_id r"
  shows "row_of (snd (exec_leased q fault failed lost ev w f t)) eid = Some r"
proof -
  obtain err t' where "exec_leased q fault failed lost ev w f t = (err, t')" by fastforce
  from exec_leased_event [OF this assms(1,4)] this assms(2,3) show ?thesis
    by (auto simp: leased_by_def)
qed

lemma exec_leased_moves:
  assumes "exec_leased q fault failed lost ev w f t = (err, t')" and "row_of t eid = Some r"
    and "\<And>r. row_id (f r) = row_id r" and "\<And>r. row_status r = Publishing \<Longrightarrow> event_moves r (f r)"
  shows "\<exists>r'. row_of t' eid = Some r' \<and> event_moves r r'"
  using exec_leased_event [OF assms(1-3)] assms(4) by (auto simp: leased_by_def event_moves_refl)

lemma outbox_step_event:
  assumes "outbox_step q t t'" and "table_ok q t" and r: "row_of t eid = Some r"
  shows "\<exists>r'. row_of t' eid = Some r' \<and> event_moves r r'"
  using assms(1)
proof cases
  case (step_insert fault now e err)
  from Insert_event [OF this r] show ?thesis by (auto simp: event_moves_refl)
next
  case (step_claim db env worker limit lease res)
  from Claim_event [OF assms(2) this r] show ?thesis
    by (auto simp: event_moves_refl intro: event_moves_claim)
next
  case (step_published db fault now eid' worker err)
  then show ?thesis
    using r by (auto simp: MarkPublished_def event_moves_refl split: sum.splits
      dest!: exec_leased_moves [OF _ r] intro: event_moves_publish)
next
  case (step_failed db fault now eid' worker cls maxAttempts nxt code err)
  then show ?thesis
    using r by (auto simp: MarkFailed_def event_moves_refl split: sum.splits if_splits
      dest!: exec_leased_moves [OF _ r] intro: event_moves_fail)
qed

section \<open>Order and number of claimed rows\<close>

lemma candidates_oldest:
  assumes "r \<in> set (claim_candidates now locked limit t)"
    and "r' \<in> set t" "due now r'" "\<not> locked (row_id r')" "r' \<notin> set (claim_candidates now locked limit t)"
  shows "(row_created_at r, row_id r) \<le> (row_created_at r', row_id r')"
    and "length (claim_candidates now locked limit t) = limit"
proof -
  let ?key = "\<lambda>r. (row_created_at r, row_id r)"
  define xs where "xs = sort_key ?key (filter (\<lambda>r. due now r \<and> \<not> locked (row_id r)) t)"
  have cands: "claim_candidates now locked limit t = take limit xs"
    by (simp add: claim_candidates_def xs_def)
  have "r' \<in> set xs" using assms(2-4) by (simp add: xs_def)
  then have r': "r' \<in> set (drop limit xs)"
    using assms(5) unfolding cands by (metis Un_iff append_take_drop_id set_append)
  have "sorted (map ?key (take limit xs @ drop limit xs))"
    by (simp add: xs_def)
  then have "sorted (map ?key (take limit xs) @ map ?key (drop limit xs))"
    by (simp only: map_append)
  then show "?key r \<le> ?key r'"
    using assms(1) r' unfolding cands sorted_append by auto
  from r' show "length (claim_candidates now locked limit t) = limit"
    unfolding cands by (metis drop_eq_Nil empty_iff empty_set length_take min.absorb2 nat_le_linear)
qed

lemma length_candidates: "length (claim_candidates now locked limit t) \<le> limit"
  by (simp add: claim_candidates_def)

lemma length_filter_claimed:
  assumes "distinct (map row_id t)"
  shows "length (filter (\<lambda>r. row_id r \<in> claimed now locked limit t) t)
    = length (claim_candidates now locked limit t)"
proof -
  let ?c = "claim_candidates now locked limit t"
  have set_eq: "{r \<in> set t. row_id r \<in> claimed now locked limit t} = set ?c"
    using candidates_subset [of now locked limit t] assms
    by (auto simp: claimed_def) (metis (no_types, lifting) distinct_map inj_onD mem_Collect_eq subsetD)
  have "distinct t" using assms by (simp add: distinct_map)
  then have "distinct (filter (\<lambda>r. row_id r \<in> claimed now locked limit t) t)" and "distinct ?c"
    by (simp_all add: claim_candidates_def)
  then show ?thesis
    using set_eq by (metis distinct_card set_filter)
qed

section \<open>Go validation implies the database constraints\<close>

lemma name_segment_split:
  "name_segment s \<Longrightarrow> \<exists>c w. s = c # w \<and> in_class name_start c \<and> (\<forall>d \<in> set w. in_class name_rest d)"
  by (cases s) (auto simp: name_segment_def)

lemma dotted_chars:
  "set ss \<subseteq> Collect name_segment \<Longrightarrow> c \<in> set (dotted ss) \<Longrightarrow> in_class (name_rest @ [(CHR ''.'', CHR ''.'')]) c"
proof (induction ss rule: dotted.induct)
  case (2 s)
  then show ?case by (auto dest: name_segment_chars simp: in_class_def)
next
  case (3 s t ss)
  then show ?case
    by (auto dest: name_segment_chars simp: in_class_def byte_between_def)
qed simp

lemma subject_check:
  assumes "valid_envelope e"
  shows "MatchString subject_check_pattern (''manoreck.events.'' @ env_type e @ ''.v'' @ Itoa (env_version e))"
proof -
  from assms obtain ss where ss: "2 \<le> length ss" "set ss \<subseteq> Collect name_segment" "env_type e = dotted ss"
    and v: "1 \<le> env_version e"
    by (auto simp: valid_envelope_def)
  then obtain s rest where "ss = s # rest" by (cases ss) auto
  with ss name_segment_split [of s] obtain c w where c: "env_type e = c # w" "in_class name_start c"
    by (cases rest) auto
  have w: "\<forall>d \<in> set w. in_class (name_rest @ [(CHR ''.'', CHR ''.'')]) d"
    using dotted_chars [OF ss(2)] ss(3) c(1) by (metis list.set_intros(2))
  obtain d ds where d: "nat_text (nat (env_version e)) = d # ds"
    using nat_text_nonempty by (metis list.exhaust)
  have digits: "is_digit d" "\<forall>x \<in> set ds. is_digit x" "d \<noteq> CHR ''0''"
    using nat_text_digits [of "nat (env_version e)"] nat_text_hd [of "nat (env_version e)"] v
    by (auto simp: d list_all_iff)
  have d19: "in_class [(CHR ''1'', CHR ''9'')] d"
  proof -
    have "of_char d \<noteq> (48 :: nat)"
      using digits(3) of_char_eq_iff [of d "CHR ''0''", where ?'a = nat] by simp
    then show ?thesis
      using digits(1) by (simp add: in_class_def is_digit_def byte_between_def)
  qed
  have 1: "d # ds \<in> lang (RSeq (RClass [(CHR ''1'', CHR ''9'')]) (RStar (RClass [(CHR ''0'', CHR ''9'')])))"
    using d19 digits(2) by (simp only: lang_class_then_class) (auto simp: in_class_def is_digit_def)
  have 2: "w \<in> lang (RStar (RClass (name_rest @ [(CHR ''.'', CHR ''.'')])))"
    using w by (simp add: star_class_iff)
  have 3: "[c] \<in> lang (RClass name_start)"
    using c(2) by simp
  have "''manoreck.events.'' @ [c] @ w @ ''.v'' @ (d # ds) \<in> lang subject_check_pattern"
    unfolding subject_check_pattern_def
    by (intro RSeq_langI 1 2 3) (simp_all only: lang_RText singletonI)
  moreover have "''manoreck.events.'' @ env_type e @ ''.v'' @ Itoa (env_version e)
      = ''manoreck.events.'' @ [c] @ w @ ''.v'' @ (d # ds)"
    using v by (simp add: c(1) Itoa_def d)
  ultimately show ?thesis by (simp only: MatchString_lang)
qed

lemma new_row_constraints:
  assumes "valid_envelope e" "Subject e = Inr subject" "in_i32 (env_version e)" "jsonb_object q stored"
    and "null_or_equal (jsonb_field q stored ''id'') eid"
    and "null_or_equal (jsonb_field q stored ''type'') (env_type e)"
    and "null_or_version (jsonb_field q stored ''version'') (env_version e)"
  shows "row_constraints q (new_row now e eid subject tenant aggregate correlation causation stored)"
proof -
  have "MatchString eventTypePattern (env_type e)" "MatchString aggregateTypePattern (agg_type (env_aggregate e))"
    "0 < env_version e"
    using assms(1) by (auto simp: valid_envelope_def eventTypePattern_iff aggregateTypePattern_iff)
  moreover have "MatchString subject_check_pattern subject"
    using assms(2) subject_check [OF assms(1)] by (simp add: Subject_ok_iff)
  ultimately show ?thesis
    using assms(3-7)
    by (simp add: row_constraints_def new_row_def payload_identity_def lease_state_def terminal_state_def in_i32_def)
qed

section \<open>Properties\<close>

text \<open>A concrete server for the witnesses.\<close>

definition demo_pg :: pg where
  "demo_pg = \<lparr>to_uuid = Some, jsonb_text = Some, jsonb_object = (\<lambda>_. True), jsonb_field = (\<lambda>_ _. None),
     returning_order = (\<lambda>rows. rows)\<rparr>"

definition demo_row :: outbox_row where
  "demo_row = new_row 100 probe_envelope (probe_id CHR ''1'') ''manoreck.events.infrastructure.probe.v1'' None
     (probe_id CHR ''2'') (probe_id CHR ''3'') (probe_id CHR ''4'') probe_text"

lemma demo_fields:
  "row_id demo_row = probe_id CHR ''1''" "row_status demo_row = Pending" "row_attempt_count demo_row = 0"
  "row_next_attempt_at demo_row = 100" "row_created_at demo_row = 100" "row_payload demo_row = probe_text"
  "row_subject demo_row = ''manoreck.events.infrastructure.probe.v1''"
  by (simp_all add: demo_row_def new_row_def)

lemma demo_insert: "Insert demo_pg None 100 probe_envelope [] = (None, [demo_row])"
proof -
  have subject: "Subject probe_envelope = Inr ''manoreck.events.infrastructure.probe.v1''" by code_simp
  have "sql_insert_event demo_pg None 100 probe_envelope ''manoreck.events.infrastructure.probe.v1'' probe_text [] = Inr [demo_row]"
    by code_simp
  with subject show ?thesis by (simp add: Insert_def probe_valid probe_marshal)
qed

lemma demo_table_ok: "table_ok demo_pg [demo_row]"
  by (rule Insert_ok [OF _ demo_insert]) (simp add: table_ok_def)

lemma demo_reachable: "reachable_table demo_pg [demo_row]"
  by (rule reach_step [OF reach_empty]) (rule step_insert [OF demo_insert])

definition demo_claim_env :: claim_env where
  "demo_claim_env = \<lparr>ce_now = 200, ce_locked = (\<lambda>_. False), ce_query_err = None, ce_scan_err = (\<lambda>_. None),
     ce_rows_end = None, ce_tx = quiet_tx\<rparr>"

definition demo_claimed_row :: outbox_row where
  "demo_claimed_row = claim_row 200 (probe_id CHR ''9'') 30000000 demo_row"

lemma demo_claimed_fields:
  "row_id demo_claimed_row = probe_id CHR ''1''" "row_status demo_claimed_row = Publishing"
  "row_attempt_count demo_claimed_row = 1" "row_lease_owner demo_claimed_row = Some (probe_id CHR ''9'')"
  "row_lease_expires_at demo_claimed_row = Some 30000200"
  by (simp_all add: demo_claimed_row_def claim_row_def demo_fields)

definition demo_record :: outbox_record where
  "demo_record = \<lparr>rec_envelope = probe_envelope, rec_subject = ''manoreck.events.infrastructure.probe.v1'',
     rec_attempt = 1\<rparr>"

lemma demo_claim_limit:
  assumes "limit = 10 \<or> limit = 100"
  shows "Claim demo_pg running_db demo_claim_env (probe_id CHR ''9'') limit (30 * Second) [demo_row]
    = (Inr [demo_record], [demo_claimed_row])"
proof -
  have worker: "IsUUIDv7 (probe_id CHR ''9'')" by code_simp
  have "claim_candidates 200 (\<lambda>_. False) (nat limit) [demo_row] = [demo_row]"
    using assms by (auto simp: claim_candidates_def due_def demo_fields)
  then have claimed: "sql_claim demo_pg 200 (\<lambda>_. False) (probe_id CHR ''9'') (quot (30 * Second) 1000) (nat limit) [demo_row]
      = Inr ([demo_claimed_row], [demo_claimed_row])"
    by (simp add: sql_claim_def demo_claimed_row_def demo_fields demo_pg_def Let_def Second_def quot_def in_i32_def)
  have scanned: "scan_claimed (\<lambda>_. None) 0 [demo_claimed_row] [] = (None, [demo_record])"
    by (simp add: demo_claimed_row_def demo_row_def claim_row_def new_row_def probe_unmarshal_envelope probe_valid demo_record_def)
  have "claim_operation demo_pg demo_claim_env (probe_id CHR ''9'') limit (30 * Second) [demo_row]
      = OpDone None [demo_record] [demo_claimed_row]"
    using claimed scanned by (simp add: claim_operation_def demo_claim_env_def uuid_arg_def) (simp add: demo_pg_def)
  then show ?thesis
    using worker assms
    by (auto simp: Claim_def InTransaction_def database_Pool_def running_db_def demo_claim_env_def quiet_tx_def Second_def Let_def)
qed

lemma demo_claim:
  "Claim demo_pg running_db demo_claim_env (probe_id CHR ''9'') 10 (30 * Second) [demo_row]
    = (Inr [demo_record], [demo_claimed_row])"
  by (rule demo_claim_limit) simp

text \<open>
  C3. Every table that any sequence of repository calls can reach from the empty table, by any
  workers and with any connection failures, satisfies all \<open>CHECK\<close> constraints of the migration
  (lease and terminal columns agree with the status, formats hold) and has unique event ids.
\<close>

theorem outbox_constraints:
  assumes "reachable_table q t"
  shows "distinct (map row_id t) \<and> (\<forall>r \<in> set t. row_constraints q r)"
  using reachable_table_ok [OF assms] by (simp add: table_ok_def list_all_iff)

theorem outbox_constraints_witness:
  "reachable_table demo_pg [demo_row] \<and> row_constraints demo_pg demo_row"
  using outbox_constraints [OF demo_reachable] demo_reachable by simp

text \<open>
  C4. Refinement of the event life cycle: each repository call leaves a stored event as it is or
  moves it along one edge of \<open>lifecycle\<close>; its identity, subject and payload never change, an
  attempt is counted exactly by a claim, and a published or dead-lettered event is final.
\<close>

theorem outbox_lifecycle:
  assumes "reachable_table q t" and "outbox_step q t t'" and "row_of t eid = Some r"
  shows "\<exists>r'. row_of t' eid = Some r' \<and> event_columns r' = event_columns r
    \<and> (r' = r \<or> lifecycle (row_status r) (row_status r')
         \<and> row_attempt_count r' = row_attempt_count r + (if row_status r' = Publishing then 1 else 0))
    \<and> (row_status r \<in> {Published, DeadLetter} \<longrightarrow> r' = r)"
  using outbox_step_event [OF assms(2) reachable_table_ok [OF assms(1)] assms(3)]
  by (auto simp: event_moves_def lifecycle_from)

theorem outbox_lifecycle_witness:
  "outbox_step demo_pg [demo_row] [demo_claimed_row]
   \<and> (\<exists>r'. row_of [demo_claimed_row] (probe_id CHR ''1'') = Some r'
        \<and> lifecycle (row_status demo_row) (row_status r') \<and> row_attempt_count r' = 1)"
proof -
  have step: "outbox_step demo_pg [demo_row] [demo_claimed_row]"
    by (rule step_claim [OF demo_claim])
  moreover have "row_of [demo_row] (probe_id CHR ''1'') = Some demo_row"
    "row_of [demo_claimed_row] (probe_id CHR ''1'') = Some demo_claimed_row"
    "row_attempt_count demo_claimed_row = 1"
    by (simp_all add: row_of_def demo_fields demo_claimed_fields)
  moreover have "demo_claimed_row \<noteq> demo_row"
    using demo_fields(3) demo_claimed_fields(3) by (metis zero_neq_one)
  ultimately show ?thesis
    using outbox_lifecycle [OF demo_reachable step, of "probe_id CHR ''1''" demo_row] by auto
qed

text \<open>
  C5. Lease exclusivity: while a lease has not expired, no claim (by any worker) touches the
  event, and nobody but the lease owner can complete or fail it.
\<close>

theorem lease_exclusive:
  assumes "table_ok q t" and "row_of t eid = Some r" and "row_status r = Publishing"
    and "row_lease_owner r = Some owner" and "row_lease_expires_at r = Some expires"
  shows "(ce_now env < expires \<longrightarrow> row_of (snd (Claim q db env w limit lease t)) eid = Some r)
    \<and> (to_uuid q w \<noteq> Some owner \<longrightarrow> row_of (snd (MarkPublished q db fault now ev w t)) eid = Some r)
    \<and> (to_uuid q w \<noteq> Some owner \<longrightarrow>
         row_of (snd (MarkFailed q db fault now ev w cls maxAttempts next code t)) eid = Some r)"
proof (intro conjI impI)
  assume "ce_now env < expires"
  then have "\<not> due (ce_now env) r" using assms(3,5) by (simp add: due_def)
  then show "row_of (snd (Claim q db env w limit lease t)) eid = Some r"
    using Claim_event [OF assms(1) prod.collapse [symmetric] assms(2)] by blast
next
  assume "to_uuid q w \<noteq> Some owner"
  then show "row_of (snd (MarkPublished q db fault now ev w t)) eid = Some r"
    using assms(2,4) by (auto simp: MarkPublished_def exec_leased_other split: sum.splits)
next
  assume "to_uuid q w \<noteq> Some owner"
  then show "row_of (snd (MarkFailed q db fault now ev w cls maxAttempts next code t)) eid = Some r"
    using assms(2,4) by (auto simp: MarkFailed_def exec_leased_other split: sum.splits)
qed

theorem lease_exclusive_witness:
  "row_of (snd (Claim demo_pg running_db demo_claim_env (probe_id CHR ''8'') 10 Second [demo_claimed_row]))
     (probe_id CHR ''1'') = Some demo_claimed_row"
proof -
  have ok: "table_ok demo_pg [demo_claimed_row]"
    by (rule Claim_ok [OF demo_table_ok demo_claim])
  have "row_of [demo_claimed_row] (probe_id CHR ''1'') = Some demo_claimed_row"
    "row_status demo_claimed_row = Publishing" "row_lease_owner demo_claimed_row = Some (probe_id CHR ''9'')"
    "row_lease_expires_at demo_claimed_row = Some 30000200" "ce_now demo_claim_env < 30000200"
    by (simp_all add: row_of_def demo_claimed_fields demo_claim_env_def)
  with lease_exclusive [OF ok this(1-4)] show ?thesis by blast
qed

end
