(* ===== verification/OutboxSpec.thy ===== *)
theory OutboxSpec
  imports Outbox "HOL-Library.Multiset"
begin

text \<open>
  Contracts of the repository's operations: what a claim returns, when completing or failing a
  lease succeeds and what it changes, and that an envelope the Go code accepts is never refused by
  the database's own constraints.
\<close>

section \<open>Lemmas\<close>

lemma leased_count:
  assumes "distinct (map row_id t)"
  shows "length (filter (leased_by e worker) t) =
    (case row_of t e of None \<Rightarrow> 0 | Some r \<Rightarrow> if leased_by e worker r then 1 else 0)"
  using assms
proof (induction t)
  case (Cons r t)
  have "row_id x \<noteq> row_id r" if "x \<in> set t" for x
    using that Cons.prems by (metis distinct.simps(2) image_eqI list.set_map list.simps(9))
  then have none: "filter (leased_by e worker) t = []" if "row_id r = e"
    using that by (auto simp: filter_empty_conv leased_by_def)
  show ?case
  proof (cases "row_id r = e")
    case True
    then show ?thesis using none by (simp add: row_of_def)
  next
    case False
    then show ?thesis using Cons by (simp add: row_of_def leased_by_def)
  qed
qed (simp add: row_of_def)

lemma row_of_id: "row_of t x = Some r \<Longrightarrow> row_id r = x"
  by (auto simp: row_of_def find_Some_iff)

lemma exec_leased_exact:
  assumes "table_ok q t" "to_uuid q ev = Some e" "to_uuid q w = Some worker"
    and "\<And>r. row_id (f r) = row_id r"
  shows "fst (exec_leased q None failed lost ev w f t) = None \<longleftrightarrow>
      (\<exists>r. row_of t e = Some r \<and> row_status r = Publishing \<and> row_lease_owner r = Some worker)"
    and "row_of (snd (exec_leased q None failed lost ev w f t)) x =
      map_option (\<lambda>r. if leased_by e worker r then f r else r) (row_of t x)"
proof -
  have "distinct (map row_id t)" using assms(1) by (simp add: table_ok_def)
  from leased_count [OF this, of e worker]
  show "fst (exec_leased q None failed lost ev w f t) = None \<longleftrightarrow>
      (\<exists>r. row_of t e = Some r \<and> row_status r = Publishing \<and> row_lease_owner r = Some worker)"
    by (auto simp: exec_leased_def uuid_arg_def assms sql_update_leased_def leased_by_def
        split: option.splits if_splits dest: row_of_id)
  show "row_of (snd (exec_leased q None failed lost ev w f t)) x =
      map_option (\<lambda>r. if leased_by e worker r then f r else r) (row_of t x)"
    using row_of_update_leased [OF assms(4), of e worker t x]
    by (simp add: exec_leased_def uuid_arg_def assms sql_update_leased_def)
qed

lemma sql_claim_rows:
  assumes sql: "sql_claim q now locked worker lease limit t = Inr (rows, t')"
    and perm: "\<And>xs. mset (returning_order q xs) = mset xs"
  shows "mset rows = mset (map (claim_row now worker lease) (filter (\<lambda>r. row_id r \<in> claimed now locked limit t) t))"
proof -
  let ?C = "claimed now locked limit t"
  let ?g = "\<lambda>r. if row_id r \<in> ?C then claim_row now worker lease r else r"
  have "filter (\<lambda>r. row_id r \<in> ?C) (map ?g xs) = map (claim_row now worker lease) (filter (\<lambda>r. row_id r \<in> ?C) xs)"
    for xs
    by (induction xs) simp_all
  moreover have "rows = returning_order q (filter (\<lambda>r. row_id r \<in> ?C) (map ?g t))"
    using sql unfolding sql_claim_Inr claim_table_def by blast
  ultimately show ?thesis by (simp only: perm)
qed

lemma sql_claim_rows_distinct:
  assumes sql: "sql_claim q now locked worker lease limit t = Inr (rows, t')"
    and perm: "\<And>xs. mset (returning_order q xs) = mset xs" and dist: "distinct (map row_id t)"
  shows "distinct (map row_id rows)"
proof -
  have "mset (map row_id rows) = mset (map row_id (filter (\<lambda>r. row_id r \<in> claimed now locked limit t) t))"
    using arg_cong [OF sql_claim_rows [OF sql perm], of "image_mset row_id"]
    by (simp add: image_mset.compositionality comp_def)
  then show ?thesis
    using dist by (metis distinct_map_filter mset_eq_imp_distinct_iff)
qed

section \<open>Properties\<close>



text \<open>
  Oldest first: a claim that leaves a due, unlocked event behind has taken \<open>limit\<close> events,
  each of which is not younger (creation time, then id) than the one left behind.
\<close>

theorem claim_oldest_first:
  assumes "r \<in> set (claim_candidates now locked limit t)"
    and "r' \<in> set t" and "due now r'" and "\<not> locked (row_id r')"
    and "r' \<notin> set (claim_candidates now locked limit t)"
  shows "(row_created_at r, row_id r) \<le> (row_created_at r', row_id r')
    \<and> length (claim_candidates now locked limit t) = limit"
  using candidates_oldest [OF assms] by blast

theorem claim_oldest_first_witness:
  "(row_created_at demo_row, row_id demo_row)
     \<le> (row_created_at (demo_row\<lparr>row_id := probe_id CHR ''7''\<rparr>), row_id (demo_row\<lparr>row_id := probe_id CHR ''7''\<rparr>))"
proof -
  let ?r' = "demo_row\<lparr>row_id := probe_id CHR ''7''\<rparr>"
  have order: "\<not> probe_id CHR ''7'' \<le> probe_id CHR ''1''" by code_simp
  have "claim_candidates 200 (\<lambda>_. False) 1 [?r', demo_row] = [demo_row]"
    "due 200 ?r'"
    using order by (simp_all add: claim_candidates_def due_def demo_fields)
  moreover have "?r' \<noteq> demo_row"
  proof
    assume "?r' = demo_row"
    then have "row_id ?r' = row_id demo_row" by (rule arg_cong)
    with order show False by (simp add: demo_fields)
  qed
  ultimately show ?thesis
    using claim_oldest_first [of demo_row 200 "\<lambda>_. False" 1 "[?r', demo_row]" ?r'] by simp
qed





text \<open>
  C19. An envelope accepted by \<open>Validate\<close> satisfies the database's own format constraints: with
  canonical \<open>uuid\<close> conversion, a payload that the server stores as an object with the envelope's
  id, type and version, a 32-bit version and a fresh id, \<open>Insert\<close> succeeds and appends exactly one
  pending, never attempted row.
\<close>

theorem Insert_accepts_valid:
  assumes valid: "valid_envelope e" and range: "in_i32 (env_version e)" and fresh: "env_id e \<notin> row_id ` set t"
    and uuid: "\<And>s. IsUUIDv7 s \<Longrightarrow> to_uuid q s = Some s"
    and payload: "marshal_envelope e = Inr payload" "jsonb_text q payload = Some stored" "jsonb_object q stored"
      "jsonb_field q stored ''id'' = Some (env_id e)" "jsonb_field q stored ''type'' = Some (env_type e)"
      "jsonb_field q stored ''version'' = Some (Itoa (env_version e))"
  shows "\<exists>row. Insert q None now e t = (None, t @ [row]) \<and> row_id row = env_id e \<and> row_payload row = stored
    \<and> Subject e = Inr (row_subject row) \<and> row_status row = Pending \<and> row_attempt_count row = 0
    \<and> row_next_attempt_at row = now \<and> row_constraints q row"
proof -
  have ids: "uuid_arg q (env_id e) = Inr (env_id e)" "optional_uuid_arg q (tenant_id e) = Inr (tenant_id e)"
    "uuid_arg q (agg_id (env_aggregate e)) = Inr (agg_id (env_aggregate e))"
    "uuid_arg q (correlation_id e) = Inr (correlation_id e)" "uuid_arg q (causation_id e) = Inr (causation_id e)"
    using valid by (auto simp: uuid_arg_def optional_uuid_arg_def uuid valid_envelope_def split: option.splits)
  obtain subject where subject: "Subject e = Inr subject"
    using valid by (auto simp: Subject_ok_iff)
  let ?row = "new_row now e (env_id e) subject (tenant_id e) (agg_id (env_aggregate e)) (correlation_id e)
    (causation_id e) stored"
  have "in_i64 (env_version e)" using range by (auto simp: in_i32_def in_i64_def)
  then have constraints: "row_constraints q ?row"
    using payload by (intro new_row_constraints valid subject range)
      (simp_all add: null_or_equal_def null_or_version_def Atoi_Itoa)
  have "sql_insert_event q None now e subject payload t = Inr (t @ [?row])"
    using ids range fresh constraints payload(2) by (force simp: sql_insert_event_def Let_def list_ex_iff)
  then have "Insert q None now e t = (None, t @ [?row])"
    using valid subject payload(1) Validate_None_iff [of e] by (simp add: Insert_def)
  with constraints subject show ?thesis
    by (intro exI [of _ ?row]) (simp add: new_row_def)
qed

theorem Insert_accepts_valid_witness:
  "\<exists>row. Insert (demo_pg\<lparr>jsonb_field := (\<lambda>_ k. if k = ''id'' then Some (probe_id CHR ''1'')
       else if k = ''type'' then Some ''infrastructure.probe'' else Some ''1'')\<rparr>) None 7 probe_envelope []
     = (None, [row]) \<and> row_status row = Pending"
proof -
  have "valid_envelope probe_envelope" using probe_valid by (simp add: Validate_None_iff)
  moreover have "Itoa 1 = ''1''" by code_simp
  moreover have "env_id probe_envelope = probe_id CHR ''1''" "env_type probe_envelope = ''infrastructure.probe''" "env_version probe_envelope = 1"
    by (simp_all add: probe_envelope_def)
  ultimately show ?thesis
    using Insert_accepts_valid [of probe_envelope "[]" "demo_pg\<lparr>jsonb_field := (\<lambda>_ k. if k = ''id'' then Some (probe_id CHR ''1'')
       else if k = ''type'' then Some ''infrastructure.probe'' else Some ''1'')\<rparr>" probe_text probe_text 7]
    by (auto simp: demo_pg_def probe_marshal in_i32_def)
qed

end
