(* ===== verification/Relay.thy ===== *)
theory Relay
  imports OutboxSpec Lifecycle
begin

text \<open>
  Package \<open>outbox\<close>, relay.go: the worker that publishes committed events.

  The interfaces \<open>RelayRepository\<close> and \<open>Publisher\<close>, the clock and the logger are the operations of
  a record over a world state \<open>'w\<close>; \<open>processBatch\<close> is the Go control flow over them. The
  lifecycle (\<open>Start\<close>, \<open>Check\<close>, \<open>Close\<close>, the polling loop) is state passing on the relay's fields.

  The lemmas give the closed form of the backoff (and that doubling never overflows), and, for any
  repository and publisher that keep their contract, that a batch marks an event as published only
  after the publisher accepted it.
\<close>

section \<open>Configuration and construction\<close>

record relay_config =
  PollInterval :: duration
  LeaseDuration :: duration
  BatchSize :: int
  MaxAttempts :: int
  BaseBackoff :: duration
  MaxBackoff :: duration

record relay =
  rl_config :: relay_config
  rl_workerID :: string
  rl_cancel :: bool
  rl_lastError :: "go_error option"

definition relay_policy_error :: "relay_config \<Rightarrow> go_error option" where
  "relay_policy_error c =
     (if PollInterval c \<le> 0 \<or> LeaseDuration c \<le> 0 then
        Some (errorf ''outbox relay intervals must be positive'')
      else if BatchSize c < 1 \<or> BatchSize c > 1000 then
        Some (errorf ''outbox relay batch size must be between 1 and 1000'')
      else if MaxAttempts c < 1 then
        Some (errorf ''outbox relay maximum attempts must be positive'')
      else if BaseBackoff c \<le> 0 \<or> MaxBackoff c < BaseBackoff c then
        Some (errorf ''outbox relay backoff policy is invalid'')
      else None)"

definition NewRelay :: "'r option \<Rightarrow> 'p option \<Rightarrow> 'l option \<Rightarrow> relay_config \<Rightarrow> time \<Rightarrow> reader
    \<Rightarrow> relay result \<times> reader" where
  "NewRelay repository publisher logger configuration now randomness =
     (if repository = None \<or> publisher = None \<or> logger = None then
        (Inl (errorf ''outbox relay repository, publisher, and logger are required''), randomness)
      else
     (case relay_policy_error configuration of
        Some err \<Rightarrow> (Inl err, randomness)
      | None \<Rightarrow>
     (case newUUIDv7 now randomness of
        (Inl err, r) \<Rightarrow> (Inl (wrapf ''create outbox worker ID: %w'' err), r)
      | (Inr workerID, r) \<Rightarrow>
          (Inr \<lparr>rl_config = configuration, rl_workerID = workerID, rl_cancel = False,
                rl_lastError = None\<rparr>, r))))"

definition relay_Name :: string where
  "relay_Name = ''outbox-relay''"

section \<open>Backoff\<close>

text \<open>The loop of \<open>backoff\<close>. Doubling is 64-bit; the counter stays below \<open>attempt\<close>, which is a
  64-bit value.\<close>

function backoff_loop :: "relay_config \<Rightarrow> int \<Rightarrow> int \<Rightarrow> duration \<Rightarrow> duration" where
  "backoff_loop c current attempt b =
     (if current < attempt \<and> b < MaxBackoff c then
        (if b > quot (MaxBackoff c) 2 then MaxBackoff c
         else backoff_loop c (current + 1) attempt (i64 (b * 2)))
      else if b > MaxBackoff c then MaxBackoff c
      else b)"
  by pat_completeness auto
termination
  by (relation "measure (\<lambda>(c, current, attempt, b). nat (attempt - current))") auto

declare backoff_loop.simps [simp del]

definition backoff :: "relay_config \<Rightarrow> int \<Rightarrow> duration" where
  "backoff c attempt = backoff_loop c 1 attempt (BaseBackoff c)"

section \<open>One batch\<close>

datatype log_level = LogInfo | LogWarn | LogError

record log_entry =
  log_level :: log_level
  log_message :: string
  log_attributes :: "(string \<times> fmt_arg) list"

definition relay_attributes :: "outbox_record \<Rightarrow> (string \<times> fmt_arg) list" where
  "relay_attributes rec =
     [(''event_id'', FStr (env_id (rec_envelope rec))),
      (''event_type'', FStr (env_type (rec_envelope rec))),
      (''aggregate_id'', FStr (agg_id (env_aggregate (rec_envelope rec)))),
      (''correlation_id'', FStr (correlation_id (rec_envelope rec))),
      (''attempt'', FInt (rec_attempt rec))]"

definition relay_log :: "log_level \<Rightarrow> string \<Rightarrow> outbox_record \<Rightarrow> (string \<times> fmt_arg) list \<Rightarrow> log_entry" where
  "relay_log level message rec extra =
     \<lparr>log_level = level, log_message = message, log_attributes = relay_attributes rec @ extra\<rparr>"

record 'w relay_ops =
  op_claim :: "string \<Rightarrow> int \<Rightarrow> duration \<Rightarrow> 'w \<Rightarrow> outbox_record list result \<times> 'w"
  op_mark_published :: "string \<Rightarrow> string \<Rightarrow> 'w \<Rightarrow> go_error option \<times> 'w"
  op_mark_failed :: "string \<Rightarrow> string \<Rightarrow> failure_class \<Rightarrow> int \<Rightarrow> time \<Rightarrow> string \<Rightarrow> 'w \<Rightarrow> go_error option \<times> 'w"
  op_publish :: "string \<Rightarrow> string \<Rightarrow> string \<Rightarrow> 'w \<Rightarrow> go_error option \<times> 'w"
  op_marshal :: "envelope \<Rightarrow> string result"
  op_now :: "'w \<Rightarrow> time \<times> 'w"
  op_log :: "log_entry \<Rightarrow> 'w \<Rightarrow> 'w"

fun process_records :: "'w relay_ops \<Rightarrow> relay_config \<Rightarrow> string \<Rightarrow> outbox_record list \<Rightarrow> 'w
    \<Rightarrow> go_error option \<times> 'w" where
  "process_records ops c wid [] w = (None, w)"
| "process_records ops c wid (rec # recs) w =
     (let eid = env_id (rec_envelope rec);
          w0 = op_log ops (relay_log LogInfo ''outbox event publication started'' rec []) w
      in case op_marshal ops (rec_envelope rec) of
           Inl err \<Rightarrow>
             (case op_now ops w0 of (now, w1) \<Rightarrow>
             (case op_mark_failed ops eid wid FailurePermanent (MaxAttempts c) now ''event_encoding_failed'' w1 of
                (Some failureErr, w2) \<Rightarrow> (errors_Join [Some err, Some failureErr], w2)
              | (None, w2) \<Rightarrow>
                  process_records ops c wid recs
                    (op_log ops (relay_log LogError ''outbox event dead-lettered'' rec
                      [(''error_code'', FStr ''event_encoding_failed'')]) w2)))
         | Inr payload \<Rightarrow>
             (case op_publish ops (rec_subject rec) eid payload w0 of
                (Some err, w1) \<Rightarrow>
                  (case op_now ops w1 of (now, w2) \<Rightarrow>
                  let nextAttempt = now + backoff c (rec_attempt rec) in
                  (case op_mark_failed ops eid wid FailureTransient (MaxAttempts c) nextAttempt
                          ''nats_publish_failed'' w2 of
                     (Some failureErr, w3) \<Rightarrow> (errors_Join [Some err, Some failureErr], w3)
                   | (None, w3) \<Rightarrow>
                       process_records ops c wid recs
                         (op_log ops (relay_log LogWarn ''outbox event retry scheduled'' rec
                           [(''error_code'', FStr ''nats_publish_failed''), (''next_attempt_at'', FInt nextAttempt)]) w3)))
              | (None, w1) \<Rightarrow>
                  (case op_mark_published ops eid wid w1 of
                     (Some err, w2) \<Rightarrow> (Some err, w2)
                   | (None, w2) \<Rightarrow>
                       process_records ops c wid recs
                         (op_log ops (relay_log LogInfo ''outbox event publication completed'' rec []) w2))))"

definition processBatch :: "'w relay_ops \<Rightarrow> relay_config \<Rightarrow> string \<Rightarrow> 'w \<Rightarrow> go_error option \<times> 'w" where
  "processBatch ops c wid w =
     (case op_claim ops wid (BatchSize c) (LeaseDuration c) w of
        (Inl err, w') \<Rightarrow> (if errors_Is err ContextCanceled then None else Some err, w')
      | (Inr records, w') \<Rightarrow> process_records ops c wid records w')"

section \<open>Lifecycle\<close>

text \<open>\<open>Start\<close> also launches the polling loop; \<open>Close\<close> waits for its end or for the shutdown
  deadline, whichever the \<open>select\<close> takes.\<close>

datatype stop_wait = WorkerDone | DeadlinePassed go_error

definition relay_Start :: "relay \<Rightarrow> go_error option \<times> relay" where
  "relay_Start r =
     (if rl_cancel r then (Some (errorf ''outbox relay has already started''), r)
      else (None, r\<lparr>rl_cancel := True\<rparr>))"

definition relay_Check :: "relay \<Rightarrow> go_error option" where
  "relay_Check r =
     (if \<not> rl_cancel r then Some (errorf ''outbox relay is not started'') else rl_lastError r)"

definition relay_Close :: "stop_wait \<Rightarrow> relay \<Rightarrow> go_error option \<times> relay" where
  "relay_Close wait r =
     (if \<not> rl_cancel r then (None, r)
      else (case wait of
              WorkerDone \<Rightarrow> (None, r\<lparr>rl_cancel := False\<rparr>)
            | DeadlinePassed err \<Rightarrow> (Some (wrapf ''stop outbox relay: %w'' err), r\<lparr>rl_cancel := False\<rparr>)))"

text \<open>The polling loop. \<open>stops\<close> are the outcomes of the \<open>select\<close> after each batch: \<open>True\<close> when the
  context is done, \<open>False\<close> for a tick. The last component says whether the loop has returned.\<close>

fun relay_run :: "'w relay_ops \<Rightarrow> bool list \<Rightarrow> relay \<Rightarrow> 'w \<Rightarrow> relay \<times> 'w \<times> bool" where
  "relay_run ops [] r w = (r, w, False)"
| "relay_run ops (stop # stops) r w =
     (case processBatch ops (rl_config r) (rl_workerID r) w of
        (err, w') \<Rightarrow>
          let r' = r\<lparr>rl_lastError := err\<rparr>
          in if stop then (r', w', True) else relay_run ops stops r' w')"

section \<open>Lemmas: backoff\<close>

lemma backoff_loop_eq:
  assumes "0 < b" and "MaxBackoff c < 2 ^ 63"
  shows "backoff_loop c current attempt b = min (MaxBackoff c) (b * 2 ^ nat (attempt - current))"
  using assms
proof (induction c current attempt b rule: backoff_loop.induct)
  case (1 c current attempt b)
  show ?case
  proof (cases "current < attempt \<and> b < MaxBackoff c")
    case run: True
    then have half: "quot (MaxBackoff c) 2 = MaxBackoff c div 2"
      using "1.prems" by (intro quot_nonneg) auto
    from run have pow: "2 ^ nat (attempt - current) = 2 * (2 ^ nat (attempt - (current + 1)) :: int)"
      by (simp flip: power_Suc add: Suc_nat_eq_nat_zadd1)
    show ?thesis
    proof (cases "b > quot (MaxBackoff c) 2")
      case True
      have "MaxBackoff c \<le> b * 2"
        using True unfolding half by linarith
      also have "\<dots> \<le> (b * 2) * 2 ^ nat (attempt - (current + 1))"
        using "1.prems"(1) by simp
      finally have "MaxBackoff c \<le> (b * 2) * 2 ^ nat (attempt - (current + 1))" .
      with True run show ?thesis
        by (subst backoff_loop.simps) (simp add: pow mult.assoc)
    next
      case False
      then have "i64 (b * 2) = b * 2"
        using "1.prems" unfolding half by (intro i64_id) (auto simp: in_i64_def)
      with "1.IH" [OF run False] "1.prems" show ?thesis
        using run False by (subst backoff_loop.simps) (simp add: pow mult.assoc)
    qed
  next
    case False
    have "1 \<le> (2 ^ nat (attempt - current) :: int)" by simp
    then have "b \<le> b * 2 ^ nat (attempt - current)"
      using "1.prems"(1) by simp
    with False show ?thesis
      by (subst backoff_loop.simps) (auto simp: min_def)
  qed
qed

lemma policy_ok_iff:
  "relay_policy_error c = None \<longleftrightarrow> 0 < PollInterval c \<and> 0 < LeaseDuration c \<and> 1 \<le> BatchSize c \<and> BatchSize c \<le> 1000
    \<and> 1 \<le> MaxAttempts c \<and> 0 < BaseBackoff c \<and> BaseBackoff c \<le> MaxBackoff c"
  by (auto simp: relay_policy_error_def)

lemma backoff_min:
  assumes "relay_policy_error c = None" and "MaxBackoff c < 2 ^ 63"
  shows "backoff c attempt = min (MaxBackoff c) (BaseBackoff c * 2 ^ nat (attempt - 1))"
  unfolding backoff_def using assms by (intro backoff_loop_eq) (simp_all add: policy_ok_iff)

section \<open>Lifecycle\<close>

interpretation relay_component: component
  rl_cancel "\<lambda>(e :: stop_wait). relay_Start" "\<lambda>e. relay_Check" relay_Close
  by unfold_locales (auto simp: relay_Start_def relay_Check_def relay_Close_def split: stop_wait.splits if_splits)

section \<open>A batch as single operations\<close>

text \<open>
  The same control flow, cut at the calls of the repository and the publisher, so that several
  relays can be interleaved: \<open>relay_act\<close> runs from one such call to the next.
\<close>

datatype relay_pc =
    AtClaim
  | AtRecords "outbox_record list"
  | AtEncodeFailed go_error outbox_record "outbox_record list"
  | AtPublishFailed go_error outbox_record "outbox_record list"
  | AtPublished outbox_record "outbox_record list"
  | BatchDone "go_error option"

fun relay_act :: "'w relay_ops \<Rightarrow> relay_config \<Rightarrow> string \<Rightarrow> relay_pc \<Rightarrow> 'w \<Rightarrow> relay_pc \<times> 'w" where
  "relay_act ops c wid AtClaim w =
     (case op_claim ops wid (BatchSize c) (LeaseDuration c) w of
        (Inl err, w') \<Rightarrow> (BatchDone (if errors_Is err ContextCanceled then None else Some err), w')
      | (Inr records, w') \<Rightarrow> (AtRecords records, w'))"
| "relay_act ops c wid (AtRecords []) w = (BatchDone None, w)"
| "relay_act ops c wid (AtRecords (rec # recs)) w =
     (let w0 = op_log ops (relay_log LogInfo ''outbox event publication started'' rec []) w
      in case op_marshal ops (rec_envelope rec) of
           Inl err \<Rightarrow> (AtEncodeFailed err rec recs, w0)
         | Inr payload \<Rightarrow>
             (case op_publish ops (rec_subject rec) (env_id (rec_envelope rec)) payload w0 of
                (Some err, w1) \<Rightarrow> (AtPublishFailed err rec recs, w1)
              | (None, w1) \<Rightarrow> (AtPublished rec recs, w1)))"
| "relay_act ops c wid (AtEncodeFailed err rec recs) w =
     (case op_now ops w of (now, w1) \<Rightarrow>
     (case op_mark_failed ops (env_id (rec_envelope rec)) wid FailurePermanent (MaxAttempts c) now
             ''event_encoding_failed'' w1 of
        (Some failureErr, w2) \<Rightarrow> (BatchDone (errors_Join [Some err, Some failureErr]), w2)
      | (None, w2) \<Rightarrow>
          (AtRecords recs, op_log ops (relay_log LogError ''outbox event dead-lettered'' rec
             [(''error_code'', FStr ''event_encoding_failed'')]) w2)))"
| "relay_act ops c wid (AtPublishFailed err rec recs) w =
     (case op_now ops w of (now, w1) \<Rightarrow>
      let nextAttempt = now + backoff c (rec_attempt rec) in
     (case op_mark_failed ops (env_id (rec_envelope rec)) wid FailureTransient (MaxAttempts c) nextAttempt
             ''nats_publish_failed'' w1 of
        (Some failureErr, w2) \<Rightarrow> (BatchDone (errors_Join [Some err, Some failureErr]), w2)
      | (None, w2) \<Rightarrow>
          (AtRecords recs, op_log ops (relay_log LogWarn ''outbox event retry scheduled'' rec
             [(''error_code'', FStr ''nats_publish_failed''), (''next_attempt_at'', FInt nextAttempt)]) w2)))"
| "relay_act ops c wid (AtPublished rec recs) w =
     (case op_mark_published ops (env_id (rec_envelope rec)) wid w of
        (Some err, w1) \<Rightarrow> (BatchDone (Some err), w1)
      | (None, w1) \<Rightarrow>
          (AtRecords recs, op_log ops (relay_log LogInfo ''outbox event publication completed'' rec []) w1))"
| "relay_act ops c wid (BatchDone err) w = (BatchDone err, w)"

fun relay_acts :: "'w relay_ops \<Rightarrow> relay_config \<Rightarrow> string \<Rightarrow> nat \<Rightarrow> relay_pc \<times> 'w \<Rightarrow> relay_pc \<times> 'w" where
  "relay_acts ops c wid 0 (pc, w) = (pc, w)"
| "relay_acts ops c wid (Suc n) (pc, w) = relay_acts ops c wid n (relay_act ops c wid pc w)"

lemma acts_done: "relay_acts ops c wid n (BatchDone err, w) = (BatchDone err, w)"
  by (induction n) simp_all

lemma acts_records:
  "relay_acts ops c wid (2 * length recs) (relay_act ops c wid (AtRecords recs) w)
    = (case process_records ops c wid recs w of (err, w') \<Rightarrow> (BatchDone err, w'))"
proof (induction recs arbitrary: w)
  case (Cons rec recs)
  have n: "2 * length (rec # recs) = Suc (Suc (2 * length recs))" by simp
  show ?case
    unfolding n
    by (auto simp: Cons.IH acts_done Let_def split: sum.splits prod.splits option.splits)
qed simp

section \<open>What a relay may rely on\<close>

text \<open>
  The interface between the relay and its repository and publisher. \<open>safe\<close> is the contract's
  state invariant, \<open>committed w rec\<close> says that \<open>rec\<close> stands for a committed event, \<open>stored w rec\<close>
  that the transport holds it; \<open>later\<close> orders states in time. Marking as published is safe only
  for an event the transport holds.
\<close>

locale relay_backend =
  fixes ops :: "'w relay_ops"
    and safe :: "'w \<Rightarrow> bool"
    and committed :: "'w \<Rightarrow> outbox_record \<Rightarrow> bool"
    and stored :: "'w \<Rightarrow> outbox_record \<Rightarrow> bool"
    and later :: "'w \<Rightarrow> 'w \<Rightarrow> bool"
  assumes later_refl: "later w w"
    and later_trans: "later w w' \<Longrightarrow> later w' w'' \<Longrightarrow> later w w''"
    and committed_later: "later w w' \<Longrightarrow> committed w rec \<Longrightarrow> committed w' rec"
    and stored_later: "later w w' \<Longrightarrow> stored w rec \<Longrightarrow> stored w' rec"
    and claim: "op_claim ops wid limit lease w = (res, w') \<Longrightarrow> safe w \<Longrightarrow>
      safe w' \<and> later w w' \<and> (\<forall>recs. res = Inr recs \<longrightarrow> (\<forall>rec \<in> set recs. committed w' rec))"
    and publish: "op_marshal ops (rec_envelope rec) = Inr payload \<Longrightarrow>
      op_publish ops (rec_subject rec) (env_id (rec_envelope rec)) payload w = (err, w') \<Longrightarrow>
      safe w \<Longrightarrow> committed w rec \<Longrightarrow> safe w' \<and> later w w' \<and> (err = None \<longrightarrow> stored w' rec)"
    and mark_published: "op_mark_published ops (env_id (rec_envelope rec)) wid w = (err, w') \<Longrightarrow>
      safe w \<Longrightarrow> committed w rec \<Longrightarrow> stored w rec \<Longrightarrow> safe w' \<and> later w w'"
    and mark_failed: "op_mark_failed ops eid wid cls m at code w = (err, w') \<Longrightarrow> safe w \<Longrightarrow>
      safe w' \<and> later w w'"
    and now: "op_now ops w = (at, w') \<Longrightarrow> safe w \<Longrightarrow> safe w' \<and> later w w'"
    and log: "safe w \<Longrightarrow> safe (op_log ops entry w) \<and> later w (op_log ops entry w)"

definition pc_ok :: "('w \<Rightarrow> outbox_record \<Rightarrow> bool) \<Rightarrow> ('w \<Rightarrow> outbox_record \<Rightarrow> bool) \<Rightarrow> 'w \<Rightarrow> relay_pc \<Rightarrow> bool" where
  "pc_ok committed stored w pc =
     (case pc of
        AtClaim \<Rightarrow> True
      | AtRecords recs \<Rightarrow> list_all (committed w) recs
      | AtEncodeFailed err rec recs \<Rightarrow> list_all (committed w) (rec # recs)
      | AtPublishFailed err rec recs \<Rightarrow> list_all (committed w) (rec # recs)
      | AtPublished rec recs \<Rightarrow> list_all (committed w) (rec # recs) \<and> stored w rec
      | BatchDone err \<Rightarrow> True)"

context relay_backend
begin

lemma pc_ok_later: "later w w' \<Longrightarrow> pc_ok committed stored w pc \<Longrightarrow> pc_ok committed stored w' pc"
  by (cases pc) (auto simp: pc_ok_def list_all_iff intro: committed_later stored_later)

lemma committed_all_later: "later w w' \<Longrightarrow> list_all (committed w) recs \<Longrightarrow> list_all (committed w') recs"
  by (auto simp: list_all_iff intro: committed_later)

lemma after_log:
  assumes "safe w2" "later w w2" "list_all (committed w) recs"
  shows "safe (op_log ops entry w2)" "later w (op_log ops entry w2)"
    "list_all (committed (op_log ops entry w2)) recs"
  using log [OF assms(1), of entry] assms(2,3) committed_all_later later_trans by blast+

lemma after_failure_mark:
  assumes "op_now ops w = (at, w1)" "op_mark_failed ops eid wid cls m at' code w1 = (err, w2)" "safe w"
  shows "safe w2 \<and> later w w2"
  using now [OF assms(1,3)] mark_failed [OF assms(2)] later_trans by blast

lemma act_safe:
  assumes act: "relay_act ops c wid pc w = (pc', w')" and "safe w" and "pc_ok committed stored w pc"
  shows "safe w' \<and> later w w' \<and> pc_ok committed stored w' pc'"
proof (cases pc)
  case AtClaim
  then show ?thesis
    using act assms(2) by (auto split: prod.splits sum.splits dest!: claim simp: pc_ok_def list_all_iff)
next
  case (AtRecords recs)
  show ?thesis
  proof (cases recs)
    case Nil
    then show ?thesis using act assms AtRecords by (auto simp: pc_ok_def later_refl)
  next
    case (Cons rec rest)
    let ?w0 = "op_log ops (relay_log LogInfo ''outbox event publication started'' rec []) w"
    have w0: "safe ?w0" "later w ?w0" using log assms(2) by blast+
    have known: "list_all (committed w) (rec # rest)"
      using assms(3) by (simp add: AtRecords Cons pc_ok_def)
    note known0 = committed_all_later [OF w0(2) known]
    show ?thesis
    proof (cases "op_marshal ops (rec_envelope rec)")
      case (Inl err)
      then show ?thesis using act w0 known0 by (auto simp: AtRecords Cons Let_def pc_ok_def)
    next
      case (Inr payload)
      obtain err w1 where pub: "op_publish ops (rec_subject rec) (env_id (rec_envelope rec)) payload ?w0 = (err, w1)"
        by fastforce
      from publish [OF Inr pub w0(1)] known0
      have w1: "safe w1" "later ?w0 w1" "err = None \<longrightarrow> stored w1 rec" by auto
      have "later w w1" using w0(2) w1(2) by (rule later_trans)
      moreover have "list_all (committed w1) (rec # rest)"
        by (rule committed_all_later [OF w1(2) known0])
      ultimately show ?thesis
        using act w1 by (auto simp: AtRecords Cons Let_def Inr pub pc_ok_def split: option.splits)
    qed
  qed
next
  case (AtEncodeFailed err rec recs)
  then have known: "list_all (committed w) recs" using assms(3) by (simp add: pc_ok_def)
  from act obtain at w1 ferr w2 where "op_now ops w = (at, w1)"
    "op_mark_failed ops (env_id (rec_envelope rec)) wid FailurePermanent (MaxAttempts c) at ''event_encoding_failed'' w1 = (ferr, w2)"
    by (metis surj_pair)
  moreover from after_failure_mark [OF this assms(2)] have "safe w2" "later w w2" by auto
  ultimately show ?thesis
    using act known unfolding AtEncodeFailed
    by (auto simp: pc_ok_def after_log split: option.splits)
next
  case (AtPublishFailed err rec recs)
  then have known: "list_all (committed w) recs" using assms(3) by (simp add: pc_ok_def)
  from act obtain at w1 ferr w2 where "op_now ops w = (at, w1)"
    "op_mark_failed ops (env_id (rec_envelope rec)) wid FailureTransient (MaxAttempts c)
       (at + backoff c (rec_attempt rec)) ''nats_publish_failed'' w1 = (ferr, w2)"
    by (metis surj_pair)
  moreover from after_failure_mark [OF this assms(2)] have "safe w2" "later w w2" by auto
  ultimately show ?thesis
    using act known unfolding AtPublishFailed
    by (auto simp: pc_ok_def after_log Let_def split: option.splits)
next
  case (AtPublished rec recs)
  then have known: "list_all (committed w) (rec # recs)" "stored w rec" using assms(3) by (simp_all add: pc_ok_def)
  obtain err w1 where mark: "op_mark_published ops (env_id (rec_envelope rec)) wid w = (err, w1)" by fastforce
  with mark_published [OF mark assms(2)] known have "safe w1" "later w w1" by auto
  then show ?thesis
    using act known(1) mark unfolding AtPublished
    by (auto simp: pc_ok_def after_log split: option.splits)
next
  case (BatchDone err)
  then show ?thesis using act assms by (auto simp: later_refl)
qed

end

end
