(* ===== verification/Nats.thy ===== *)
theory Nats
  imports Lifecycle
begin

text \<open>
  Package \<open>natsclient\<close> (client.go): the NATS connection, the stream topology and publication.

  The NATS library is a parameter (record \<open>nats_lib\<close>): connecting, creating a JetStream context,
  the stream calls, and flushing. \<open>Start\<close> and \<open>Close\<close> return, beside the error, the
  connections they closed; \<open>ensureEventsStream\<close> returns the calls it made.

  The lemmas show that a failed start leaves no open connection behind, that a started client
  always has both a connection and a JetStream context, and that the stream is created or updated
  to one fixed topology.
\<close>

definition EventsStream :: string where
  "EventsStream = ''MANORECK_EVENTS''"

definition eventsSubject :: string where
  "eventsSubject = ''manoreck.events.>''"

definition deadSubject :: string where
  "deadSubject = ''manoreck.dead.>''"

record ('conn, 'js) nats_client =
  nc_url :: string
  nc_connection :: "'conn option"
  nc_jetStream :: "'js option"

datatype retention_policy = LimitsPolicy | InterestPolicy | WorkQueuePolicy
datatype storage_type = FileStorage | MemoryStorage
datatype discard_policy = DiscardOld | DiscardNew

record stream_config =
  stream_name :: string
  stream_subjects :: "string list"
  stream_retention :: retention_policy
  stream_storage :: storage_type
  stream_discard :: discard_policy
  stream_max_age :: duration
  stream_duplicates :: duration
  stream_replicas :: int

definition events_stream_config :: stream_config where
  "events_stream_config =
     \<lparr>stream_name = EventsStream, stream_subjects = [eventsSubject, deadSubject],
      stream_retention = LimitsPolicy, stream_storage = FileStorage, stream_discard = DiscardOld,
      stream_max_age = 30 * 24 * 60 * Minute, stream_duplicates = 10 * Minute,
      stream_replicas = 1\<rparr>"

record ('conn, 'js) nats_lib =
  nl_connect :: "string \<Rightarrow> 'conn result"
  nl_jetstream :: "'conn \<Rightarrow> 'js result"
  nl_stream_info :: "'js \<Rightarrow> string \<Rightarrow> go_error option"
  nl_add_stream :: "'js \<Rightarrow> stream_config \<Rightarrow> go_error option"
  nl_update_stream :: "'js \<Rightarrow> stream_config \<Rightarrow> go_error option"
  nl_is_connected :: "'conn \<Rightarrow> bool"
  nl_flush :: "'conn \<Rightarrow> go_error option"

datatype stream_call = StreamInfo string | AddStream stream_config | UpdateStream stream_config

definition nats_New :: "string \<Rightarrow> ('conn, 'js) nats_client result" where
  "nats_New url =
     (if url = [] then Inl (errorf ''NATS URL must not be empty'')
      else Inr \<lparr>nc_url = url, nc_connection = None, nc_jetStream = None\<rparr>)"

definition nats_Name :: string where
  "nats_Name = ''nats''"

definition ensureEventsStream :: "('conn, 'js) nats_lib \<Rightarrow> 'js \<Rightarrow> go_error option \<times> stream_call list" where
  "ensureEventsStream lib js =
     (case nl_stream_info lib js EventsStream of
        Some err \<Rightarrow>
          if \<not> errors_Is err ErrStreamNotFound then
            (Some (wrapf ''inspect JetStream events stream: %w'' err), [StreamInfo EventsStream])
          else (map_option (wrapf ''create JetStream events stream: %w'') (nl_add_stream lib js events_stream_config),
                [StreamInfo EventsStream, AddStream events_stream_config])
      | None \<Rightarrow>
          (map_option (wrapf ''update JetStream events stream: %w'') (nl_update_stream lib js events_stream_config),
           [StreamInfo EventsStream, UpdateStream events_stream_config]))"

definition nats_Start :: "('conn, 'js) nats_lib \<Rightarrow> ('conn, 'js) nats_client
    \<Rightarrow> go_error option \<times> 'conn list \<times> ('conn, 'js) nats_client" where
  "nats_Start lib client =
     (if nc_connection client \<noteq> None then (Some (errorf ''NATS client has already started''), [], client)
      else
     (case nl_connect lib (nc_url client) of
        Inl err \<Rightarrow> (Some (wrapf ''connect to NATS: %w'' err), [], client)
      | Inr connection \<Rightarrow>
     (case nl_jetstream lib connection of
        Inl err \<Rightarrow> (Some (wrapf ''create JetStream context: %w'' err), [connection], client)
      | Inr js \<Rightarrow>
     (case fst (ensureEventsStream lib js) of
        Some err \<Rightarrow> (Some err, [connection], client)
      | None \<Rightarrow> (None, [], client\<lparr>nc_connection := Some connection, nc_jetStream := Some js\<rparr>)))))"

definition nats_Check :: "('conn, 'js) nats_lib \<Rightarrow> ('conn, 'js) nats_client \<Rightarrow> go_error option" where
  "nats_Check lib client =
     (case (nc_connection client, nc_jetStream client) of
        (Some connection, Some js) \<Rightarrow>
          if \<not> nl_is_connected lib connection then Some (errorf ''NATS connection is not ready'')
          else (case nl_flush lib connection of
                  Some err \<Rightarrow> Some (wrapf ''flush NATS connection: %w'' err)
                | None \<Rightarrow> map_option (wrapf ''inspect JetStream events stream: %w'') (nl_stream_info lib js EventsStream))
      | _ \<Rightarrow> Some (errorf ''NATS client is not started''))"

text \<open>What the \<open>select\<close> of \<open>Close\<close> sees first: the result of \<open>Drain\<close> or the deadline. The second
  component of the result is the connection closed without draining.\<close>

datatype drain_wait = Drained "go_error option" | DrainDeadline go_error

definition nats_Close :: "drain_wait \<Rightarrow> ('conn, 'js) nats_client
    \<Rightarrow> go_error option \<times> 'conn option \<times> ('conn, 'js) nats_client" where
  "nats_Close wait client =
     (let client' = client\<lparr>nc_connection := None, nc_jetStream := None\<rparr> in
      case nc_connection client of
        None \<Rightarrow> (None, None, client')
      | Some connection \<Rightarrow>
          (case wait of
             Drained (Some err) \<Rightarrow>
               (if \<not> errors_Is err ErrConnectionClosed then Some (wrapf ''drain NATS connection: %w'' err) else None,
                None, client')
           | Drained None \<Rightarrow> (None, None, client')
           | DrainDeadline err \<Rightarrow> (Some (wrapf ''drain NATS connection: %w'' err), Some connection, client')))"

definition nats_JetStream :: "('conn, 'js) nats_client \<Rightarrow> 'js result" where
  "nats_JetStream client =
     (case nc_jetStream client of
        None \<Rightarrow> Inl (errorf ''JetStream client is not started'')
      | Some js \<Rightarrow> Inr js)"

text \<open>\<open>publish_msg\<close> is \<open>JetStreamContext.PublishMsg\<close> with a message id.\<close>

definition nats_Publish :: "('js \<Rightarrow> string \<Rightarrow> string \<Rightarrow> string \<Rightarrow> 'w \<Rightarrow> go_error option \<times> 'w)
    \<Rightarrow> ('conn, 'js) nats_client \<Rightarrow> string \<Rightarrow> string \<Rightarrow> string \<Rightarrow> 'w \<Rightarrow> go_error option \<times> 'w" where
  "nats_Publish publish_msg client subject eventID payload w =
     (case nats_JetStream client of
        Inl err \<Rightarrow> (Some err, w)
      | Inr js \<Rightarrow>
          (case publish_msg js subject eventID payload w of
             (Some err, w') \<Rightarrow> (Some (wrapf ''publish JetStream event: %w'' err), w')
           | (None, w') \<Rightarrow> (None, w')))"

section \<open>Lifecycle\<close>

text \<open>The state the pointer tests rely on: connection and context are set and cleared together.\<close>

definition nats_ok :: "('conn, 'js) nats_client \<Rightarrow> bool" where
  "nats_ok client \<longleftrightarrow> (nc_connection client = None \<longleftrightarrow> nc_jetStream client = None)"

lemma nats_ok_steps [inv_intros]:
  "nats_New url = Inr client \<Longrightarrow> nats_ok client"
  "nats_Start lib client = (err, closed, client') \<Longrightarrow> nats_ok client \<Longrightarrow> nats_ok client'"
  "nats_Close wait client = (err2, forced, client'') \<Longrightarrow> nats_ok client''"
  by (auto simp: nats_ok_def nats_New_def nats_Start_def nats_Close_def Let_def
      split: if_splits sum.splits option.splits drain_wait.splits)

definition nats_start_call :: "('conn, 'js) nats_lib \<times> drain_wait \<Rightarrow> ('conn, 'js) nats_client
    \<Rightarrow> go_error option \<times> ('conn, 'js) nats_client" where
  "nats_start_call e client = (case nats_Start (fst e) client of (err, _, client') \<Rightarrow> (err, client'))"

definition nats_close_call :: "('conn, 'js) nats_lib \<times> drain_wait \<Rightarrow> ('conn, 'js) nats_client
    \<Rightarrow> go_error option \<times> ('conn, 'js) nats_client" where
  "nats_close_call e client = (case nats_Close (snd e) client of (err, _, client') \<Rightarrow> (err, client'))"

interpretation nats_component: component
  "\<lambda>c. nc_connection c \<noteq> None" nats_start_call "\<lambda>e. nats_Check (fst e)" nats_close_call
  by unfold_locales
    (auto simp: nats_start_call_def nats_close_call_def nats_Start_def nats_Check_def nats_Close_def Let_def
      split: prod.splits if_splits sum.splits option.splits drain_wait.splits)

section \<open>Properties\<close>

text \<open>
  Starting the NATS client neither leaks nor half-starts: a start on a stopped client that
  fails leaves the client as it was and has closed exactly the connection it opened, if any; one
  that succeeds keeps its open connection and JetStream context and has brought the stream to the
  required topology.
\<close>

theorem nats_Start_no_leak:
  assumes "nc_connection client = None" and "nats_Start lib client = (err, closed, client')"
  shows "(err \<noteq> None \<longrightarrow> client' = client
      \<and> set closed = (case nl_connect lib (nc_url client) of Inl _ \<Rightarrow> {} | Inr connection \<Rightarrow> {connection}))
    \<and> (err = None \<longrightarrow> closed = [] \<and> (\<exists>connection js. nl_connect lib (nc_url client) = Inr connection
          \<and> nl_jetstream lib connection = Inr js \<and> nc_connection client' = Some connection \<and> nc_jetStream client' = Some js
          \<and> (if nl_stream_info lib js EventsStream = None then nl_update_stream lib js events_stream_config = None
             else nl_add_stream lib js events_stream_config = None)))"
  using assms
  by (auto simp: nats_Start_def ensureEventsStream_def split: sum.splits option.splits if_splits)

definition demo_nats_lib :: "go_error option \<Rightarrow> (nat, nat) nats_lib" where
  "demo_nats_lib add_error =
     \<lparr>nl_connect = (\<lambda>_. Inr 1), nl_jetstream = (\<lambda>c. Inr (c + 1)),
      nl_stream_info = (\<lambda>_ _. Some (Sentinel ErrStreamNotFound)), nl_add_stream = (\<lambda>_ _. add_error),
      nl_update_stream = (\<lambda>_ _. None), nl_is_connected = (\<lambda>_. True), nl_flush = (\<lambda>_. None)\<rparr>"

theorem nats_Start_no_leak_witness:
  "nats_Start (demo_nats_lib (Some (External ''denied''))) \<lparr>nc_url = ''nats://n:4222'', nc_connection = None, nc_jetStream = None\<rparr>
     = (Some (wrapf ''create JetStream events stream: %w'' (External ''denied'')), [1],
        \<lparr>nc_url = ''nats://n:4222'', nc_connection = None, nc_jetStream = None\<rparr>)
   \<and> set [1] = (case nl_connect (demo_nats_lib (Some (External ''denied''))) ''nats://n:4222'' of
        Inl _ \<Rightarrow> {} | Inr connection \<Rightarrow> {connection})"
proof -
  let ?c = "\<lparr>nc_url = ''nats://n:4222'', nc_connection = None, nc_jetStream = None\<rparr> :: (nat, nat) nats_client"
  have run: "nats_Start (demo_nats_lib (Some (External ''denied''))) ?c
     = (Some (wrapf ''create JetStream events stream: %w'' (External ''denied'')), [1], ?c)"
    by (simp add: nats_Start_def ensureEventsStream_def demo_nats_lib_def)
  from nats_Start_no_leak [OF _ run] run show ?thesis by simp
qed

end
