(* ===== verification/RelaySystem.thy ===== *)
theory RelaySystem
  imports Relay Nats
begin

text \<open>
  The transactional outbox as a system: producers that commit events, any number of relay workers,
  the table and the JetStream stream, in any interleaving of their operations.

  The operations of relay.go are instantiated with the repository's methods and the NATS client.
  What each call meets (time, connection failures, lost acknowledgements) is a record \<open>call_env\<close>
  chosen freely at every step. \<open>w_stream\<close> is the history of the messages the stream accepted;
  a publish call with an id seen within the duplicate window is acknowledged without storing it
  again, and one that reports an error may nevertheless have stored the message.

  The interpretation of \<open>relay_backend\<close> discharges the relay's contract for these definitions.
\<close>

section \<open>The world of a relay\<close>

record stream_message =
  msg_subject :: string
  msg_id :: string
  msg_payload :: string

record relay_world =
  w_table :: outbox_table
  w_stream :: "stream_message list"
  w_log :: "log_entry list"

datatype publish_outcome = PubAck bool | PubFail go_error bool

record call_env =
  call_claim :: claim_env
  call_fault :: exec_fault
  call_db_now :: int
  call_now :: time
  call_publish :: publish_outcome

definition store_message :: "string \<Rightarrow> string \<Rightarrow> string \<Rightarrow> relay_world \<Rightarrow> relay_world" where
  "store_message subject mid payload w =
     w\<lparr>w_stream := w_stream w @ [\<lparr>msg_subject = subject, msg_id = mid, msg_payload = payload\<rparr>]\<rparr>"

definition js_publish_msg :: "publish_outcome \<Rightarrow> unit \<Rightarrow> string \<Rightarrow> string \<Rightarrow> string \<Rightarrow> relay_world
    \<Rightarrow> go_error option \<times> relay_world" where
  "js_publish_msg outcome js subject mid payload w =
     (case outcome of
        PubAck in_window \<Rightarrow>
          (None, if in_window \<and> list_ex (\<lambda>m. msg_id m = mid) (w_stream w) then w
                 else store_message subject mid payload w)
      | PubFail err accepted \<Rightarrow> (Some err, if accepted then store_message subject mid payload w else w))"

definition world_ops :: "pg \<Rightarrow> unit database \<Rightarrow> (unit, unit) nats_client \<Rightarrow> call_env
    \<Rightarrow> relay_world relay_ops" where
  "world_ops q db client env =
     \<lparr>op_claim = (\<lambda>wid limit lease w.
        case Claim q db (call_claim env) wid limit lease (w_table w) of (res, t) \<Rightarrow> (res, w\<lparr>w_table := t\<rparr>)),
      op_mark_published = (\<lambda>eid wid w.
        case MarkPublished q db (call_fault env) (call_db_now env) eid wid (w_table w) of
          (err, t) \<Rightarrow> (err, w\<lparr>w_table := t\<rparr>)),
      op_mark_failed = (\<lambda>eid wid cls maxAttempts at code w.
        case MarkFailed q db (call_fault env) (call_db_now env) eid wid cls maxAttempts at code (w_table w) of
          (err, t) \<Rightarrow> (err, w\<lparr>w_table := t\<rparr>)),
      op_publish = nats_Publish (js_publish_msg (call_publish env)) client,
      op_marshal = marshal_envelope,
      op_now = (\<lambda>w. (call_now env, w)),
      op_log = (\<lambda>entry w. w\<lparr>w_log := w_log w @ [entry]\<rparr>)\<rparr>"

section \<open>The system\<close>

record relay_system =
  sys_world :: relay_world
  sys_workers :: "string \<Rightarrow> relay_pc"

text \<open>
  \<open>sys_act\<close> is one operation of a worker's batch; \<open>sys_poll\<close> the next tick of a worker's polling loop;
  \<open>sys_crash\<close> a process that dies at any point of its batch and is started again; \<open>sys_commit\<close> a
  committed transaction that inserted an event.
\<close>

inductive relay_step :: "pg \<Rightarrow> (string \<Rightarrow> relay_config) \<Rightarrow> relay_system \<Rightarrow> relay_system \<Rightarrow> bool"
  for q cfg where
  sys_act: "relay_act (world_ops q db client env) (cfg wid) wid (sys_workers s wid) (sys_world s) = (pc, w) \<Longrightarrow>
    relay_step q cfg s (s\<lparr>sys_world := w, sys_workers := (sys_workers s)(wid := pc)\<rparr>)"
| sys_poll: "sys_workers s wid = BatchDone err \<Longrightarrow>
    relay_step q cfg s (s\<lparr>sys_workers := (sys_workers s)(wid := AtClaim)\<rparr>)"
| sys_crash: "relay_step q cfg s (s\<lparr>sys_workers := (sys_workers s)(wid := AtClaim)\<rparr>)"

inductive system_step :: "pg \<Rightarrow> (string \<Rightarrow> relay_config) \<Rightarrow> relay_system \<Rightarrow> relay_system \<Rightarrow> bool"
  for q cfg where
  sys_commit: "Insert q fault now e (w_table (sys_world s)) = (err, t) \<Longrightarrow>
    system_step q cfg s (s\<lparr>sys_world := (sys_world s)\<lparr>w_table := t\<rparr>\<rparr>)"
| sys_relay: "relay_step q cfg s s' \<Longrightarrow> system_step q cfg s s'"

definition initial_system :: relay_system where
  "initial_system = \<lparr>sys_world = \<lparr>w_table = [], w_stream = [], w_log = []\<rparr>, sys_workers = (\<lambda>_. AtClaim)\<rparr>"

inductive reachable_system :: "pg \<Rightarrow> (string \<Rightarrow> relay_config) \<Rightarrow> relay_system \<Rightarrow> bool"
  for q cfg where
  reach_initial: "reachable_system q cfg initial_system"
| reach_system_step: "reachable_system q cfg s \<Longrightarrow> system_step q cfg s s' \<Longrightarrow> reachable_system q cfg s'"

section \<open>Invariant\<close>

text \<open>What the code relies on outside the repository: \<open>uuid\<close> columns give a canonical text back
  unchanged, a \<open>jsonb\<close> column keeps the value of its text, and \<open>RETURNING\<close> delivers every updated
  row once.\<close>

definition storage_laws :: "pg \<Rightarrow> bool" where
  "storage_laws q \<longleftrightarrow>
     (\<forall>s. IsUUIDv7 s \<longrightarrow> to_uuid q s = Some s)
     \<and> jsonb_faithful (jsonb_text q)
     \<and> (\<forall>rows. mset (returning_order q rows) = mset rows)"

text \<open>\<open>m\<close> is the message of the event stored in row \<open>r\<close>.\<close>

definition message_of :: "outbox_row \<Rightarrow> stream_message \<Rightarrow> bool" where
  "message_of r m \<longleftrightarrow>
     msg_id m = row_id r \<and> msg_subject m = row_subject r
     \<and> (\<exists>e. unmarshal_envelope (row_payload r) = Inr e \<and> Validate e = None \<and> marshal_envelope e = Inr (msg_payload m))"

text \<open>The row holds an event that was valid when it was inserted, and its payload decodes to nothing
  else (up to the spelling of the data and the minutes of the zone).\<close>

definition source_event :: "outbox_row \<Rightarrow> envelope \<Rightarrow> bool" where
  "source_event r e \<longleftrightarrow>
     Validate e = None \<and> row_id r = env_id e \<and> row_event_type r = env_type e \<and> Subject e = Inr (row_subject r)
     \<and> (\<forall>e'. unmarshal_envelope (row_payload r) = Inr e' \<longrightarrow> (\<exists>raw. e' = (as_written e)\<lparr>env_data := raw\<rparr>))"

definition row_source :: "outbox_row \<Rightarrow> bool" where
  "row_source r \<longleftrightarrow> (\<exists>e. source_event r e)"

definition world_safe :: "pg \<Rightarrow> relay_world \<Rightarrow> bool" where
  "world_safe q w \<longleftrightarrow>
     storage_laws q \<and> table_ok q (w_table w) \<and> (\<forall>r \<in> set (w_table w). row_source r)
     \<and> (\<forall>m \<in> set (w_stream w). \<exists>r \<in> set (w_table w). message_of r m)
     \<and> (\<forall>r \<in> set (w_table w). row_status r = Published \<longrightarrow> (\<exists>m \<in> set (w_stream w). message_of r m))"

definition world_committed :: "relay_world \<Rightarrow> outbox_record \<Rightarrow> bool" where
  "world_committed w rec \<longleftrightarrow>
     Validate (rec_envelope rec) = None
     \<and> (\<exists>r \<in> set (w_table w). row_id r = env_id (rec_envelope rec) \<and> row_subject r = rec_subject rec
          \<and> unmarshal_envelope (row_payload r) = Inr (rec_envelope rec))"

definition world_stored :: "relay_world \<Rightarrow> outbox_record \<Rightarrow> bool" where
  "world_stored w rec \<longleftrightarrow>
     (\<exists>m \<in> set (w_stream w). msg_id m = env_id (rec_envelope rec) \<and> msg_subject m = rec_subject rec
        \<and> marshal_envelope (rec_envelope rec) = Inr (msg_payload m))"

definition world_later :: "relay_world \<Rightarrow> relay_world \<Rightarrow> bool" where
  "world_later w w' \<longleftrightarrow>
     event_columns ` set (w_table w) \<subseteq> event_columns ` set (w_table w') \<and> set (w_stream w) \<subseteq> set (w_stream w')"

lemma storage_uuid: "storage_laws q \<Longrightarrow> IsUUIDv7 s \<Longrightarrow> to_uuid q s = Some s"
  unfolding storage_laws_def by blast

lemma storage_json: "storage_laws q \<Longrightarrow> jsonb_faithful (jsonb_text q)"
  unfolding storage_laws_def by blast

lemma row_source_id: "row_source r \<Longrightarrow> unmarshal_envelope (row_payload r) = Inr e \<Longrightarrow> env_id e = row_id r"
  by (auto simp: row_source_def source_event_def as_written_def)

lemma committed_id: "world_committed w rec \<Longrightarrow> IsUUIDv7 (env_id (rec_envelope rec))"
  by (simp add: world_committed_def Validate_None_iff valid_envelope_def)

lemma storage_order: "storage_laws q \<Longrightarrow> mset (returning_order q rows) = mset rows"
  unfolding storage_laws_def by blast

section \<open>Moves of a table\<close>

text \<open>Rows keep their event; only rows with an id in \<open>A\<close> may become published.\<close>

definition row_moves :: "string set \<Rightarrow> outbox_row \<Rightarrow> outbox_row \<Rightarrow> bool" where
  "row_moves A r r' \<longleftrightarrow>
     event_columns r' = event_columns r
     \<and> (row_status r' = Published \<longrightarrow> row_status r = Published \<or> row_id r \<in> A)"

lemma event_columns_D:
  assumes "event_columns r' = event_columns r"
  shows "row_id r' = row_id r" "row_subject r' = row_subject r" "row_payload r' = row_payload r"
    "row_event_type r' = row_event_type r"
  using assms by (auto simp: event_columns_def dest: arg_cong [where f = row_id]
      arg_cong [where f = row_subject] arg_cong [where f = row_payload] arg_cong [where f = row_event_type])

lemma event_columns_message: "event_columns r' = event_columns r \<Longrightarrow> message_of r' m \<longleftrightarrow> message_of r m"
  by (simp add: message_of_def event_columns_D [of r' r])

lemma event_columns_source: "event_columns r' = event_columns r \<Longrightarrow> row_source r' \<longleftrightarrow> row_source r"
  by (simp add: row_source_def source_event_def event_columns_D [of r' r])

lemma moves_map:
  assumes "\<And>r. r \<in> set t \<Longrightarrow> row_moves A r (f r)"
  shows "list_all2 (row_moves A) t (map f t)"
  using assms by (auto simp: list_all2_conv_all_nth)

lemma moves_refl: "list_all2 (row_moves A) t t"
  by (rule list.rel_refl) (simp add: row_moves_def)

lemma Claim_moves:
  assumes "Claim q db env w limit lease t = (res, t')"
  shows "list_all2 (row_moves {}) t t'"
  using assms
proof (cases rule: Claim_table_cases)
  case (2 worker rows)
  then show ?thesis
    by (auto simp: sql_claim_Inr claim_table_def row_moves_def claim_row_def event_columns_def intro!: moves_map)
qed (simp add: moves_refl)

lemma update_leased_moves:
  assumes "exec_leased q fault failed lost eid w f t = (err, t')"
    and "\<And>e r. to_uuid q eid = Some e \<Longrightarrow> row_id r = e \<Longrightarrow> row_moves A r (f r)"
  shows "list_all2 (row_moves A) t t'"
  using exec_leased_table_cases [OF assms(1)]
proof
  assume "\<exists>e worker. to_uuid q eid = Some e \<and> to_uuid q w = Some worker \<and> t' = snd (sql_update_leased e worker f t)"
  then obtain e worker where e: "to_uuid q eid = Some e" and t': "t' = snd (sql_update_leased e worker f t)" by blast
  have "row_moves A r (if leased_by e worker r then f r else r)" for r
    using assms(2) [OF e, of r] by (auto simp: leased_by_def row_moves_def)
  then show ?thesis
    unfolding t' sql_update_leased_def snd_conv by (intro moves_map)
qed (simp add: moves_refl)

lemma MarkPublished_moves:
  assumes "MarkPublished q db fault now eid w t = (err, t')" and "to_uuid q eid = Some eid"
  shows "list_all2 (row_moves {eid}) t t'"
proof -
  have "row_moves {eid} r (publish_row now r)" if "row_id r = eid" for r
    using that by (simp add: row_moves_def)
  then show ?thesis
    using assms by (auto simp: MarkPublished_def moves_refl split: sum.splits elim!: update_leased_moves)
qed

lemma MarkFailed_moves:
  assumes "MarkFailed q db fault now eid w cls m at code t = (err, t')"
  shows "list_all2 (row_moves {}) t t'"
proof -
  have "row_moves {} r (fail_row now cls m (at div 1000) code r)" for r
    by (simp add: row_moves_def) (simp add: fail_row_def)
  then show ?thesis
    using assms by (auto simp: MarkFailed_def moves_refl split: sum.splits if_splits elim!: update_leased_moves)
qed

lemma safe_moves:
  assumes safe: "world_safe q w" and moves: "list_all2 (row_moves A) (w_table w) t'" and ok: "table_ok q t'"
    and pub: "\<And>r. r \<in> set (w_table w) \<Longrightarrow> row_id r \<in> A \<Longrightarrow> \<exists>m \<in> set (w_stream w). message_of r m"
  shows "world_safe q (w\<lparr>w_table := t'\<rparr>) \<and> world_later w (w\<lparr>w_table := t'\<rparr>)"
proof -
  have origin: "\<exists>r \<in> set (w_table w). row_moves A r r'" if "r' \<in> set t'" for r'
    using moves that by (metis in_set_conv_nth list_all2_conv_all_nth)
  have forth: "\<exists>r' \<in> set t'. row_moves A r r'" if "r \<in> set (w_table w)" for r
    using moves that by (metis in_set_conv_nth list_all2_conv_all_nth)
  have 1: "row_source r'" if "r' \<in> set t'" for r'
    using origin [OF that] safe unfolding row_moves_def world_safe_def by (metis event_columns_source)
  have 2: "\<exists>r' \<in> set t'. message_of r' m" if m: "m \<in> set (w_stream w)" for m
  proof -
    obtain r where "r \<in> set (w_table w)" "message_of r m" using safe m by (auto simp: world_safe_def)
    then show ?thesis using forth [of r] unfolding row_moves_def by (metis event_columns_message)
  qed
  have 3: "\<exists>m \<in> set (w_stream w). message_of r' m" if r': "r' \<in> set t'" "row_status r' = Published" for r'
  proof -
    obtain r where r: "r \<in> set (w_table w)" "event_columns r' = event_columns r"
      "row_status r = Published \<or> row_id r \<in> A"
      using origin [OF r'(1)] r'(2) by (auto simp: row_moves_def)
    then have "\<exists>m \<in> set (w_stream w). message_of r m"
      using safe pub by (auto simp: world_safe_def)
    then show ?thesis using event_columns_message [OF r(2)] by blast
  qed
  have 4: "event_columns ` set (w_table w) \<subseteq> event_columns ` set t'"
  proof
    fix x assume "x \<in> event_columns ` set (w_table w)"
    then obtain r where "r \<in> set (w_table w)" "x = event_columns r" by blast
    then show "x \<in> event_columns ` set t'"
      using forth [of r] unfolding row_moves_def by (metis image_eqI)
  qed
  show ?thesis
    using safe ok 1 2 3 4 by (simp add: world_safe_def world_later_def)
qed

section \<open>The relay's contract holds\<close>

lemma table_ok_unique: "table_ok q t \<Longrightarrow> r \<in> set t \<Longrightarrow> r' \<in> set t \<Longrightarrow> row_id r = row_id r' \<Longrightarrow> r = r'"
  by (auto simp: table_ok_def distinct_map dest: inj_onD)

lemma claimed_committed:
  assumes safe: "world_safe q (w\<lparr>w_table := t'\<rparr>)"
    and "Claim q db env wid limit lease t = (Inr recs, t')" and "rec \<in> set recs"
  shows "world_committed (w\<lparr>w_table := t'\<rparr>) rec"
proof -
  from assms(2) obtain worker rows where
    sql: "sql_claim q (ce_now env) (ce_locked env) worker (lease div 1000) (nat limit) t = Inr (rows, t')"
    and "list_all2 (record_of_row) rows recs"
    by (rule Claim_Inr)
  with assms(3) obtain r where r: "r \<in> set rows" "record_of_row r rec"
    by (metis in_set_conv_nth list_all2_conv_all_nth)
  have "set rows \<subseteq> set t'"
  proof -
    have "mset (returning_order q xs) = mset xs" for xs
      using safe storage_order unfolding world_safe_def by blast
    then have "set (returning_order q xs) = set xs" for xs
      by (metis set_mset_mset)
    then show ?thesis using sql by (auto simp: sql_claim_Inr)
  qed
  with r(1) have row: "r \<in> set t'" by blast
  have "row_source r" using row safe by (simp add: world_safe_def)
  then have "row_id r = env_id (rec_envelope rec)"
    using row_source_id r(2) by (simp add: record_of_row_def)
  then show ?thesis
    using row r(2) by (auto simp: world_committed_def record_of_row_def)
qed

lemma claim_safe:
  assumes "Claim q db env wid limit lease (w_table w) = (res, t')" and "world_safe q w"
  shows "world_safe q (w\<lparr>w_table := t'\<rparr>) \<and> world_later w (w\<lparr>w_table := t'\<rparr>)
    \<and> (\<forall>recs. res = Inr recs \<longrightarrow> (\<forall>rec \<in> set recs. world_committed (w\<lparr>w_table := t'\<rparr>) rec))"
proof -
  have "table_ok q t'" using Claim_ok [OF _ assms(1)] assms(2) by (simp add: world_safe_def)
  from safe_moves [OF assms(2) Claim_moves [OF assms(1)] this]
  show ?thesis using claimed_committed assms(1) by blast
qed

lemma mark_published_safe:
  assumes mark: "MarkPublished q db fault now (env_id (rec_envelope rec)) wid (w_table w) = (err, t')"
    and safe: "world_safe q w" and known: "world_committed w rec" and stored: "world_stored w rec"
  shows "world_safe q (w\<lparr>w_table := t'\<rparr>) \<and> world_later w (w\<lparr>w_table := t'\<rparr>)"
proof (rule safe_moves [OF safe])
  have "to_uuid q (env_id (rec_envelope rec)) = Some (env_id (rec_envelope rec))"
    using safe storage_uuid committed_id [OF known] unfolding world_safe_def by blast
  with mark show "list_all2 (row_moves {env_id (rec_envelope rec)}) (w_table w) t'"
    by (rule MarkPublished_moves)
  have ok: "table_ok q (w_table w)" using safe by (simp add: world_safe_def)
  then show "table_ok q t'" using mark by (rule MarkPublished_ok)
  fix r assume r: "r \<in> set (w_table w)" "row_id r \<in> {env_id (rec_envelope rec)}"
  from known obtain r0 where r0: "r0 \<in> set (w_table w)" "row_id r0 = env_id (rec_envelope rec)"
    "row_subject r0 = rec_subject rec" "unmarshal_envelope (row_payload r0) = Inr (rec_envelope rec)"
    by (auto simp: world_committed_def)
  with r have "r = r0" by (intro table_ok_unique [OF ok]) auto
  moreover have "Validate (rec_envelope rec) = None" using known by (simp add: world_committed_def)
  ultimately show "\<exists>m \<in> set (w_stream w). message_of r m"
    using r0 stored by (auto simp: message_of_def world_stored_def)
qed

lemma mark_failed_safe:
  assumes "MarkFailed q db fault now eid wid cls m at code (w_table w) = (err, t')" and "world_safe q w"
  shows "world_safe q (w\<lparr>w_table := t'\<rparr>) \<and> world_later w (w\<lparr>w_table := t'\<rparr>)"
proof -
  have "table_ok q t'" using MarkFailed_ok [OF _ assms(1)] assms(2) by (simp add: world_safe_def)
  from safe_moves [OF assms(2) MarkFailed_moves [OF assms(1)] this] show ?thesis by blast
qed

lemma store_message_safe:
  assumes safe: "world_safe q w" and known: "world_committed w rec"
    and payload: "marshal_envelope (rec_envelope rec) = Inr payload"
  shows "world_safe q (store_message (rec_subject rec) (env_id (rec_envelope rec)) payload w)"
    and "world_later w (store_message (rec_subject rec) (env_id (rec_envelope rec)) payload w)"
    and "world_stored (store_message (rec_subject rec) (env_id (rec_envelope rec)) payload w) rec"
proof -
  let ?m = "\<lparr>msg_subject = rec_subject rec, msg_id = env_id (rec_envelope rec), msg_payload = payload\<rparr>"
  have "\<exists>r \<in> set (w_table w). message_of r ?m"
    using known payload unfolding world_committed_def message_of_def by force
  with safe show "world_safe q (store_message (rec_subject rec) (env_id (rec_envelope rec)) payload w)"
    by (auto simp: world_safe_def store_message_def)
qed (auto simp: store_message_def world_later_def world_stored_def payload)

lemma duplicate_stored:
  assumes safe: "world_safe q w" and known: "world_committed w rec"
    and m: "m \<in> set (w_stream w)" "msg_id m = env_id (rec_envelope rec)"
  shows "world_stored w rec"
proof -
  from known obtain r where r: "r \<in> set (w_table w)" "row_id r = env_id (rec_envelope rec)"
    "row_subject r = rec_subject rec" "unmarshal_envelope (row_payload r) = Inr (rec_envelope rec)"
    by (auto simp: world_committed_def)
  from safe m(1) obtain r' where r': "r' \<in> set (w_table w)" "message_of r' m"
    by (auto simp: world_safe_def)
  have "r' = r"
    using safe r r' m(2) by (intro table_ok_unique [of q "w_table w"]) (auto simp: world_safe_def message_of_def)
  with r r' m show ?thesis
    by (auto simp: world_stored_def message_of_def)
qed

lemma publish_safe:
  assumes pub: "nats_Publish (js_publish_msg outcome) client (rec_subject rec) (env_id (rec_envelope rec)) payload w = (err, w')"
    and safe: "world_safe q w" and known: "world_committed w rec"
    and payload: "marshal_envelope (rec_envelope rec) = Inr payload"
  shows "world_safe q w' \<and> world_later w w' \<and> (err = None \<longrightarrow> world_stored w' rec)"
proof -
  note store = store_message_safe [OF safe known payload]
  have refl: "world_later w w" by (simp add: world_later_def)
  show ?thesis
    using pub store refl safe duplicate_stored [OF safe known]
    by (auto simp: nats_Publish_def js_publish_msg_def list_ex_iff
        split: sum.splits publish_outcome.splits if_splits)
qed

lemma world_later_trans: "world_later w w' \<Longrightarrow> world_later w' w'' \<Longrightarrow> world_later w w''"
  unfolding world_later_def by (meson order_trans)

lemma world_committed_later: "world_later w w' \<Longrightarrow> world_committed w rec \<Longrightarrow> world_committed w' rec"
proof -
  assume later: "world_later w w'" and known: "world_committed w rec"
  then obtain r where r: "r \<in> set (w_table w)" "row_id r = env_id (rec_envelope rec)"
    "row_subject r = rec_subject rec" "unmarshal_envelope (row_payload r) = Inr (rec_envelope rec)"
    by (auto simp: world_committed_def)
  then have "event_columns r \<in> event_columns ` set (w_table w')"
    using later by (auto simp: world_later_def)
  then obtain r' where "r' \<in> set (w_table w')" "event_columns r' = event_columns r"
    by (metis imageE)
  with r known event_columns_D [of r' r] show ?thesis
    by (auto simp: world_committed_def)
qed

lemma world_log_safe:
  "world_safe q (w\<lparr>w_log := l\<rparr>) = world_safe q w" "world_later w (w\<lparr>w_log := l\<rparr>)"
  by (simp_all add: world_safe_def world_later_def)

lemma world_ops_simps:
  "op_claim (world_ops q db client env) wid limit lease w = (res, w') \<longleftrightarrow>
    (\<exists>t. Claim q db (call_claim env) wid limit lease (w_table w) = (res, t) \<and> w' = w\<lparr>w_table := t\<rparr>)"
  "op_mark_published (world_ops q db client env) eid wid w = (err, w') \<longleftrightarrow>
    (\<exists>t. MarkPublished q db (call_fault env) (call_db_now env) eid wid (w_table w) = (err, t) \<and> w' = w\<lparr>w_table := t\<rparr>)"
  "op_mark_failed (world_ops q db client env) eid wid cls m at code w = (err, w') \<longleftrightarrow>
    (\<exists>t. MarkFailed q db (call_fault env) (call_db_now env) eid wid cls m at code (w_table w) = (err, t)
      \<and> w' = w\<lparr>w_table := t\<rparr>)"
  "op_publish (world_ops q db client env) = nats_Publish (js_publish_msg (call_publish env)) client"
  "op_marshal (world_ops q db client env) = marshal_envelope"
  "op_now (world_ops q db client env) w = (call_now env, w)"
  "op_log (world_ops q db client env) entry w = w\<lparr>w_log := w_log w @ [entry]\<rparr>"
  by (auto simp: world_ops_def split: prod.splits)

interpretation world_backend: relay_backend "world_ops q db client env"
  "world_safe q" "world_committed" "world_stored" world_later
  for q db client env
proof (unfold_locales, goal_cases)
  case 1 show ?case by (simp add: world_later_def)
next
  case 2 then show ?case by (rule world_later_trans)
next
  case 3 then show ?case by (rule world_committed_later)
next
  case 4 then show ?case by (auto simp: world_later_def world_stored_def)
next
  case 5 then show ?case unfolding world_ops_simps by (elim exE conjE) (simp add: claim_safe)
next
  case 6 then show ?case using publish_safe by (simp add: world_ops_simps)
next
  case 7 then show ?case unfolding world_ops_simps by (elim exE conjE) (simp add: mark_published_safe)
next
  case 8 then show ?case unfolding world_ops_simps by (elim exE conjE) (simp add: mark_failed_safe)
next
  case 9 then show ?case by (auto simp: world_ops_simps world_later_def)
next
  case 10 then show ?case by (simp add: world_ops_simps world_log_safe)
qed

section \<open>Every reachable state of the system\<close>

definition system_ok :: "pg \<Rightarrow> relay_system \<Rightarrow> bool" where
  "system_ok q s \<longleftrightarrow>
     world_safe q (sys_world s)
     \<and> (\<forall>wid. pc_ok (world_committed) (world_stored) (sys_world s) (sys_workers s wid))"

lemma insert_safe:
  assumes ins: "Insert q fault now e (w_table w) = (err, t)" and safe: "world_safe q w"
  shows "world_safe q (w\<lparr>w_table := t\<rparr>) \<and> world_later w (w\<lparr>w_table := t\<rparr>)"
  using ins
proof (cases rule: Insert_table_cases)
  case 1
  then show ?thesis using safe by (simp add: world_later_def)
next
  case (2 subject payload)
  from 2(5) obtain eid tenant aggregate correlation causation kept where
    eid: "to_uuid q (env_id e) = Some eid" and stored: "jsonb_text q payload = Some kept"
    and constraints: "row_constraints q (new_row now e eid subject tenant aggregate correlation causation kept)"
    and t: "t = w_table w @ [new_row now e eid subject tenant aggregate correlation causation kept]"
    by (rule sql_insert_Inr)
  let ?row = "new_row now e eid subject tenant aggregate correlation causation kept"
  have laws: "storage_laws q" using safe by (simp add: world_safe_def)
  have "IsUUIDv7 (env_id e)" using 2(2) by (simp add: Validate_None_iff valid_envelope_def)
  then have "eid = env_id e" using eid storage_uuid [OF laws] by simp
  then have row: "row_id ?row = env_id e" "row_payload ?row = kept"
    by (simp_all add: new_row_def)
  have version: "in_i64 (env_version e)"
    using constraints by (simp add: row_constraints_def new_row_def in_i32_def in_i64_def)
  have "source_event ?row e"
    using stored_decodes [OF storage_json [OF laws] 2(2) version 2(4) stored] 2(2,3) row
    by (auto simp: source_event_def new_row_def)
  then have "row_source ?row" unfolding row_source_def by blast
  moreover have "row_status ?row \<noteq> Published" by (simp add: new_row_def)
  moreover have "table_ok q t" using Insert_ok [OF _ ins] safe by (simp add: world_safe_def)
  moreover have "set t = insert ?row (set (w_table w))" by (simp add: t)
  ultimately show ?thesis
    using safe unfolding world_safe_def world_later_def by auto
qed

lemma relay_step_ok:
  assumes "relay_step q cfg s s'" and "system_ok q s"
  shows "system_ok q s'"
  using assms(1)
proof cases
  case (sys_act db client env wid pc w)
  with world_backend.act_safe [OF sys_act(2)] assms(2)
  have "world_safe q w" "world_later (sys_world s) w" "pc_ok (world_committed) (world_stored) w pc"
    by (auto simp: system_ok_def)
  then show ?thesis
    using sys_act(1) assms(2) world_backend.pc_ok_later by (auto simp: system_ok_def)
qed (use assms(2) in \<open>auto simp: system_ok_def pc_ok_def\<close>)

lemma system_step_ok:
  assumes "system_step q cfg s s'" and "system_ok q s"
  shows "system_ok q s'"
  using assms(1)
proof cases
  case (sys_commit fault now e err t)
  then show ?thesis
    using insert_safe [OF sys_commit(2)] assms(2) world_backend.pc_ok_later by (auto simp: system_ok_def)
qed (use relay_step_ok assms(2) in blast)

lemma reachable_system_ok:
  assumes "reachable_system q cfg s" and "storage_laws q"
  shows "system_ok q s"
  using assms(1)
proof induction
  case reach_initial
  then show ?case
    using assms(2) by (simp add: system_ok_def world_safe_def initial_system_def pc_ok_def table_ok_def)
qed (rule system_step_ok)

end
