(* ===== verification/RelayProgress.thy ===== *)
theory RelayProgress
  imports RelaySystem
begin

text \<open>
  What the relay achieves: safety of the whole outbox system in every reachable state, and progress
  of a batch when nothing fails.
\<close>

section \<open>A batch without failures\<close>

definition quiet_env :: "int \<Rightarrow> bool \<Rightarrow> time \<Rightarrow> int \<Rightarrow> call_env" where
  "quiet_env db_time in_window now mark_time =
     \<lparr>call_claim = \<lparr>ce_now = db_time, ce_locked = (\<lambda>_. False), ce_query_err = None, ce_scan_err = (\<lambda>_. None),
        ce_rows_end = None, ce_tx = quiet_tx\<rparr>,
      call_fault = None, call_db_now = mark_time, call_now = now, call_publish = PubAck in_window\<rparr>"

definition leased_record :: "string \<Rightarrow> relay_world \<Rightarrow> outbox_record \<Rightarrow> bool" where
  "leased_record wid w rec \<longleftrightarrow>
     (\<exists>r. row_of (w_table w) (env_id (rec_envelope rec)) = Some r \<and> row_status r = Publishing
        \<and> row_lease_owner r = Some wid)"

lemma publish_quiet:
  assumes "nc_jetStream client = Some js"
  shows "\<exists>w1. op_publish (world_ops q db client (quiet_env dt win now mt)) subject mid payload w = (None, w1)
    \<and> w_table w1 = w_table w"
  using assms
  by (auto simp: world_ops_simps nats_Publish_def nats_JetStream_def js_publish_msg_def quiet_env_def store_message_def)

lemma mark_quiet:
  assumes "world_safe q w" "db_pool db = Some pool" "IsUUIDv7 wid" "IsUUIDv7 eid"
    and r: "row_of (w_table w) eid = Some r" "row_status r = Publishing" "row_lease_owner r = Some wid"
  shows "\<exists>w1. op_mark_published (world_ops q db client (quiet_env dt win now mt)) eid wid w = (None, w1)
    \<and> row_of (w_table w1) eid = Some (publish_row mt r)
    \<and> (\<forall>x. x \<noteq> eid \<longrightarrow> row_of (w_table w1) x = row_of (w_table w) x)"
proof -
  have ok: "table_ok q (w_table w)" and laws: "storage_laws q" using assms(1) by (auto simp: world_safe_def)
  have uuids: "to_uuid q eid = Some eid" "to_uuid q wid = Some wid"
    using storage_uuid [OF laws] assms(3,4) by auto
  obtain err t where mark: "MarkPublished q db None mt eid wid (w_table w) = (err, t)" by fastforce
  have run: "exec_leased q None ''mark outbox event published: %w'' ''outbox publication lease is no longer owned''
      eid wid (publish_row mt) (w_table w) = (err, t)"
    using mark assms(2) by (simp add: MarkPublished_def database_Pool_def)
  note exact = exec_leased_exact [OF ok uuids, of "publish_row mt" "''mark outbox event published: %w''"
      "''outbox publication lease is no longer owned''", unfolded run]
  have "err = None" and rows: "\<And>x. row_of t x =
      map_option (\<lambda>r. if leased_by eid wid r then publish_row mt r else r) (row_of (w_table w) x)"
    using exact r by simp_all
  moreover have "leased_by eid wid r" using r row_of_id [OF r(1)] by (simp add: leased_by_def)
  moreover have "row_of t x = row_of (w_table w) x" if "x \<noteq> eid" for x
    using rows [of x] that row_of_id [of "w_table w" x] by (cases "row_of (w_table w) x") (auto simp: leased_by_def)
  ultimately show ?thesis
    using mark r(1) by (intro exI [of _ "w\<lparr>w_table := t\<rparr>"]) (auto simp: world_ops_simps quiet_env_def)
qed

text \<open>One record: it is published and marked, and the loop goes on with the rest.\<close>

lemma record_quiet:
  assumes env: "db_pool db = Some pool" "nc_jetStream client = Some js" "IsUUIDv7 wid"
    and safe: "world_safe q w" and known: "world_committed w rec" and lease: "leased_record wid w rec"
    and p: "marshal_envelope (rec_envelope rec) = Inr p"
  shows "\<exists>w'. process_records (world_ops q db client (quiet_env dt win now mt)) c wid (rec # recs) w
      = process_records (world_ops q db client (quiet_env dt win now mt)) c wid recs w'
    \<and> world_safe q w' \<and> world_later w w'
    \<and> (\<exists>r. row_of (w_table w') (env_id (rec_envelope rec)) = Some r \<and> row_status r = Published)
    \<and> (\<forall>x. x \<noteq> env_id (rec_envelope rec) \<longrightarrow> row_of (w_table w') x = row_of (w_table w) x)"
proof -
  let ?ops = "world_ops q db client (quiet_env dt win now mt)"
  let ?eid = "env_id (rec_envelope rec)"
  let ?w0 = "op_log ?ops (relay_log LogInfo ''outbox event publication started'' rec []) w"
  have w0: "world_safe q ?w0" "world_later w ?w0" "w_table ?w0 = w_table w"
    using safe by (simp_all add: world_ops_simps world_log_safe)
  have known0: "world_committed ?w0 rec" by (rule world_committed_later [OF w0(2) known])
  obtain w1 where w1: "op_publish ?ops (rec_subject rec) ?eid p ?w0 = (None, w1)" "w_table w1 = w_table w"
    using publish_quiet [OF env(2)] w0(3) by metis
  have safe1: "world_safe q w1" "world_later ?w0 w1" "world_stored w1 rec"
    using world_backend.publish [OF _ w1(1) w0(1) known0] p by (simp_all add: world_ops_simps)
  have known1: "world_committed w1 rec" by (rule world_committed_later [OF safe1(2) known0])
  from lease obtain r where r: "row_of (w_table w1) ?eid = Some r" "row_status r = Publishing"
    "row_lease_owner r = Some wid"
    by (auto simp: leased_record_def w1(2))
  have "IsUUIDv7 ?eid" by (rule committed_id [OF known])
  from mark_quiet [OF safe1(1) env(1,3) this r] obtain w2 where
    w2: "op_mark_published ?ops ?eid wid w1 = (None, w2)" "row_of (w_table w2) ?eid = Some (publish_row mt r)"
      "\<forall>x. x \<noteq> ?eid \<longrightarrow> row_of (w_table w2) x = row_of (w_table w1) x"
    by blast
  have safe2: "world_safe q w2" "world_later w1 w2"
    using world_backend.mark_published [OF w2(1) safe1(1) known1 safe1(3)] by blast+
  let ?w3 = "op_log ?ops (relay_log LogInfo ''outbox event publication completed'' rec []) w2"
  have w3: "world_safe q ?w3" "w_table ?w3 = w_table w2" "world_later w2 ?w3"
    using safe2(1) by (simp_all add: world_ops_simps world_log_safe)
  have "world_later w ?w3"
    using w0(2) safe1(2) safe2(2) w3(3) world_later_trans by blast
  moreover have "process_records ?ops c wid (rec # recs) w = process_records ?ops c wid recs ?w3"
    using p w1(1) w2(1) by (simp add: Let_def world_ops_simps(5))
  ultimately show ?thesis
    using w3(1) w2(2,3) by (intro exI [of _ ?w3]) (simp add: w3(2) w1(2) publish_row_def)
qed

lemma process_records_quiet:
  assumes env: "db_pool db = Some pool" "nc_jetStream client = Some js" "IsUUIDv7 wid"
    and "world_safe q w" and "list_all (world_committed w) recs" and "list_all (leased_record wid w) recs"
    and "distinct (map (\<lambda>rec. env_id (rec_envelope rec)) recs)"
    and "\<forall>rec \<in> set recs. \<exists>p. marshal_envelope (rec_envelope rec) = Inr p"
  shows "\<exists>w'. process_records (world_ops q db client (quiet_env dt win now mt)) c wid recs w = (None, w')
    \<and> world_safe q w'
    \<and> (\<forall>rec \<in> set recs. \<exists>r. row_of (w_table w') (env_id (rec_envelope rec)) = Some r \<and> row_status r = Published)
    \<and> (\<forall>x. x \<notin> (\<lambda>rec. env_id (rec_envelope rec)) ` set recs \<longrightarrow> row_of (w_table w') x = row_of (w_table w) x)"
  using assms(4-)
proof (induction recs arbitrary: w)
  case (Cons rec recs)
  let ?run = "process_records (world_ops q db client (quiet_env dt win now mt)) c wid"
  let ?eid = "env_id (rec_envelope rec)"
  obtain p where p: "marshal_envelope (rec_envelope rec) = Inr p" using Cons.prems(5) by auto
  have "world_committed w rec" "leased_record wid w rec" using Cons.prems(2,3) by simp_all
  from record_quiet [OF env Cons.prems(1) this p] obtain w1 r where
    w1: "?run (rec # recs) w = ?run recs w1" "world_safe q w1" "world_later w w1"
      "row_of (w_table w1) ?eid = Some r" "row_status r = Published"
      "\<forall>x. x \<noteq> ?eid \<longrightarrow> row_of (w_table w1) x = row_of (w_table w) x"
    by blast
  have "list_all (world_committed w1) recs"
    using Cons.prems(2) world_backend.committed_all_later [OF w1(3)] by auto
  moreover have new: "?eid \<notin> (\<lambda>rec. env_id (rec_envelope rec)) ` set recs" using Cons.prems(4) by simp
  have "list_all (leased_record wid w1) recs"
    using Cons.prems(3) new w1(6) by (auto simp: leased_record_def list_all_iff) (metis image_eqI)
  ultimately obtain w' where w': "?run recs w1 = (None, w')" "world_safe q w'"
    "\<forall>rec \<in> set recs. \<exists>r. row_of (w_table w') (env_id (rec_envelope rec)) = Some r \<and> row_status r = Published"
    "\<forall>x. x \<notin> (\<lambda>rec. env_id (rec_envelope rec)) ` set recs \<longrightarrow> row_of (w_table w') x = row_of (w_table w1) x"
    using Cons.IH [OF w1(2)] Cons.prems(4,5) by auto
  then have "row_of (w_table w') ?eid = Some r" using new w1(4) by simp
  with w' w1 show ?case by (intro exI [of _ w']) simp
qed simp

section \<open>A claim without failures\<close>

lemma candidates_all_due:
  assumes "length (filter (due now) t) \<le> limit"
  shows "claimed now (\<lambda>_. False) limit t = row_id ` {r \<in> set t. due now r}"
  using assms by (auto simp: claimed_def claim_candidates_def)

lemma claim_quiet:
  assumes ok: "table_ok q t" and laws: "storage_laws q" and pool: "db_pool db = Some pool" and wid: "IsUUIDv7 wid"
    and bounds: "1 \<le> limit" "limit \<le> 1000" "0 < lease"
    and decodes: "\<forall>r \<in> set t. due dt r \<longrightarrow> (\<exists>e. unmarshal_envelope (row_payload r) = Inr e \<and> Validate e = None)"
    and attempts: "\<forall>r \<in> set t. due dt r \<longrightarrow> row_attempt_count r + 1 < 2 ^ 31"
  shows "\<exists>recs. Claim q db (call_claim (quiet_env dt win now mt)) wid limit lease t
      = (Inr recs, claim_table dt (\<lambda>_. False) (nat limit) wid (lease div 1000) t)"
proof -
  let ?C = "claimed dt (\<lambda>_. False) (nat limit) t"
  let ?t' = "claim_table dt (\<lambda>_. False) (nat limit) wid (lease div 1000) t"
  have dist: "distinct (map row_id t)" using ok by (simp add: table_ok_def)
  have due: "due dt r" if "r \<in> set t" "row_id r \<in> ?C" for r
    using claimed_due(1) [OF dist that] .
  obtain rows where sql: "sql_claim q dt (\<lambda>_. False) wid (lease div 1000) (nat limit) t = Inr (rows, ?t')"
    using attempts due by (simp add: sql_claim_Inr)
  have "\<exists>e. unmarshal_envelope (row_payload r) = Inr e \<and> Validate e = None" if "r \<in> set rows" for r
  proof -
    have "mset rows = mset (map (claim_row dt wid (lease div 1000)) (filter (\<lambda>r. row_id r \<in> ?C) t))"
      by (rule sql_claim_rows [OF sql]) (rule storage_order [OF laws])
    with that obtain r0 where "r0 \<in> set t" "row_id r0 \<in> ?C" "r = claim_row dt wid (lease div 1000) r0"
      using mset_eq_setD by fastforce
    then show ?thesis using decodes due by (simp add: claim_row_def)
  qed
  then obtain recs where scan: "scan_claimed (\<lambda>_. None) 0 rows [] = (None, recs)"
    using scan_claimed_total [of "\<lambda>_. None" rows 0 "[]"] by auto
  have "claim_operation q (call_claim (quiet_env dt win now mt)) wid limit lease t = OpDone None recs ?t'"
    using sql scan storage_uuid [OF laws wid] bounds
    by (simp add: claim_operation_def quiet_env_def uuid_arg_def quot_nonneg)
  then show ?thesis
    using wid bounds pool
    by (simp add: Claim_def InTransaction_def database_Pool_def quiet_env_def quiet_tx_def)
qed

lemma claimed_records:
  assumes ok: "table_ok q t" and laws: "storage_laws q" and source: "\<forall>r \<in> set t'. row_source r"
    and claim: "Claim q db env wid limit lease t = (Inr recs, t')" and wid: "to_uuid q wid = Some wid"
  shows "\<exists>rows. map (\<lambda>rec. env_id (rec_envelope rec)) recs = map row_id rows \<and> distinct (map row_id rows)
    \<and> row_id ` set rows = claimed (ce_now env) (ce_locked env) (nat limit) t
    \<and> (\<forall>r \<in> set rows. row_of t' (row_id r) = Some r \<and> row_status r = Publishing \<and> row_lease_owner r = Some wid)"
proof -
  have perm: "\<And>xs. mset (returning_order q xs) = mset xs" by (rule storage_order [OF laws])
  have dist: "distinct (map row_id t)" using ok by (simp add: table_ok_def)
  have dist': "distinct (map row_id t')" using Claim_ok [OF ok claim] by (simp add: table_ok_def)
  from claim obtain worker rows where worker: "to_uuid q wid = Some worker" and
    sql: "sql_claim q (ce_now env) (ce_locked env) worker (lease div 1000) (nat limit) t = Inr (rows, t')" and
    recs: "list_all2 record_of_row rows recs"
    by (rule Claim_Inr)
  let ?C = "claimed (ce_now env) (ce_locked env) (nat limit) t"
  have set_rows: "set rows = claim_row (ce_now env) worker (lease div 1000) ` {r \<in> set t. row_id r \<in> ?C}"
    using mset_eq_setD [OF sql_claim_rows [OF sql perm]] by simp
  have t': "t' = claim_table (ce_now env) (ce_locked env) (nat limit) worker (lease div 1000) t"
    using sql by (simp add: sql_claim_Inr)
  have sub: "set rows \<subseteq> set t'" unfolding set_rows t' claim_table_def by force
  have "env_id (rec_envelope rec) = row_id r" if "r \<in> set rows" "record_of_row r rec" for r rec
    using that row_source_id source sub by (auto simp: record_of_row_def)
  then have ids: "map (\<lambda>rec. env_id (rec_envelope rec)) recs = map row_id rows"
    using recs by (auto simp: list_all2_conv_all_nth list_eq_iff_nth_eq)
  have "?C \<subseteq> row_id ` set t" using candidates_subset by (fastforce simp: claimed_def)
  then have "row_id ` set rows = ?C" unfolding set_rows by (force simp: image_image)
  moreover have "row_of t' (row_id r) = Some r \<and> row_status r = Publishing \<and> row_lease_owner r = Some wid"
    if "r \<in> set rows" for r
    using that sub worker wid row_of_Some_iff [OF dist'] by (auto simp: set_rows claim_row_def)
  moreover note sql_claim_rows_distinct [OF sql perm dist]
  ultimately show ?thesis using ids by blast
qed

lemma committed_payload:
  assumes "world_safe q w'" and "world_later w w'" and "world_committed w' rec"
    and "r \<in> set (w_table w)" and "row_id r = env_id (rec_envelope rec)"
  shows "unmarshal_envelope (row_payload r) = Inr (rec_envelope rec)"
proof -
  from assms(3) obtain r1 where r1: "r1 \<in> set (w_table w')" "row_id r1 = env_id (rec_envelope rec)"
    "unmarshal_envelope (row_payload r1) = Inr (rec_envelope rec)"
    by (auto simp: world_committed_def)
  have "event_columns r \<in> event_columns ` set (w_table w')"
    using assms(2,4) by (auto simp: world_later_def)
  then obtain r2 where r2: "r2 \<in> set (w_table w')" "event_columns r2 = event_columns r" by (metis imageE)
  have "r2 = r1"
    using assms(1,5) r1 r2 event_columns_D(1) [OF r2(2)]
    by (intro table_ok_unique [of q "w_table w'"]) (auto simp: world_safe_def)
  with r1(3) event_columns_D(3) [OF r2(2)] show ?thesis by simp
qed

lemma batch_quiet:
  assumes safe: "world_safe q w" and policy: "relay_policy_error c = None" and wid: "IsUUIDv7 wid"
    and env: "db_pool db = Some pool" "nc_jetStream client = Some js"
    and size: "int (length (filter (due dt) (w_table w))) \<le> BatchSize c"
    and encodable: "\<forall>r \<in> set (w_table w). due dt r \<longrightarrow>
      (\<exists>e p. unmarshal_envelope (row_payload r) = Inr e \<and> Validate e = None \<and> marshal_envelope e = Inr p)"
    and attempts: "\<forall>r \<in> set (w_table w). due dt r \<longrightarrow> row_attempt_count r + 1 < 2 ^ 31"
  shows "\<exists>w'. processBatch (world_ops q db client (quiet_env dt win now mt)) c wid w = (None, w')
    \<and> world_safe q w'
    \<and> (\<forall>r \<in> set (w_table w). due dt r \<longrightarrow> (\<exists>r'. row_of (w_table w') (row_id r) = Some r' \<and> row_status r' = Published))"
proof -
  let ?ops = "world_ops q db client (quiet_env dt win now mt)"
  have laws: "storage_laws q" and ok: "table_ok q (w_table w)" using safe by (auto simp: world_safe_def)
  obtain recs t' where claim: "Claim q db (call_claim (quiet_env dt win now mt)) wid (BatchSize c) (LeaseDuration c) (w_table w)
      = (Inr recs, t')"
    using claim_quiet [OF ok laws env(1) wid, of "BatchSize c" "LeaseDuration c" dt] encodable attempts policy
    by (auto simp: policy_ok_iff) metis
  let ?w1 = "w\<lparr>w_table := t'\<rparr>"
  have safe1: "world_safe q ?w1" and known: "list_all (world_committed ?w1) recs"
    using claim_safe [OF claim safe] by (auto simp: list_all_iff)
  obtain rows where rows: "map (\<lambda>rec. env_id (rec_envelope rec)) recs = map row_id rows" "distinct (map row_id rows)"
    "row_id ` set rows = claimed dt (\<lambda>_. False) (nat (BatchSize c)) (w_table w)"
    "\<forall>r \<in> set rows. row_of t' (row_id r) = Some r \<and> row_status r = Publishing \<and> row_lease_owner r = Some wid"
    using claimed_records [OF ok laws _ claim storage_uuid [OF laws wid]] safe1
    by (auto simp: world_safe_def quiet_env_def)
  have ids: "(\<lambda>rec. env_id (rec_envelope rec)) ` set recs = row_id ` {r \<in> set (w_table w). due dt r}"
    using arg_cong [OF rows(1), of set] rows(3) candidates_all_due [of dt "w_table w" "nat (BatchSize c)"] size by simp
  have lease: "list_all (leased_record wid ?w1) recs"
  proof (unfold list_all_iff, rule ballI)
    fix rec assume "rec \<in> set recs"
    then have "env_id (rec_envelope rec) \<in> set (map row_id rows)"
      unfolding rows(1) [symmetric] by simp
    then show "leased_record wid ?w1 rec" using rows(4) by (auto simp: leased_record_def)
  qed
  have enc: "\<exists>p. marshal_envelope (rec_envelope rec) = Inr p" if rec: "rec \<in> set recs" for rec
  proof -
    have "env_id (rec_envelope rec) \<in> row_id ` {r \<in> set (w_table w). due dt r}"
      unfolding ids [symmetric] using rec by blast
    then obtain r where r: "r \<in> set (w_table w)" "due dt r" "row_id r = env_id (rec_envelope rec)" by force
    have "unmarshal_envelope (row_payload r) = Inr (rec_envelope rec)"
      using committed_payload [OF safe1 _ _ r(1,3)] claim_safe [OF claim safe] rec by blast
    then show ?thesis using encodable r(1,2) by force
  qed
  from process_records_quiet [OF env wid safe1 known lease _ ] rows(1,2) enc
  obtain w' where w': "process_records ?ops c wid recs ?w1 = (None, w')" "world_safe q w'"
    "\<forall>rec \<in> set recs. \<exists>r. row_of (w_table w') (env_id (rec_envelope rec)) = Some r \<and> row_status r = Published"
    by metis
  have "processBatch ?ops c wid w = (None, w')"
    using claim w'(1) by (simp add: processBatch_def world_ops_def)
  moreover have "\<exists>r'. row_of (w_table w') (row_id r) = Some r' \<and> row_status r' = Published"
    if "r \<in> set (w_table w)" "due dt r" for r
  proof -
    have "row_id r \<in> (\<lambda>rec. env_id (rec_envelope rec)) ` set recs" unfolding ids using that by blast
    then show ?thesis using w'(3) by force
  qed
  ultimately show ?thesis using w'(2) by blast
qed

lemma batch_publishes:
  assumes "world_safe q w" and "relay_policy_error c = None" and "IsUUIDv7 wid"
    and "db_pool db = Some pool" and "nc_jetStream client = Some js"
    and "int (length (filter (due dt) (w_table w))) \<le> BatchSize c"
    and "\<forall>r \<in> set (w_table w). due dt r \<longrightarrow>
      (\<exists>e p. unmarshal_envelope (row_payload r) = Inr e \<and> Validate e = None \<and> marshal_envelope e = Inr p)"
    and "\<forall>r \<in> set (w_table w). due dt r \<longrightarrow> row_attempt_count r + 1 < 2 ^ 31"
  shows "\<exists>w'. processBatch (world_ops q db client (quiet_env dt win now mt)) c wid w = (None, w')
    \<and> (\<forall>r \<in> set (w_table w). due dt r \<longrightarrow>
         (\<exists>r'. row_of (w_table w') (row_id r) = Some r' \<and> row_status r' = Published
           \<and> (\<exists>m \<in> set (w_stream w'). message_of r' m)))"
proof -
  obtain w' where w': "processBatch (world_ops q db client (quiet_env dt win now mt)) c wid w = (None, w')"
    "world_safe q w'"
    "\<forall>r \<in> set (w_table w). due dt r \<longrightarrow> (\<exists>r'. row_of (w_table w') (row_id r) = Some r' \<and> row_status r' = Published)"
    using batch_quiet [OF assms] by blast
  have "\<exists>m \<in> set (w_stream w'). message_of r' m"
    if "row_of (w_table w') x = Some r'" "row_status r' = Published" for x r'
    using w'(2) that by (auto simp: world_safe_def table_ok_def row_of_Some_iff)
  with w' show ?thesis by (metis (no_types, lifting))
qed

section \<open>Runs\<close>

text \<open>A worker that runs several operations of its batch undisturbed.\<close>

lemma reach_acts:
  assumes "reachable_system q cfg s"
    and "relay_acts (world_ops q db client env) (cfg wid) wid n (sys_workers s wid, sys_world s) = (pc, w)"
  shows "\<exists>s'. reachable_system q cfg s' \<and> sys_world s' = w \<and> sys_workers s' wid = pc"
  using assms
proof (induction n arbitrary: s)
  case 0
  then show ?case by (intro exI [of _ s]) simp
next
  case (Suc n)
  obtain pc1 w1 where act: "relay_act (world_ops q db client env) (cfg wid) wid (sys_workers s wid) (sys_world s) = (pc1, w1)"
    by fastforce
  let ?s = "s\<lparr>sys_world := w1, sys_workers := (sys_workers s)(wid := pc1)\<rparr>"
  have "reachable_system q cfg ?s"
    by (rule reach_system_step [OF Suc.prems(1)], rule sys_relay, rule sys_act) (rule act)
  from Suc.IH [OF this] Suc.prems(2) act show ?case by simp
qed

text \<open>A concrete run for the witnesses: one event is committed, claimed, published and marked.\<close>

definition probe_relay_config :: relay_config where
  "probe_relay_config = \<lparr>PollInterval = 250 * Millisecond, LeaseDuration = 30 * Second, BatchSize = 100,
     MaxAttempts = 8, BaseBackoff = Second, MaxBackoff = 300 * Second\<rparr>"

definition probe_client :: "(unit, unit) nats_client" where
  "probe_client = \<lparr>nc_url = ''nats://127.0.0.1:4222'', nc_connection = Some (), nc_jetStream = Some ()\<rparr>"

definition probe_message :: stream_message where
  "probe_message = \<lparr>msg_subject = ''manoreck.events.infrastructure.probe.v1'', msg_id = probe_id CHR ''1'',
     msg_payload = probe_text\<rparr>"

definition committed_world :: relay_world where
  "committed_world = \<lparr>w_table = [demo_row], w_stream = [], w_log = []\<rparr>"

definition probe_ops :: "relay_world relay_ops" where
  "probe_ops = world_ops demo_pg running_db probe_client (quiet_env 200 True 0 300)"

lemma probe_laws: "storage_laws demo_pg"
  by (simp add: storage_laws_def demo_pg_def identity_faithful)

lemma probe_policy: "relay_policy_error probe_relay_config = None"
  by (simp add: relay_policy_error_def probe_relay_config_def Millisecond_def Second_def)

lemma quiet_claim: "call_claim (quiet_env 200 True 0 300) = demo_claim_env"
  by (simp add: quiet_env_def demo_claim_env_def)

lemma probe_marked:
  "MarkPublished demo_pg running_db None 300 (probe_id CHR ''1'') (probe_id CHR ''9'') [demo_claimed_row]
    = (None, [publish_row 300 demo_claimed_row])"
  by code_simp

lemma probe_run:
  "relay_acts probe_ops probe_relay_config (probe_id CHR ''9'') 3 (AtClaim, committed_world)
    = (AtRecords [],
       \<lparr>w_table = [publish_row 300 demo_claimed_row], w_stream = [probe_message],
        w_log = [relay_log LogInfo ''outbox event publication started'' demo_record [],
                 relay_log LogInfo ''outbox event publication completed'' demo_record []]\<rparr>)"
proof -
  have env: "call_publish (quiet_env 200 True 0 300) = PubAck True" "call_fault (quiet_env 200 True 0 300) = None"
    "call_db_now (quiet_env 200 True 0 300) = 300"
    by (simp_all add: quiet_env_def)
  have id: "env_id probe_envelope = probe_id CHR ''1''" by (simp add: probe_envelope_def)
  show ?thesis
    using demo_claim_limit [of 100] probe_marked
    by (simp add: eval_nat_numeral probe_ops_def world_ops_def committed_world_def probe_relay_config_def quiet_claim env
        demo_record_def probe_marshal id nats_Publish_def nats_JetStream_def js_publish_msg_def store_message_def
        probe_client_def probe_message_def)
qed

lemma committed_reachable:
  "\<exists>s. reachable_system demo_pg (\<lambda>_. probe_relay_config) s \<and> sys_world s = committed_world
    \<and> sys_workers s = (\<lambda>_. AtClaim)"
proof (intro exI conjI)
  show "reachable_system demo_pg (\<lambda>_. probe_relay_config)
      (initial_system\<lparr>sys_world := (sys_world initial_system)\<lparr>w_table := [demo_row]\<rparr>\<rparr>)"
    by (rule reach_system_step [OF reach_initial], rule sys_commit [where fault = None and now = 100
        and e = probe_envelope and err = None]) (simp add: initial_system_def demo_insert)
qed (simp_all add: initial_system_def committed_world_def)

lemma probe_reachable:
  "\<exists>s. reachable_system demo_pg (\<lambda>_. probe_relay_config) s
    \<and> w_table (sys_world s) = [publish_row 300 demo_claimed_row] \<and> w_stream (sys_world s) = [probe_message]"
proof -
  obtain s where s: "reachable_system demo_pg (\<lambda>_. probe_relay_config) s"
    "sys_world s = committed_world" "sys_workers s = (\<lambda>_. AtClaim)"
    using committed_reachable by blast
  from reach_acts [OF s(1), of running_db probe_client "quiet_env 200 True 0 300" "probe_id CHR ''9''" 3] probe_run s(2,3)
  show ?thesis by (auto simp: probe_ops_def)
qed

section \<open>Properties\<close>

text \<open>
  C1. At-least-once publication. In every state the system can reach, with any number of workers
  interleaved in any way, expired leases, crashes, lost acknowledgements and connection failures,
  an event marked as published has its message in the stream: same id and subject, and the
  encoding of the stored envelope as payload.
\<close>

theorem relay_at_least_once:
  assumes "storage_laws q" and "reachable_system q cfg s"
    and "r \<in> set (w_table (sys_world s))" and "row_status r = Published"
  shows "\<exists>m \<in> set (w_stream (sys_world s)). msg_id m = row_id r \<and> msg_subject m = row_subject r
    \<and> (\<exists>e. unmarshal_envelope (row_payload r) = Inr e \<and> Validate e = None \<and> marshal_envelope e = Inr (msg_payload m))"
  using reachable_system_ok [OF assms(2,1)] assms(3,4)
  by (simp add: system_ok_def world_safe_def message_of_def)

theorem relay_at_least_once_witness:
  "\<exists>s r. reachable_system demo_pg (\<lambda>_. probe_relay_config) s \<and> r \<in> set (w_table (sys_world s))
    \<and> row_status r = Published \<and> (\<exists>m \<in> set (w_stream (sys_world s)). msg_id m = row_id r)"
proof -
  obtain s where s: "reachable_system demo_pg (\<lambda>_. probe_relay_config) s"
    "w_table (sys_world s) = [publish_row 300 demo_claimed_row]"
    using probe_reachable by blast
  moreover have "row_status (publish_row 300 demo_claimed_row) = Published" by (simp add: publish_row_def)
  ultimately show ?thesis
    using relay_at_least_once [OF probe_laws s(1), of "publish_row 300 demo_claimed_row"] by force
qed

text \<open>
  C7. No phantom messages: every message the relays ever put into the stream is the message of
  exactly one committed event, which is still in the table under that id.
\<close>

theorem relay_no_phantom:
  assumes "storage_laws q" and "reachable_system q cfg s" and "m \<in> set (w_stream (sys_world s))"
  shows "\<exists>!r. r \<in> set (w_table (sys_world s)) \<and> row_id r = msg_id m \<and> row_subject r = msg_subject m
    \<and> (\<exists>e. unmarshal_envelope (row_payload r) = Inr e \<and> env_id e = msg_id m
          \<and> marshal_envelope e = Inr (msg_payload m))"
proof -
  have safe: "world_safe q (sys_world s)"
    using reachable_system_ok [OF assms(2,1)] by (simp add: system_ok_def)
  with assms(3) obtain r where r: "r \<in> set (w_table (sys_world s))" "message_of r m" "row_source r"
    by (auto simp: world_safe_def)
  have "table_ok q (w_table (sys_world s))" using safe by (simp add: world_safe_def)
  from table_ok_unique [OF this _ r(1)] row_source_id [OF r(3)] r(1,2) show ?thesis
    by (intro ex1I [of _ r]) (auto simp: message_of_def)
qed

theorem relay_no_phantom_witness:
  "\<exists>s. reachable_system demo_pg (\<lambda>_. probe_relay_config) s
    \<and> probe_message \<in> set (w_stream (sys_world s)) \<and> (\<exists>r \<in> set (w_table (sys_world s)). row_id r = msg_id probe_message)"
proof -
  obtain s where s: "reachable_system demo_pg (\<lambda>_. probe_relay_config) s"
    "probe_message \<in> set (w_stream (sys_world s))"
    using probe_reachable by (metis list.set_intros(1))
  from relay_no_phantom [OF probe_laws s] s show ?thesis by blast
qed




text \<open>
  C22. The retry delay is exponential and bounded: under a policy \<open>NewRelay\<close> accepts, \<open>backoff\<close>
  is exactly \<open>BaseBackoff * 2 ^ (attempt - 1)\<close> capped at \<open>MaxBackoff\<close>; its 64-bit doubling
  never overflows.
\<close>

theorem backoff_exact:
  assumes "relay_policy_error c = None" and "in_i64 (MaxBackoff c)"
  shows "backoff c attempt = min (MaxBackoff c) (BaseBackoff c * 2 ^ nat (attempt - 1))
    \<and> BaseBackoff c \<le> backoff c attempt \<and> backoff c attempt \<le> MaxBackoff c"
proof -
  have "backoff c attempt = min (MaxBackoff c) (BaseBackoff c * 2 ^ nat (attempt - 1))"
    using assms by (intro backoff_min) (simp_all add: in_i64_def)
  moreover have "BaseBackoff c \<le> BaseBackoff c * 2 ^ nat (attempt - 1)"
    using assms(1) by (simp add: policy_ok_iff)
  ultimately show ?thesis using assms(1) by (simp add: policy_ok_iff)
qed

theorem backoff_exact_witness: "backoff probe_relay_config 4 = 8 * Second"
  using backoff_exact [OF probe_policy, of 4]
  by (simp add: in_i64_def probe_relay_config_def Second_def)

end
