(* ===== verification/Sha256.thy ===== *)
theory Sha256
  imports Identifier
begin

unbundle bit_operations_syntax

text \<open>
  \<open>crypto/sha256\<close> as eventconsumer uses it for the payload hash of a dead letter: \<open>Sum256\<close> (FIPS
  180-4, section 6.2) on 32-bit words.
\<close>

text \<open>
  The constants are the ones the standard prescribes: the first 32 bits of the fractional parts of
  the cube roots of the first 64 primes for the rounds, and of the square roots of the first eight
  primes for the initial hash value. Scaling the radicand by \<open>2 ^ (32 * k)\<close> moves these bits in front
  of the point, and the cast to 32 bits drops the integer part; the integer root is found bit by
  bit, from \<open>2 ^ 36\<close> down, which is enough since both roots are below \<open>2 ^ 3\<close>.
\<close>

definition small_primes :: "nat list" where
  "small_primes = filter (\<lambda>p. list_all (\<lambda>d. p \<le> d \<or> p mod d \<noteq> 0) [2..<18]) [2..<312]"

fun root_digits :: "nat \<Rightarrow> nat \<Rightarrow> nat \<Rightarrow> nat \<Rightarrow> nat" where
  "root_digits k n 0 r = r"
| "root_digits k n (Suc i) r = root_digits k n i (if (r + 2 ^ i) ^ k \<le> n then r + 2 ^ i else r)"

definition root_bits :: "nat \<Rightarrow> nat \<Rightarrow> 32 word" where
  "root_bits k p = of_nat (root_digits k (p * 2 ^ (32 * k)) 37 0)"

definition round_constants :: "32 word list" where
  "round_constants = map (root_bits 3) small_primes"

definition initial_hash :: "32 word list" where
  "initial_hash = map (root_bits 2) (take 8 small_primes)"

definition rotr :: "nat \<Rightarrow> 32 word \<Rightarrow> 32 word" where
  "rotr n x = (drop_bit n x OR push_bit (32 - n) x)"

definition small_sigma0 :: "32 word \<Rightarrow> 32 word" where
  "small_sigma0 x = rotr 7 x XOR rotr 18 x XOR drop_bit 3 x"

definition small_sigma1 :: "32 word \<Rightarrow> 32 word" where
  "small_sigma1 x = rotr 17 x XOR rotr 19 x XOR drop_bit 10 x"

definition big_sigma0 :: "32 word \<Rightarrow> 32 word" where
  "big_sigma0 x = rotr 2 x XOR rotr 13 x XOR rotr 22 x"

definition big_sigma1 :: "32 word \<Rightarrow> 32 word" where
  "big_sigma1 x = rotr 6 x XOR rotr 11 x XOR rotr 25 x"

text \<open>The message schedule, newest word first.\<close>

fun schedule :: "nat \<Rightarrow> 32 word list \<Rightarrow> 32 word list" where
  "schedule 0 ws = ws"
| "schedule (Suc n) ws =
     schedule n ((small_sigma1 (ws ! 1) + ws ! 6 + small_sigma0 (ws ! 14) + ws ! 15) # ws)"

definition round_step :: "32 word \<times> 32 word \<Rightarrow> 32 word list \<Rightarrow> 32 word list" where
  "round_step kw hs =
     (case hs of
        [a, b, c, d, e, f, g, h] \<Rightarrow>
          (let t1 = h + big_sigma1 e + ((e AND f) XOR (NOT e AND g)) + fst kw + snd kw;
               t2 = big_sigma0 a + ((a AND b) XOR (a AND c) XOR (b AND c))
           in [t1 + t2, a, b, c, d + t1, e, f, g])
      | _ \<Rightarrow> hs)"

definition compress :: "32 word list \<Rightarrow> 32 word list \<Rightarrow> 32 word list" where
  "compress hs block =
     map2 (+) hs (fold round_step (zip round_constants (rev (schedule 48 (rev block)))) hs)"

definition word_of_bytes :: "8 word list \<Rightarrow> 32 word" where
  "word_of_bytes bs = foldl (\<lambda>w b. push_bit 8 w OR ucast b) 0 bs"

definition bytes_of_word :: "32 word \<Rightarrow> 8 word list" where
  "bytes_of_word w = map (\<lambda>i. ucast (drop_bit i w)) [24, 16, 8, 0]"

definition length_bytes :: "nat \<Rightarrow> 8 word list" where
  "length_bytes n = map (\<lambda>i. ucast (drop_bit i (of_nat (8 * n) :: 64 word))) [56, 48, 40, 32, 24, 16, 8, 0]"

definition sha_pad :: "8 word list \<Rightarrow> 8 word list" where
  "sha_pad bs = bs @ 0x80 # replicate ((119 - length bs mod 64) mod 64) 0 @ length_bytes (length bs)"

function chunks :: "nat \<Rightarrow> 'a list \<Rightarrow> 'a list list" where
  "chunks n xs = (if n = 0 \<or> length xs < n then [] else take n xs # chunks n (drop n xs))"
  by pat_completeness auto
termination
  by (relation "measure (\<lambda>(n, xs). length xs)") auto

declare chunks.simps [simp del]

definition Sum256 :: "8 word list \<Rightarrow> 8 word list" where
  "Sum256 bs =
     concat (map bytes_of_word
       (fold (\<lambda>block hs. compress hs (map word_of_bytes (chunks 4 block))) (chunks 64 (sha_pad bs)) initial_hash))"

definition string_bytes :: "string \<Rightarrow> 8 word list" where
  "string_bytes s = map of_char s"

definition sha256_hex :: "string \<Rightarrow> string" where
  "sha256_hex s = hex_Encode (Sum256 (string_bytes s))"

section \<open>Lemmas\<close>

lemma length_small_primes: "length small_primes = 64"
  by code_simp

lemma root_digits_exact:
  assumes "r ^ k \<le> n" and "n < (r + 2 ^ i) ^ k"
  shows "root_digits k n i r ^ k \<le> n \<and> n < (root_digits k n i r + 1) ^ k"
  using assms
proof (induction i arbitrary: r)
  case 0
  then show ?case by simp
next
  case (Suc i)
  define r' where "r' = (if (r + 2 ^ i) ^ k \<le> n then r + 2 ^ i else r)"
  have "r + 2 ^ i + 2 ^ i = r + 2 ^ Suc i" by simp
  then have "r' ^ k \<le> n" and "n < (r' + 2 ^ i) ^ k"
    using Suc.prems unfolding r'_def by (metis, metis not_le)
  then show ?case using Suc.IH [of r'] unfolding root_digits.simps r'_def [symmetric] by blast
qed

text \<open>Each constant is the integer root of the scaled prime, modulo \<open>2 ^ 32\<close>.\<close>

lemma root_bits_exact:
  assumes "0 < k" and "p < 32 ^ k"
  shows "\<exists>r. root_bits k p = of_nat r \<and> r ^ k \<le> p * 2 ^ (32 * k) \<and> p * 2 ^ (32 * k) < (r + 1) ^ k"
proof -
  have "p * 2 ^ (32 * k) < 32 ^ k * 2 ^ (32 * k)" using assms(2) by simp
  also have "\<dots> = (0 + 2 ^ 37) ^ k"
    by (simp add: power_mult power_mult_distrib [symmetric])
  finally show ?thesis
    using root_digits_exact [of 0 k "p * 2 ^ (32 * k)" 37] assms(1) unfolding root_bits_def
    by (metis le0 zero_power)
qed

lemma chunks_Nil: "0 < n \<Longrightarrow> chunks n [] = []"
  by (subst chunks.simps) simp

lemma chunks_step: "0 < n \<Longrightarrow> n \<le> length xs \<Longrightarrow> chunks n xs = take n xs # chunks n (drop n xs)"
  by (subst chunks.simps) simp

lemma chunks_multiple:
  assumes "0 < n" and "length xs = k * n"
  shows "concat (chunks n xs) = xs \<and> (\<forall>c \<in> set (chunks n xs). length c = n)"
  using assms(2)
proof (induction k arbitrary: xs)
  case 0
  then show ?case by (simp add: chunks_Nil assms(1))
next
  case (Suc k)
  then have len: "length (drop n xs) = k * n" "n \<le> length xs" by simp_all
  have step: "chunks n xs = take n xs # chunks n (drop n xs)" by (rule chunks_step [OF assms(1) len(2)])
  have "concat (chunks n xs) = take n xs @ drop n xs"
    unfolding step concat.simps using Suc.IH [OF len(1)] by blast
  moreover have "\<forall>c \<in> set (chunks n xs). length c = n"
    unfolding step list.set using Suc.IH [OF len(1)] len(2) by (metis insert_iff length_take min.absorb2)
  ultimately show ?case by (metis append_take_drop_id)
qed

text \<open>The padding fills whole blocks, so that every byte of the message is hashed.\<close>

lemma sha_pad_blocks: "\<exists>k. length (sha_pad bs) = k * 64"
proof -
  obtain q m where bs: "length bs = 64 * q + m" "m < 64" by (metis mod_less_divisor mult_div_mod_eq zero_less_numeral)
  then have "length bs mod 64 = m" by simp
  then have len: "length (sha_pad bs) = 64 * q + m + 9 + (119 - m) mod 64"
    by (simp add: sha_pad_def length_bytes_def bs(1))
  show ?thesis
  proof (cases "m < 56")
    case True
    then have "(119 - m) mod 64 = 55 - m" by (simp add: mod_if)
    with True len show ?thesis by (intro exI [of _ "q + 1"]) simp
  next
    case False
    then have "(119 - m) mod 64 = 119 - m" using bs(2) by simp
    with False bs(2) len show ?thesis by (intro exI [of _ "q + 2"]) simp
  qed
qed

lemma sha_blocks: "concat (chunks 64 (sha_pad bs)) = sha_pad bs \<and> (\<forall>b \<in> set (chunks 64 (sha_pad bs)). length b = 64)"
  using sha_pad_blocks [of bs] chunks_multiple [of 64 "sha_pad bs"] by auto

lemma length_round_step: "length (round_step kw hs) = length hs"
  by (simp add: round_step_def Let_def split: list.split)

lemma length_compress: "length (compress hs block) = length hs"
proof -
  have "length (fold round_step kws hs) = length hs" for kws
    by (induction kws arbitrary: hs) (simp_all add: length_round_step)
  then show ?thesis by (simp add: compress_def)
qed

lemma length_Sum256: "length (Sum256 bs) = 32"
proof -
  have "length (fold (\<lambda>block hs. compress hs (map word_of_bytes (chunks 4 block))) blocks hs) = length hs" for blocks hs
    by (induction blocks arbitrary: hs) (simp_all add: length_compress)
  moreover have "length (concat (map bytes_of_word hs)) = 4 * length hs" for hs
    by (induction hs) (simp_all add: bytes_of_word_def)
  moreover have "length initial_hash = 8" by (simp add: initial_hash_def length_small_primes)
  ultimately show ?thesis by (simp add: Sum256_def)
qed

lemma sha256_hex_text: "length (sha256_hex s) = 64" "list_all lower_hex (sha256_hex s)"
  by (simp_all add: sha256_hex_def length_Sum256 list_all_iff lower_hex_hex_Encode)

end
