(* ===== verification/Consumer.thy ===== *)
theory Consumer
  imports Outbox Nats Relay Sha256
begin

text \<open>
  Package \<open>eventconsumer\<close> (consumer.go): the durable JetStream consumer that records one receipt
  per event.

  The state is the table \<open>platform.event_consumptions\<close>, the dead letters published, the signals
  sent for messages (\<open>Ack\<close>, \<open>NakWithDelay\<close>, \<open>Term\<close>, each with the result of the call), the log
  and the worker's \<open>lastError\<close>; the started worker's own fields extend it. What one delivery
  meets (metadata, transaction failures, failing signals, the publication of a dead letter) is
  a record \<open>delivery_env\<close>. \<open>Unmarshal\<close> yields the partly filled envelope also when it fails, and
  its id goes into the dead letter.

  The delivery counter is the unsigned 64-bit integer of the source.
\<close>

section \<open>Constants and data\<close>

definition InfrastructureConsumer :: string where
  "InfrastructureConsumer = ''manoreck-infrastructure-proof-v1''"

definition InfrastructureSubject :: string where
  "InfrastructureSubject = ''manoreck.events.infrastructure.probe.v1''"

definition deadLetterSubject :: string where
  "deadLetterSubject = ''manoreck.dead.infrastructure.proof.v1''"

definition maxDeliveries :: "64 word" where
  "maxDeliveries = 5"

record nats_msg =
  nm_subject :: string
  nm_data :: string

record consumption =
  con_consumer :: string
  con_event_id :: string
  con_event_type :: string
  con_delivery_count :: int
  con_processed_at :: int

record dead_letter =
  dl_consumer :: string
  dl_event_id :: string
  dl_subject :: string
  dl_delivery_count :: "64 word"
  dl_reason_code :: string
  dl_payload_hash :: string
  dl_failed_at :: time

datatype signal = Ack | NakWithDelay duration | Term

record consumer_world =
  cw_receipts :: "consumption list"
  cw_dead :: "(string \<times> string) list"
  cw_signals :: "(signal \<times> go_error option) list"
  cw_lastError :: "go_error option"
  cw_log :: "log_entry list"

record 'sub consumer = consumer_world +
  co_cancel :: bool
  co_subscription :: "'sub option"

record delivery_env =
  de_metadata :: "(64 word) option"
  de_tx :: tx_env
  de_exec_err :: "go_error option"
  de_db_now :: int
  de_ack_err :: "go_error option"
  de_nak_err :: "go_error option"
  de_term_err :: "go_error option"
  de_publish_err :: "(go_error \<times> bool) option"
  de_now :: time

section \<open>Receipts\<close>

definition consumer_name_check :: rexp where
  "consumer_name_check =
     RSeq (RClass name_start)
       (RSeq (RStar (RClass (name_rest @ [(CHR ''-'', CHR ''-'')])))
         (RSeq (RText ''-v'')
           (RSeq (RClass [(CHR ''1'', CHR ''9'')]) (RStar (RClass [(CHR ''0'', CHR ''9'')])))))"

definition receipt_constraints :: "consumption \<Rightarrow> bool" where
  "receipt_constraints r \<longleftrightarrow>
     0 < con_delivery_count r \<and> in_i32 (con_delivery_count r)
     \<and> MatchString consumer_name_check (con_consumer r)
     \<and> MatchString eventTypePattern (con_event_type r)"

definition receipt_key :: "consumption \<Rightarrow> string \<times> string" where
  "receipt_key r = (con_consumer r, con_event_id r)"

definition receipts_ok :: "consumption list \<Rightarrow> bool" where
  "receipts_ok t \<longleftrightarrow> distinct (map receipt_key t) \<and> list_all receipt_constraints t"

text \<open>\<open>INSERT ... ON CONFLICT (consumer_name, event_id) DO NOTHING\<close>.\<close>

definition sql_insert_receipt :: "pg \<Rightarrow> int \<Rightarrow> string \<Rightarrow> string \<Rightarrow> string \<Rightarrow> int \<Rightarrow> consumption list
    \<Rightarrow> consumption list result" where
  "sql_insert_receipt q now consumer eventID eventType deliveries t =
     bindR (uuid_arg q eventID) (\<lambda>eid.
       if \<not> in_i32 deliveries then Inl (External ''delivery_count out of range'')
       else
         let row = \<lparr>con_consumer = consumer, con_event_id = eid, con_event_type = eventType,
                    con_delivery_count = deliveries, con_processed_at = now\<rparr>
         in if \<not> receipt_constraints row then Inl (External ''check constraint violation'')
            else if list_ex (\<lambda>r. receipt_key r = receipt_key row) t then Inr t
            else Inr (t @ [row]))"

definition consume_operation :: "pg \<Rightarrow> delivery_env \<Rightarrow> envelope \<Rightarrow> 64 word \<Rightarrow> consumption list
    \<Rightarrow> (unit, consumption list) op_result" where
  "consume_operation q env e deliveryCount t =
     (case de_exec_err env of
        Some err \<Rightarrow> OpDone (Some err) () t
      | None \<Rightarrow>
          (case sql_insert_receipt q (de_db_now env) InfrastructureConsumer (env_id e) (env_type e)
                  (sint deliveryCount) t of
             Inl err \<Rightarrow> OpDone (Some err) () t
           | Inr t' \<Rightarrow> OpDone None () t'))"

section \<open>Backoff\<close>

function redelivery_loop :: "64 word \<Rightarrow> 64 word \<Rightarrow> duration \<Rightarrow> duration" where
  "redelivery_loop current delivery b =
     (if current < delivery \<and> b < Minute then redelivery_loop (current + 1) delivery (i64 (b * 2))
      else b)"
  by pat_completeness auto
termination
proof (relation "measure (\<lambda>(current, delivery, b). unat delivery - unat current)")
  fix current delivery :: "64 word" and b :: duration
  assume "current < delivery \<and> b < Minute"
  then have less: "unat current < unat delivery" by (simp add: word_less_nat_alt)
  moreover have "unat delivery < 2 ^ 64" using unsigned_less [of delivery] by simp
  ultimately have "unat (current + 1) = unat current + 1" by (simp add: unat_word_ariths)
  then show "((current + 1, delivery, i64 (b * 2)), current, delivery, b)
      \<in> measure (\<lambda>(current, delivery, b). unat delivery - unat current)"
    using less by simp
qed simp

declare redelivery_loop.simps [simp del]

definition redeliveryBackoff :: "64 word \<Rightarrow> duration" where
  "redeliveryBackoff delivery =
     (let b = redelivery_loop 1 delivery Second in if b > Minute then Minute else b)"

section \<open>One delivery\<close>

text \<open>The operation of the transaction never panics; the branch for a panic in \<open>process\<close> is not
  reachable.\<close>

definition setError :: "go_error option \<Rightarrow> 'z consumer_world_scheme \<Rightarrow> 'z consumer_world_scheme" where
  "setError err w = w\<lparr>cw_lastError := err\<rparr>"

definition send_signal :: "signal \<Rightarrow> go_error option \<Rightarrow> 'z consumer_world_scheme \<Rightarrow> 'z consumer_world_scheme" where
  "send_signal s err w = w\<lparr>cw_signals := cw_signals w @ [(s, err)]\<rparr>"

definition consumer_log :: "log_level \<Rightarrow> string \<Rightarrow> (string \<times> fmt_arg) list \<Rightarrow> 'z consumer_world_scheme
    \<Rightarrow> 'z consumer_world_scheme" where
  "consumer_log level message attributes w =
     w\<lparr>cw_log := cw_log w @ [\<lparr>log_level = level, log_message = message, log_attributes = attributes\<rparr>]\<rparr>"

definition dead_letter_of :: "time \<Rightarrow> nats_msg \<Rightarrow> string \<Rightarrow> 64 word \<Rightarrow> string \<Rightarrow> dead_letter" where
  "dead_letter_of now message eventID deliveryCount reasonCode =
     \<lparr>dl_consumer = InfrastructureConsumer, dl_event_id = eventID, dl_subject = nm_subject message,
      dl_delivery_count = deliveryCount, dl_reason_code = reasonCode,
      dl_payload_hash = sha256_hex (nm_data message), dl_failed_at = now\<rparr>"

definition encode_dead_letter :: "dead_letter \<Rightarrow> string result" where
  "encode_dead_letter d =
     (case MarshalText (dl_failed_at d) 0 of
        Inl err \<Rightarrow> Inl (wrapf ''json: error calling MarshalJSON for type time.Time: %w'' err)
      | Inr failedAt \<Rightarrow>
          Inr (encode_object
            ([(''consumer'', encode_string (dl_consumer d))]
             @ (if dl_event_id d = [] then [] else [(''event_id'', encode_string (dl_event_id d))])
             @ [(''subject'', encode_string (dl_subject d)),
                (''delivery_count'', Itoa (uint (dl_delivery_count d))),
                (''reason_code'', encode_string (dl_reason_code d)),
                (''payload_sha256'', encode_string (dl_payload_hash d)),
                (''failed_at'', CHR 0x22 # failedAt @ [CHR 0x22])])))"

text \<open>Encoding and publishing the dead letter; a failed publication may have been stored.\<close>

definition publish_dead_letter :: "('conn, 'js) nats_client \<Rightarrow> delivery_env \<Rightarrow> nats_msg \<Rightarrow> string
    \<Rightarrow> 64 word \<Rightarrow> string \<Rightarrow> 'z consumer_world_scheme \<Rightarrow> go_error option \<times> 'z consumer_world_scheme" where
  "publish_dead_letter client env message eventID deliveryCount reasonCode w =
     (case encode_dead_letter (dead_letter_of (de_now env) message eventID deliveryCount reasonCode) of
        Inl err \<Rightarrow> (Some err, w)
      | Inr payload \<Rightarrow>
     (case nats_JetStream client of
        Inl err \<Rightarrow> (Some err, w)
      | Inr js \<Rightarrow>
          let stored = w\<lparr>cw_dead := cw_dead w @ [(deadLetterSubject, payload)]\<rparr>
          in case de_publish_err env of
               Some (err, accepted) \<Rightarrow> (Some err, if accepted then stored else w)
             | None \<Rightarrow> (None, stored)))"

definition deadLetter :: "('conn, 'js) nats_client \<Rightarrow> delivery_env \<Rightarrow> nats_msg \<Rightarrow> string
    \<Rightarrow> 64 word \<Rightarrow> string \<Rightarrow> 'z consumer_world_scheme \<Rightarrow> 'z consumer_world_scheme" where
  "deadLetter client env message eventID deliveryCount reasonCode w =
     (case publish_dead_letter client env message eventID deliveryCount reasonCode w of
        (Some err, w1) \<Rightarrow>
          send_signal (NakWithDelay Minute) (de_nak_err env)
            (setError (Some (wrapf ''publish consumer dead letter: %w'' err)) w1)
      | (None, w1) \<Rightarrow>
          let w2 = send_signal Term (de_term_err env) w1
          in case de_term_err env of
               Some err \<Rightarrow> setError (Some (wrapf ''terminate dead-lettered event: %w'' err)) w2
             | None \<Rightarrow>
                 consumer_log LogError ''event consumption dead-lettered''
                   [(''consumer'', FStr InfrastructureConsumer), (''event_id'', FStr eventID),
                    (''subject'', FStr (nm_subject message)), (''delivery_count'', FInt (uint deliveryCount)),
                    (''error_code'', FStr reasonCode)] w2)"

definition consumer_attributes :: "envelope \<Rightarrow> 64 word \<Rightarrow> (string \<times> fmt_arg) list" where
  "consumer_attributes e deliveryCount =
     [(''consumer'', FStr InfrastructureConsumer), (''event_id'', FStr (env_id e)),
      (''event_type'', FStr (env_type e)), (''aggregate_id'', FStr (agg_id (env_aggregate e))),
      (''correlation_id'', FStr (correlation_id e)), (''delivery_count'', FInt (uint deliveryCount))]"

definition delivery_count :: "delivery_env \<Rightarrow> 64 word" where
  "delivery_count env = (case de_metadata env of None \<Rightarrow> 1 | Some n \<Rightarrow> n)"

definition process :: "pg \<Rightarrow> 'pool database \<Rightarrow> ('conn, 'js) nats_client \<Rightarrow> delivery_env \<Rightarrow> nats_msg
    \<Rightarrow> 'z consumer_world_scheme \<Rightarrow> 'z consumer_world_scheme" where
  "process q db client env message w =
     (let deliveryCount = delivery_count env in
      case Unmarshal (nm_data message) of (decodeErr, e) \<Rightarrow>
      if decodeErr \<noteq> None \<or> Validate e \<noteq> None then
        deadLetter client env message (env_id e) deliveryCount ''invalid_event_envelope'' w
      else
        let attributes = consumer_attributes e deliveryCount;
            w0 = consumer_log LogInfo ''event consumption started'' attributes w;
            tx = InTransaction db (de_tx env) (Some (consume_operation q env e deliveryCount)) (cw_receipts w0);
            w1 = w0\<lparr>cw_receipts := tx_db tx\<rparr>
        in case tx_outcome tx of
             Returns None \<Rightarrow>
               (let w2 = send_signal Ack (de_ack_err env) w1
                in case de_ack_err env of
                     Some ackErr \<Rightarrow>
                       consumer_log LogWarn ''event acknowledgement failed''
                         (attributes @ [(''error_code'', FStr ''event_acknowledgement_failed'')])
                         (setError (Some (wrapf ''acknowledge event: %w'' ackErr)) w2)
                   | None \<Rightarrow> consumer_log LogInfo ''event consumption completed'' attributes w2)
           | Returns (Some err) \<Rightarrow>
               if deliveryCount \<ge> maxDeliveries then
                 deadLetter client env message (env_id e) deliveryCount ''consumer_processing_failed'' w1
               else
                 (let w2 = send_signal (NakWithDelay (redeliveryBackoff deliveryCount)) (de_nak_err env) w1
                  in case de_nak_err env of
                       Some nakErr \<Rightarrow> setError (errors_Join [Some err, Some nakErr]) w2
                     | None \<Rightarrow>
                         consumer_log LogWarn ''event consumption retry scheduled''
                           (attributes @ [(''error_code'', FStr ''consumer_processing_failed'')])
                           (setError (Some err) w2))
           | Panics msg \<Rightarrow> w1)"

definition process_all :: "pg \<Rightarrow> 'pool database \<Rightarrow> ('conn, 'js) nats_client
    \<Rightarrow> (delivery_env \<times> nats_msg) list \<Rightarrow> 'z consumer_world_scheme \<Rightarrow> 'z consumer_world_scheme" where
  "process_all q db client messages w =
     fold (\<lambda>(env, message) w. process q db client env message w) messages w"

section \<open>The worker\<close>

definition consumer_New :: "'d option \<Rightarrow> 'n option \<Rightarrow> 'l option \<Rightarrow> consumption list \<Rightarrow> 'sub consumer result" where
  "consumer_New databaseConnection natsConnection logger receipts =
     (if databaseConnection = None \<or> natsConnection = None \<or> logger = None then
        Inl (errorf ''event consumer database, NATS client, and logger are required'')
      else Inr \<lparr>cw_receipts = receipts, cw_dead = [], cw_signals = [], cw_lastError = None, cw_log = [],
                co_cancel = False, co_subscription = None\<rparr>)"

definition consumer_Name :: string where
  "consumer_Name = ''event-consumer''"

datatype ack_policy = AckExplicitPolicy | AckNonePolicy | AckAllPolicy
datatype deliver_policy = DeliverAllPolicy | DeliverLastPolicy | DeliverNewPolicy
datatype replay_policy = ReplayInstantPolicy | ReplayOriginalPolicy

record consumer_config =
  cc_durable :: string
  cc_ack_policy :: ack_policy
  cc_ack_wait :: duration
  cc_max_deliver :: "64 word"
  cc_filter_subject :: string
  cc_deliver_policy :: deliver_policy
  cc_replay_policy :: replay_policy
  cc_max_ack_pending :: int

definition infrastructure_consumer_config :: consumer_config where
  "infrastructure_consumer_config =
     \<lparr>cc_durable = InfrastructureConsumer, cc_ack_policy = AckExplicitPolicy, cc_ack_wait = 30 * Second,
      cc_max_deliver = maxDeliveries, cc_filter_subject = InfrastructureSubject,
      cc_deliver_policy = DeliverAllPolicy, cc_replay_policy = ReplayInstantPolicy,
      cc_max_ack_pending = 100\<rparr>"

record ('js, 'sub) consumer_lib =
  cl_consumer_info :: "'js \<Rightarrow> string \<Rightarrow> string \<Rightarrow> go_error option"
  cl_add_consumer :: "'js \<Rightarrow> string \<Rightarrow> consumer_config \<Rightarrow> go_error option"
  cl_update_consumer :: "'js \<Rightarrow> string \<Rightarrow> consumer_config \<Rightarrow> go_error option"
  cl_pull_subscribe :: "'js \<Rightarrow> string \<Rightarrow> string \<Rightarrow> string \<Rightarrow> 'sub result"

definition ensureConsumer :: "('js, 'sub) consumer_lib \<Rightarrow> 'js \<Rightarrow> go_error option" where
  "ensureConsumer lib js =
     (case cl_consumer_info lib js EventsStream InfrastructureConsumer of
        Some err \<Rightarrow>
          if \<not> errors_Is err ErrConsumerNotFound then Some (wrapf ''inspect infrastructure consumer: %w'' err)
          else map_option (wrapf ''create infrastructure consumer: %w'')
                 (cl_add_consumer lib js EventsStream infrastructure_consumer_config)
      | None \<Rightarrow>
          map_option (wrapf ''update infrastructure consumer: %w'')
            (cl_update_consumer lib js EventsStream infrastructure_consumer_config))"

definition consumer_Start :: "('js, 'sub) consumer_lib \<Rightarrow> ('conn, 'js) nats_client \<Rightarrow> 'sub consumer
    \<Rightarrow> go_error option \<times> 'sub consumer" where
  "consumer_Start lib client c =
     (if co_cancel c then (Some (errorf ''event consumer has already started''), c)
      else
     (case nats_JetStream client of
        Inl err \<Rightarrow> (Some err, c)
      | Inr js \<Rightarrow>
     (case ensureConsumer lib js of
        Some err \<Rightarrow> (Some err, c)
      | None \<Rightarrow>
     (case cl_pull_subscribe lib js InfrastructureSubject InfrastructureConsumer EventsStream of
        Inl err \<Rightarrow> (Some (wrapf ''bind infrastructure proof consumer: %w'' err), c)
      | Inr subscription \<Rightarrow>
          (None, consumer_log LogInfo ''infrastructure event consumer started''
             [(''consumer'', FStr InfrastructureConsumer)]
             (c\<lparr>co_cancel := True, co_subscription := Some subscription\<rparr>))))))"

definition consumer_Check :: "'sub consumer \<Rightarrow> go_error option" where
  "consumer_Check c =
     (if \<not> co_cancel c then Some (errorf ''event consumer is not started'') else cw_lastError c)"

text \<open>The second component is the subscription \<open>Close\<close> has unsubscribed.\<close>

definition consumer_Close :: "stop_wait \<Rightarrow> 'sub consumer \<Rightarrow> go_error option \<times> 'sub option \<times> 'sub consumer" where
  "consumer_Close wait c =
     (let c' = c\<lparr>co_cancel := False, co_subscription := None\<rparr> in
      if \<not> co_cancel c then (None, None, c')
      else (case wait of
              WorkerDone \<Rightarrow> (None, co_subscription c, c')
            | DeadlinePassed err \<Rightarrow> (Some (wrapf ''stop event consumer: %w'' err), co_subscription c, c')))"

text \<open>The fetch loop. Each element of the list is one turn: whether the context is done at its
  start, and what \<open>Fetch\<close> returns. The last component says whether the loop has returned.\<close>

fun consumer_run :: "pg \<Rightarrow> 'pool database \<Rightarrow> ('conn, 'js) nats_client
    \<Rightarrow> (bool \<times> (delivery_env \<times> nats_msg) list result) list \<Rightarrow> 'sub consumer \<Rightarrow> 'sub consumer \<times> bool" where
  "consumer_run q db client [] c = (c, False)"
| "consumer_run q db client ((ctx_done, fetched) # turns) c =
     (if ctx_done then (c, True)
      else (case fetched of
              Inl err \<Rightarrow>
                if errors_Is err NatsErrTimeout \<or> errors_Is err ContextCanceled
                then consumer_run q db client turns (setError None c)
                else consumer_run q db client turns (setError (Some err) c)
            | Inr messages \<Rightarrow>
                consumer_run q db client turns (process_all q db client messages (setError None c))))"

section \<open>Lemmas: backoff\<close>

lemma redelivery_loop_min:
  assumes "0 < b" and "b < 2 * Minute"
  shows "min Minute (redelivery_loop current delivery b) = min Minute (b * 2 ^ (unat delivery - unat current))"
  using assms
proof (induction current delivery b rule: redelivery_loop.induct)
  case (1 current delivery b)
  show ?case
  proof (cases "current < delivery \<and> b < Minute")
    case True
    then have less: "unat current < unat delivery" by (simp add: word_less_nat_alt)
    moreover have "unat delivery < 2 ^ 64" using unsigned_less [of delivery] by simp
    ultimately have "unat (current + 1) = unat current + 1" by (simp add: unat_word_ariths)
    then have exp: "unat delivery - unat current = Suc (unat delivery - unat (current + 1))" using less by simp
    have double: "i64 (b * 2) = b * 2"
      using True "1.prems" by (intro i64_id) (simp add: in_i64_def Minute_eq)
    show ?thesis
      using "1.IH" [OF True] True "1.prems"
      by (subst redelivery_loop.simps) (simp add: double exp mult.assoc)
  next
    case False
    obtain x where x: "b * 2 ^ (unat delivery - unat current) = x" and "b \<le> x"
      using "1.prems"(1) by simp
    moreover have "Minute \<le> b \<or> x = b"
      using False x by (auto simp: word_less_nat_alt not_less)
    ultimately show ?thesis
      using False unfolding x by (subst redelivery_loop.simps) auto
  qed
qed

lemma redeliveryBackoff_min: "redeliveryBackoff d = min Minute (Second * 2 ^ (unat d - 1))"
  using redelivery_loop_min [of Second 1 d]
  by (simp add: redeliveryBackoff_def Let_def Minute_def Second_def min_def split: if_splits)

section \<open>Lifecycle\<close>

definition consumer_start_call :: "('js, 'sub) consumer_lib \<times> ('conn, 'js) nats_client \<times> stop_wait \<Rightarrow> 'sub consumer
    \<Rightarrow> go_error option \<times> 'sub consumer" where
  "consumer_start_call e c = (case e of (lib, client, wait) \<Rightarrow> consumer_Start lib client c)"

definition consumer_close_call :: "('js, 'sub) consumer_lib \<times> ('conn, 'js) nats_client \<times> stop_wait \<Rightarrow> 'sub consumer
    \<Rightarrow> go_error option \<times> 'sub consumer" where
  "consumer_close_call e c = (case e of (lib, client, wait) \<Rightarrow>
     (case consumer_Close wait c of (err, unsubscribed, c') \<Rightarrow> (err, c')))"

interpretation consumer_component: component
  co_cancel consumer_start_call "\<lambda>e. consumer_Check" consumer_close_call
  by unfold_locales
    (auto simp: consumer_start_call_def consumer_close_call_def consumer_Start_def consumer_Check_def
      consumer_Close_def consumer_log_def Let_def
      split: prod.splits if_splits sum.splits option.splits stop_wait.splits)

end
