(* ===== verification/ConsumerSpec.thy ===== *)
theory ConsumerSpec
  imports Consumer
begin

text \<open>
  What the consumer guarantees: the decision it takes for each delivery, one receipt per event
  under any sequence of deliveries, acknowledgement only after the receipt is committed, and the
  fate of a message over the deliveries the server allows.
\<close>

section \<open>Lemmas: receipts\<close>

text \<open>The effect of a successful insertion: the receipt is there, nothing else changed.\<close>

lemma sql_insert_receipt_Inr:
  assumes "sql_insert_receipt q now consumer eventID eventType n t = Inr t'"
  shows "\<exists>eid. to_uuid q eventID = Some eid \<and> (consumer, eid) \<in> receipt_key ` set t'
    \<and> (t' = t \<or> (\<exists>r. t' = t @ [r] \<and> receipt_key r = (consumer, eid) \<and> receipt_constraints r
        \<and> (consumer, eid) \<notin> receipt_key ` set t))"
  using assms
  by (auto simp: sql_insert_receipt_def bindR_Inr_iff uuid_arg_def Let_def list_ex_iff receipt_key_def
      split: option.splits if_splits)

lemma consume_operation_done:
  "consume_operation q env e n t = OpDone None cap t' \<Longrightarrow>
    sql_insert_receipt q (de_db_now env) InfrastructureConsumer (env_id e) (env_type e) (sint n) t = Inr t'"
  by (auto simp: consume_operation_def split: option.splits sum.splits)

lemma consume_operation_no_panic: "consume_operation q env e n t \<noteq> OpPanic msg"
  by (auto simp: consume_operation_def split: option.splits sum.splits)

text \<open>The table after the transaction of a delivery: unchanged, or one new receipt with a new key.\<close>

definition receipts_step :: "consumption list \<Rightarrow> consumption list \<Rightarrow> bool" where
  "receipts_step t t' \<longleftrightarrow>
     t' = t \<or> (\<exists>r. t' = t @ [r] \<and> receipt_constraints r \<and> receipt_key r \<notin> receipt_key ` set t)"

lemma consume_tx_step:
  "receipts_step t (tx_db (InTransaction db env' (Some (consume_operation q env e n)) t))"
proof (rule InTransaction_invariant)
  fix op cap t'
  assume "Some (consume_operation q env e n) = Some op" "op t = OpDone None cap t'"
  then have "consume_operation q env e n t = OpDone None cap t'" by simp
  from sql_insert_receipt_Inr [OF consume_operation_done [OF this]] show "receipts_step t t'"
    by (auto simp: receipts_step_def)
qed (simp add: receipts_step_def)

lemma consume_tx_committed:
  assumes "tx_outcome (InTransaction db env' (Some (consume_operation q env e n)) t) = Returns None"
  shows "\<exists>eid. to_uuid q (env_id e) = Some eid \<and> (InfrastructureConsumer, eid)
    \<in> receipt_key ` set (tx_db (InTransaction db env' (Some (consume_operation q env e n)) t))"
proof -
  from assms obtain cap where
    "consume_operation q env e n t = OpDone None cap (tx_db (InTransaction db env' (Some (consume_operation q env e n)) t))"
    unfolding InTransaction_success_iff by blast
  from sql_insert_receipt_Inr [OF consume_operation_done [OF this]] show ?thesis by blast
qed

lemma consume_tx_no_panic:
  "tx_outcome (InTransaction db env' (Some (consume_operation q env e n)) t) \<noteq> Panics msg"
  using consume_operation_no_panic [of q env e n t]
  by (auto simp: InTransaction_def split: option.splits sum.splits op_result.splits)

lemma receipts_step_ok: "receipts_step t t' \<Longrightarrow> receipts_ok t \<Longrightarrow> receipts_ok t'"
  by (auto simp: receipts_step_def receipts_ok_def)

section \<open>Lemmas: effects of a delivery\<close>

lemmas consumer_effects = setError_def send_signal_def consumer_log_def

lemma publish_dead_letter_effect:
  assumes "publish_dead_letter client env message eid n reason w = (err, w1)"
  shows "cw_receipts w1 = cw_receipts w \<and> cw_signals w1 = cw_signals w
    \<and> (err = None \<longrightarrow> (\<exists>payload. encode_dead_letter (dead_letter_of (de_now env) message eid n reason) = Inr payload
         \<and> cw_dead w1 = cw_dead w @ [(deadLetterSubject, payload)]))"
  using assms
  by (auto simp: publish_dead_letter_def Let_def split: sum.splits option.splits if_splits)

lemma deadLetter_effect:
  "cw_receipts (deadLetter client env message eid n reason w) = cw_receipts w"
  "cw_signals (deadLetter client env message eid n reason w) = cw_signals w @
    [if fst (publish_dead_letter client env message eid n reason w) = None then (Term, de_term_err env)
     else (NakWithDelay Minute, de_nak_err env)]"
  "cw_dead (deadLetter client env message eid n reason w)
    = cw_dead (snd (publish_dead_letter client env message eid n reason w))"
proof -
  obtain err w1 where pub: "publish_dead_letter client env message eid n reason w = (err, w1)" by fastforce
  have same: "cw_receipts w1 = cw_receipts w" "cw_signals w1 = cw_signals w"
    using publish_dead_letter_effect [OF pub] by blast+
  show "cw_receipts (deadLetter client env message eid n reason w) = cw_receipts w"
    by (cases err; cases "de_term_err env") (simp_all add: deadLetter_def pub consumer_effects same)
  show "cw_signals (deadLetter client env message eid n reason w) = cw_signals w @
    [if fst (publish_dead_letter client env message eid n reason w) = None then (Term, de_term_err env)
     else (NakWithDelay Minute, de_nak_err env)]"
    by (cases err; cases "de_term_err env") (simp_all add: deadLetter_def pub consumer_effects same)
  show "cw_dead (deadLetter client env message eid n reason w)
    = cw_dead (snd (publish_dead_letter client env message eid n reason w))"
    by (cases err; cases "de_term_err env") (simp_all add: deadLetter_def pub consumer_effects)
qed

text \<open>The decision of \<open>process\<close>: which signal is sent.\<close>

definition consumer_tx :: "pg \<Rightarrow> 'pool database \<Rightarrow> delivery_env \<Rightarrow> envelope \<Rightarrow> consumption list
    \<Rightarrow> (unit, consumption list) tx_result" where
  "consumer_tx q db env e t =
     InTransaction db (de_tx env) (Some (consume_operation q env e (delivery_count env))) t"

definition valid_delivery :: "nats_msg \<Rightarrow> bool" where
  "valid_delivery message \<longleftrightarrow>
     fst (Unmarshal (nm_data message)) = None \<and> Validate (snd (Unmarshal (nm_data message))) = None"

lemma process_invalid:
  "\<not> valid_delivery message \<Longrightarrow>
    process q db client env message w =
      deadLetter client env message (env_id (snd (Unmarshal (nm_data message)))) (delivery_count env)
        ''invalid_event_envelope'' w"
  by (auto simp: process_def valid_delivery_def Let_def split: prod.splits)

lemma process_valid:
  assumes valid: "valid_delivery message" and e: "e = snd (Unmarshal (nm_data message))"
    and tx: "tx = consumer_tx q db env e (cw_receipts w)" and w': "w' = process q db client env message w"
  shows "cw_receipts w' = tx_db tx"
    and "tx_outcome tx = Returns None \<Longrightarrow> cw_signals w' = cw_signals w @ [(Ack, de_ack_err env)] \<and> cw_dead w' = cw_dead w"
    and "tx_outcome tx \<noteq> Returns None \<Longrightarrow> delivery_count env < maxDeliveries \<Longrightarrow>
      cw_signals w' = cw_signals w @ [(NakWithDelay (redeliveryBackoff (delivery_count env)), de_nak_err env)]
      \<and> cw_dead w' = cw_dead w"
    and "tx_outcome tx \<noteq> Returns None \<Longrightarrow> maxDeliveries \<le> delivery_count env \<Longrightarrow>
      \<exists>w1. cw_signals w1 = cw_signals w \<and> cw_dead w1 = cw_dead w \<and>
        w' = deadLetter client env message (env_id e) (delivery_count env) ''consumer_processing_failed'' w1"
proof -
  obtain derr where d: "Unmarshal (nm_data message) = (derr, e)" "derr = None" "Validate e = None"
    using valid e by (cases "Unmarshal (nm_data message)") (auto simp: valid_delivery_def)
  have no_panic: "tx_outcome tx \<noteq> Panics msg" for msg
    using consume_tx_no_panic unfolding tx consumer_tx_def by blast
  note run = w' process_def d tx consumer_tx_def consumer_effects Let_def
  show "cw_receipts w' = tx_db tx"
    by (auto simp: run deadLetter_effect(1) split: go_outcome.splits option.splits)
  show "tx_outcome tx = Returns None \<Longrightarrow> cw_signals w' = cw_signals w @ [(Ack, de_ack_err env)] \<and> cw_dead w' = cw_dead w"
    by (auto simp: run split: option.splits)
  show "tx_outcome tx \<noteq> Returns None \<Longrightarrow> delivery_count env < maxDeliveries \<Longrightarrow>
      cw_signals w' = cw_signals w @ [(NakWithDelay (redeliveryBackoff (delivery_count env)), de_nak_err env)]
      \<and> cw_dead w' = cw_dead w"
    using no_panic by (auto simp: run not_le split: go_outcome.splits option.splits)
  show "tx_outcome tx \<noteq> Returns None \<Longrightarrow> maxDeliveries \<le> delivery_count env \<Longrightarrow>
      \<exists>w1. cw_signals w1 = cw_signals w \<and> cw_dead w1 = cw_dead w \<and>
        w' = deadLetter client env message (env_id e) (delivery_count env) ''consumer_processing_failed'' w1"
    using no_panic
    by (intro exI [of _ "(consumer_log LogInfo ''event consumption started''
          (consumer_attributes e (delivery_count env)) w)\<lparr>cw_receipts := tx_db tx\<rparr>"])
      (auto simp: run split: go_outcome.splits option.splits)
qed

lemma process_receipts_step: "receipts_step (cw_receipts w) (cw_receipts (process q db client env message w))"
proof (cases "valid_delivery message")
  case True
  show ?thesis
    unfolding process_valid(1) [OF True refl refl refl] consumer_tx_def by (rule consume_tx_step)
qed (simp add: process_invalid deadLetter_effect(1) receipts_step_def)

lemma process_all_Cons:
  "process_all q db client ((env, message) # messages) w
    = process_all q db client messages (process q db client env message w)"
  by (simp add: process_all_def)

lemma process_all_receipts:
  "(\<exists>new. cw_receipts (process_all q db client messages w) = cw_receipts w @ new)
    \<and> (receipts_ok (cw_receipts w) \<longrightarrow> receipts_ok (cw_receipts (process_all q db client messages w)))"
proof (induction messages arbitrary: w)
  case (Cons d messages)
  obtain env message where d: "d = (env, message)" by fastforce
  let ?w = "process q db client env message w"
  have step: "receipts_step (cw_receipts w) (cw_receipts ?w)" by (rule process_receipts_step)
  then have "\<exists>more. cw_receipts ?w = cw_receipts w @ more" by (auto simp: receipts_step_def)
  then show ?case
    unfolding d process_all_Cons using Cons.IH [of ?w] receipts_step_ok [OF step] by force
qed (simp add: process_all_def)

lemma process_dead:
  fixes w :: "'z consumer_world_scheme"
  assumes "e = snd (Unmarshal (nm_data message))"
  shows "cw_dead (process q db client env message w) = cw_dead w \<or>
    (\<exists>reason payload. reason \<in> {''invalid_event_envelope'', ''consumer_processing_failed''}
      \<and> encode_dead_letter (dead_letter_of (de_now env) message (env_id e) (delivery_count env) reason) = Inr payload
      \<and> cw_dead (process q db client env message w) = cw_dead w @ [(deadLetterSubject, payload)])"
proof -
  have dead: ?thesis
    if "process q db client env message w = deadLetter client env message (env_id e) (delivery_count env) reason w1"
      "cw_dead w1 = cw_dead w" "reason \<in> {''invalid_event_envelope'', ''consumer_processing_failed''}"
    for reason and w1 :: "'z consumer_world_scheme"
    using that unfolding that(1) deadLetter_effect(3)
    by (auto simp: publish_dead_letter_def Let_def split: sum.splits option.splits)
  show ?thesis
  proof (cases "valid_delivery message")
    case False
    then show ?thesis by (intro dead [of "''invalid_event_envelope''" w]) (simp_all add: assms process_invalid)
  next
    case True
    note run = process_valid [OF True assms refl refl, where q = q and db = db and env = env and w = w and client = client]
    show ?thesis
    proof (cases "tx_outcome (consumer_tx q db env e (cw_receipts w)) = Returns None \<or> delivery_count env < maxDeliveries")
      case True
      then show ?thesis using run(2) run(3) by blast
    next
      case False
      then obtain w1 where "cw_dead w1 = cw_dead w" "process q db client env message w
          = deadLetter client env message (env_id e) (delivery_count env) ''consumer_processing_failed'' w1"
        using run(4) by (auto simp: not_less)
      then show ?thesis by (intro dead [of "''consumer_processing_failed''" w1]) simp_all
    qed
  qed
qed

text \<open>The members of an encoded dead letter.\<close>

definition dead_letter_members :: "dead_letter \<Rightarrow> (string \<times> json) list" where
  "dead_letter_members d =
     [(''consumer'', JString (appendString (dl_consumer d)))]
     @ (if dl_event_id d = [] then [] else [(''event_id'', JString (appendString (dl_event_id d)))])
     @ [(''subject'', JString (appendString (dl_subject d))), (''delivery_count'', JNumber (Itoa (uint (dl_delivery_count d)))),
        (''reason_code'', JString (appendString (dl_reason_code d))),
        (''payload_sha256'', JString (appendString (dl_payload_hash d))), (''failed_at'', JString (rfc3339_nano (dl_failed_at d) 0))]"

lemma encode_dead_letter_parsed:
  assumes "encode_dead_letter d = Inr payload"
  shows "json_parse payload = Some (JObject (dead_letter_members d))"
proof -
  let ?str = "\<lambda>k s. (k, JString (appendString s), encode_string s)"
  let ?ms = "[?str ''consumer'' (dl_consumer d)]
     @ (if dl_event_id d = [] then [] else [?str ''event_id'' (dl_event_id d)])
     @ [?str ''subject'' (dl_subject d), (''delivery_count'', JNumber (Itoa (uint (dl_delivery_count d))), Itoa (uint (dl_delivery_count d))),
        ?str ''reason_code'' (dl_reason_code d), ?str ''payload_sha256'' (dl_payload_hash d),
        (''failed_at'', JString (rfc3339_nano (dl_failed_at d) 0), CHR 0x22 # rfc3339_nano (dl_failed_at d) 0 @ [CHR 0x22])]"
  have payload: "payload = encode_object (map (\<lambda>(k, v, t). (k, t)) ?ms)"
    using assms by (auto simp: encode_dead_letter_def MarshalText_def split: prod.splits if_splits sum.splits)
  have "value_text 9999 v t" if "(k, v, t) \<in> set ?ms" for k v t
    using that by (auto simp: encode_string_text Itoa_number time_value split: if_splits)
  then have "json_parse payload = Some (JObject (map (\<lambda>(k, v, t). (appendString k, v)) ?ms))"
    unfolding payload by (intro encode_object_parsed) auto
  moreover have "appendString ''consumer'' = ''consumer''" "appendString ''event_id'' = ''event_id''"
    "appendString ''subject'' = ''subject''" "appendString ''delivery_count'' = ''delivery_count''"
    "appendString ''reason_code'' = ''reason_code''" "appendString ''payload_sha256'' = ''payload_sha256''"
    "appendString ''failed_at'' = ''failed_at''"
    by code_simp+
  ultimately show ?thesis by (simp add: dead_letter_members_def)
qed

lemma lower_hex_appendString: "list_all lower_hex s \<Longrightarrow> appendString s = s"
proof -
  have "list_all simple_char hextable" by code_simp
  then show "list_all lower_hex s \<Longrightarrow> appendString s = s"
    using lower_hexD by (intro simple_appendString) (auto simp: list_all_iff)
qed

section \<open>The deliveries of one message\<close>

text \<open>
  The server delivers a message again until it is acknowledged or terminated, but at most
  \<open>cc_max_deliver\<close> times. \<open>deliver n envs\<close> is the \<open>n\<close>-th and the following deliveries; a delivery
  is numbered by the server.
\<close>

definition settled :: "(signal \<times> go_error option) list \<Rightarrow> bool" where
  "settled signals \<longleftrightarrow> signals \<noteq> [] \<and> last signals \<in> {(Ack, None), (Term, None)}"

fun deliver :: "pg \<Rightarrow> 'pool database \<Rightarrow> ('conn, 'js) nats_client \<Rightarrow> nats_msg \<Rightarrow> nat
    \<Rightarrow> delivery_env list \<Rightarrow> consumer_world \<Rightarrow> consumer_world" where
  "deliver q db client message n [] w = w"
| "deliver q db client message n (env # envs) w =
     (if n > unat (cc_max_deliver infrastructure_consumer_config) then w
      else
        let w' = process q db client (env\<lparr>de_metadata := Some (of_nat n)\<rparr>) message w
        in if settled (cw_signals w') then w' else deliver q db client message (Suc n) envs w')"

definition has_receipt :: "pg \<Rightarrow> envelope \<Rightarrow> consumer_world \<Rightarrow> bool" where
  "has_receipt q e w \<longleftrightarrow>
     (\<exists>eid. to_uuid q (env_id e) = Some eid \<and> (InfrastructureConsumer, eid) \<in> receipt_key ` set (cw_receipts w))"

lemma max_deliver: "unat (cc_max_deliver infrastructure_consumer_config) = 5"
  by (simp add: infrastructure_consumer_config_def maxDeliveries_def)

lemma consumer_name_ok: "MatchString consumer_name_check InfrastructureConsumer"
  by code_simp

lemma sint_small: "n \<le> 5 \<Longrightarrow> sint (of_nat n :: 64 word) = int n"
proof -
  assume "n \<le> 5"
  then have "n \<in> {0, 1, 2, 3, 4, 5}" by auto
  then show ?thesis by auto
qed

text \<open>Without a failure the receipt's transaction commits, whatever the table holds.\<close>

lemma consume_tx_quiet:
  assumes "db_pool db = Some pool" "de_tx env = quiet_tx" "de_exec_err env = None"
    and "to_uuid q (env_id e) = Some eid" "Validate e = None" "1 \<le> n" "n \<le> 5"
  shows "tx_outcome (consumer_tx q db (env\<lparr>de_metadata := Some (of_nat n)\<rparr>) e t) = Returns None"
proof -
  let ?env = "env\<lparr>de_metadata := Some (of_nat n)\<rparr>"
  have count: "sint (delivery_count ?env) = int n"
    using assms(7) by (simp add: delivery_count_def sint_small)
  have "MatchString eventTypePattern (env_type e)"
    using assms(5) by (auto simp: Validate_None_iff valid_envelope_def eventTypePattern_iff)
  then have "\<exists>t'. sql_insert_receipt q (de_db_now ?env) InfrastructureConsumer (env_id e) (env_type e)
      (sint (delivery_count ?env)) t = Inr t'"
    using assms(4,6,7) consumer_name_ok unfolding count
    by (simp add: sql_insert_receipt_def uuid_arg_def Let_def receipt_constraints_def in_i32_def)
  then obtain t' where "consume_operation q ?env e (delivery_count ?env) t = OpDone None () t'"
    using assms(3) by (auto simp: consume_operation_def)
  then show ?thesis
    using assms(1,2) by (simp add: consumer_tx_def InTransaction_def database_Pool_def quiet_tx_def)
qed

lemma settled_snoc: "settled (xs @ [(s, err)]) \<longleftrightarrow> (s = Ack \<or> s = Term) \<and> err = None"
  by (auto simp: settled_def)

lemma of_nat_less_max: "n < 5 \<Longrightarrow> (of_nat n :: 64 word) < maxDeliveries"
proof -
  assume "n < 5"
  then have "n \<in> {0, 1, 2, 3, 4}" by auto
  then show ?thesis by (auto simp: maxDeliveries_def)
qed

text \<open>One delivery before the last: it is acknowledged with its receipt, or tried again.\<close>

lemma early_delivery:
  fixes w :: consumer_world
  assumes valid: "valid_delivery message" and e: "e = snd (Unmarshal (nm_data message))"
    and w': "w' = process q db client (env\<lparr>de_metadata := Some (of_nat n)\<rparr>) message w"
    and n: "n < 5 \<or> tx_outcome (consumer_tx q db (env\<lparr>de_metadata := Some (of_nat n)\<rparr>) e (cw_receipts w)) = Returns None"
  shows "(settled (cw_signals w') \<and> last (cw_signals w') = (Ack, None) \<and> has_receipt q e w') \<or> \<not> settled (cw_signals w')"
proof -
  let ?env = "env\<lparr>de_metadata := Some (of_nat n)\<rparr>"
  let ?tx = "consumer_tx q db ?env e (cw_receipts w)"
  note run = process_valid [OF valid e refl w']
  show ?thesis
  proof (cases "tx_outcome ?tx = Returns None")
    case True
    then have "has_receipt q e w'"
      using consume_tx_committed run(1) unfolding consumer_tx_def has_receipt_def by fastforce
    then show ?thesis using run(2) [OF True] by (auto simp: settled_snoc)
  next
    case False
    with n have "delivery_count ?env < maxDeliveries" by (simp add: delivery_count_def of_nat_less_max)
    from run(3) [OF False this] show ?thesis by (simp add: settled_snoc)
  qed
qed

lemma deliver_consumes:
  assumes valid: "valid_delivery message" and e: "e = snd (Unmarshal (nm_data message))"
    and db: "db_pool db = Some pool" and uuid: "to_uuid q (env_id e) = Some eid"
    and "k < length envs" "1 \<le> n" "n + k \<le> 5"
    and good: "de_tx (envs ! k) = quiet_tx" "de_exec_err (envs ! k) = None" "de_ack_err (envs ! k) = None"
  shows "last (cw_signals (deliver q db client message n envs w)) = (Ack, None)
    \<and> has_receipt q e (deliver q db client message n envs w)"
  using assms(5-)
proof (induction envs arbitrary: n k w)
  case (Cons env envs)
  let ?w = "process q db client (env\<lparr>de_metadata := Some (of_nat n)\<rparr>) message w"
  let ?tx = "consumer_tx q db (env\<lparr>de_metadata := Some (of_nat n)\<rparr>) e (cw_receipts w)"
  have invalid: "Validate e = None" using valid e by (simp add: valid_delivery_def)
  have run: "deliver q db client message n (env # envs) w =
      (if settled (cw_signals ?w) then ?w else deliver q db client message (Suc n) envs ?w)"
    using Cons.prems(3) by (simp add: max_deliver Let_def)
  have now: "tx_outcome ?tx = Returns None" if "k = 0"
    using that Cons.prems by (intro consume_tx_quiet [OF db _ _ uuid invalid]) auto
  then have early: "n < 5 \<or> tx_outcome ?tx = Returns None" using Cons.prems(3) by (cases k) auto
  show ?case
  proof (cases "settled (cw_signals ?w)")
    case True
    with early_delivery [OF valid e refl early, of client] show ?thesis unfolding run by simp
  next
    case False
    have "k \<noteq> 0"
    proof
      assume k: "k = 0"
      with process_valid(2) [OF valid e refl refl now [OF k], of client] Cons.prems(6) False
      show False by (simp add: settled_snoc)
    qed
    then obtain k' where "k = Suc k'" by (cases k) auto
    with Cons.IH [of k' "Suc n" ?w] Cons.prems False show ?thesis unfolding run by simp
  qed
qed simp

lemma deliver_limit:
  "5 < n + length envs \<Longrightarrow>
    deliver q db client message n (envs @ rest) w = deliver q db client message n envs w"
proof (induction envs arbitrary: n w)
  case Nil
  then show ?case by (cases rest) (simp_all add: max_deliver)
next
  case (Cons env envs)
  then show ?case by (simp add: max_deliver Let_def)
qed

lemma publish_refused:
  assumes "de_publish_err env = Some (err, False)"
  shows "fst (publish_dead_letter client env message eid n reason w) \<noteq> None
    \<and> cw_dead (snd (publish_dead_letter client env message eid n reason w)) = cw_dead w"
  using assms by (auto simp: publish_dead_letter_def Let_def split: sum.splits)

lemma failing_step:
  fixes w :: "'z consumer_world_scheme"
  assumes valid: "valid_delivery message" and "de_exec_err env \<noteq> None" and "de_publish_err env = Some (err, False)"
    and w': "w' = process q db client env message w"
  shows "cw_receipts w' = cw_receipts w \<and> cw_dead w' = cw_dead w
    \<and> (\<exists>d err. last (cw_signals w') = (NakWithDelay d, err) \<and> (maxDeliveries \<le> delivery_count env \<longrightarrow> d = Minute))"
proof -
  let ?e = "snd (Unmarshal (nm_data message))"
  let ?tx = "consumer_tx q db env ?e (cw_receipts w)"
  note run = process_valid [OF valid refl refl w']
  have op: "\<exists>err. consume_operation q env ?e n t = OpDone (Some err) () t" for n t
    using assms(2) by (auto simp: consume_operation_def)
  have tx: "tx_db ?tx = cw_receipts w" "tx_outcome ?tx \<noteq> Returns None"
    using op [of "delivery_count env" "cw_receipts w"]
    by (auto simp: consumer_tx_def InTransaction_def errors_Join_def Let_def map_filter_simps
        split: sum.splits option.splits if_splits)
  show ?thesis
  proof (cases "delivery_count env < maxDeliveries")
    case True
    then show ?thesis using run(1) run(3) [OF tx(2) True] tx(1) by auto
  next
    case False
    then obtain w1 where "cw_signals w1 = cw_signals w" "cw_dead w1 = cw_dead w"
      "w' = deadLetter client env message (env_id ?e) (delivery_count env) ''consumer_processing_failed'' w1"
      using run(4) [OF tx(2)] by (auto simp: not_less)
    then show ?thesis
      using run(1) tx(1) by (simp add: deadLetter_effect publish_refused [OF assms(3)])
  qed
qed

lemma failing_deliveries:
  assumes valid: "valid_delivery message"
  shows "envs \<noteq> [] \<Longrightarrow> n + length envs = 6 \<Longrightarrow>
    \<forall>env \<in> set envs. de_exec_err env \<noteq> None \<and> (\<exists>err. de_publish_err env = Some (err, False)) \<Longrightarrow>
    cw_receipts (deliver q db client message n envs w) = cw_receipts w
    \<and> cw_dead (deliver q db client message n envs w) = cw_dead w
    \<and> (\<exists>err. last (cw_signals (deliver q db client message n envs w)) = (NakWithDelay Minute, err))"
proof (induction envs arbitrary: n w)
  case (Cons env envs)
  let ?env = "env\<lparr>de_metadata := Some (of_nat n)\<rparr>"
  let ?w = "process q db client ?env message w"
  obtain err where "de_exec_err ?env \<noteq> None" "de_publish_err ?env = Some (err, False)"
    using Cons.prems(3) by auto
  from failing_step [OF valid this refl, of q db client w]
  obtain d err' where step: "cw_receipts ?w = cw_receipts w" "cw_dead ?w = cw_dead w"
    "last (cw_signals ?w) = (NakWithDelay d, err')" "maxDeliveries \<le> delivery_count ?env \<longrightarrow> d = Minute" by blast
  have run: "deliver q db client message n (env # envs) w = deliver q db client message (Suc n) envs ?w"
    using Cons.prems(2) step(3) by (simp add: max_deliver Let_def settled_def)
  show ?case
  proof (cases "envs = []")
    case True
    then have "n = 5" using Cons.prems(2) by simp
    then have "d = Minute" using step(4) by (simp add: delivery_count_def maxDeliveries_def)
    with step True show ?thesis unfolding run by simp
  next
    case False
    with Cons.IH [of "Suc n" ?w] Cons.prems(2,3) step show ?thesis unfolding run by simp
  qed
qed simp

section \<open>Concrete deliveries for the witnesses\<close>

definition probe_delivery :: delivery_env where
  "probe_delivery = \<lparr>de_metadata = Some 1, de_tx = quiet_tx, de_exec_err = None, de_db_now = 7, de_ack_err = None,
     de_nak_err = None, de_term_err = None, de_publish_err = None, de_now = 0\<rparr>"

definition failing_delivery :: delivery_env where
  "failing_delivery = probe_delivery\<lparr>de_exec_err := Some (External ''connection lost''),
     de_publish_err := Some (External ''no responders'', False)\<rparr>"

definition consumer_client :: "(unit, unit) nats_client" where
  "consumer_client = \<lparr>nc_url = ''nats://127.0.0.1:4222'', nc_connection = Some (), nc_jetStream = Some ()\<rparr>"

definition empty_consumer_world :: consumer_world where
  "empty_consumer_world = \<lparr>cw_receipts = [], cw_dead = [], cw_signals = [], cw_lastError = None, cw_log = []\<rparr>"

definition probe_msg :: nats_msg where
  "probe_msg = \<lparr>nm_subject = InfrastructureSubject, nm_data = probe_text\<rparr>"

lemma probe_msg_valid: "valid_delivery probe_msg"
  "snd (Unmarshal (nm_data probe_msg)) = probe_envelope"
  by (simp_all add: valid_delivery_def probe_unmarshal probe_msg_def probe_valid)

lemma probe_receipts:
  "cw_receipts (process demo_pg running_db client env probe_msg w)
    = tx_db (consumer_tx demo_pg running_db env probe_envelope (cw_receipts w))"
  using process_valid(1) [OF probe_msg_valid(1) refl refl refl] by (simp add: probe_msg_valid(2))

section \<open>Properties\<close>

text \<open>
  C2. Idempotent consumption: whatever messages are delivered, however often and in whatever
  order, and whatever fails on the way, the receipts stay unique per consumer and event and
  satisfy the table's constraints, and a receipt once written is never changed or removed.
\<close>

theorem consumer_idempotent:
  assumes "receipts_ok (cw_receipts w)"
  shows "distinct (map receipt_key (cw_receipts (process_all q db client messages w)))
    \<and> list_all receipt_constraints (cw_receipts (process_all q db client messages w))
    \<and> (\<exists>new. cw_receipts (process_all q db client messages w) = cw_receipts w @ new)"
  using process_all_receipts [of q db client messages w] assms by (simp add: receipts_ok_def)

theorem consumer_idempotent_witness:
  "distinct (map receipt_key (cw_receipts (process_all demo_pg running_db consumer_client
     [(probe_delivery, probe_msg), (probe_delivery\<lparr>de_metadata := Some 2\<rparr>, probe_msg)] empty_consumer_world)))
   \<and> length (cw_receipts (process_all demo_pg running_db consumer_client
     [(probe_delivery, probe_msg), (probe_delivery\<lparr>de_metadata := Some 2\<rparr>, probe_msg)] empty_consumer_world)) = 1"
proof
  show "distinct (map receipt_key (cw_receipts (process_all demo_pg running_db consumer_client
     [(probe_delivery, probe_msg), (probe_delivery\<lparr>de_metadata := Some 2\<rparr>, probe_msg)] empty_consumer_world)))"
  proof -
    have "receipts_ok (cw_receipts empty_consumer_world)" by (simp add: receipts_ok_def empty_consumer_world_def)
    from consumer_idempotent [OF this] show ?thesis by blast
  qed
  show "length (cw_receipts (process_all demo_pg running_db consumer_client
     [(probe_delivery, probe_msg), (probe_delivery\<lparr>de_metadata := Some 2\<rparr>, probe_msg)] empty_consumer_world)) = 1"
  proof -
    have "length (tx_db (consumer_tx demo_pg running_db (probe_delivery\<lparr>de_metadata := Some 2\<rparr>) probe_envelope
        (tx_db (consumer_tx demo_pg running_db probe_delivery probe_envelope [])))) = 1"
      by code_simp
    then show ?thesis by (simp add: process_all_def probe_receipts) (simp add: empty_consumer_world_def)
  qed
qed

text \<open>
  C12. One signal per delivery, and never too early: \<open>process\<close> sends exactly one signal. It
  acknowledges only a valid event whose receipt is committed, it terminates only a message whose
  dead letter (consumer, event, subject, delivery count, reason and payload hash) has just been
  published, and otherwise it asks for redelivery after at most one minute.
\<close>

theorem process_signal_sound:
  fixes w :: "'z consumer_world_scheme"
  assumes "w' = process q db client env message w" and "e = snd (Unmarshal (nm_data message))"
  shows "\<exists>s err. cw_signals w' = cw_signals w @ [(s, err)]
    \<and> (s = Ack \<longrightarrow> valid_delivery message \<and> (\<exists>eid. to_uuid q (env_id e) = Some eid
          \<and> (InfrastructureConsumer, eid) \<in> receipt_key ` set (cw_receipts w')))
    \<and> (s = Term \<longrightarrow> (\<exists>reason payload. (valid_delivery message \<longrightarrow> maxDeliveries \<le> delivery_count env)
          \<and> encode_dead_letter (dead_letter_of (de_now env) message (env_id e) (delivery_count env) reason) = Inr payload
          \<and> cw_dead w' = cw_dead w @ [(deadLetterSubject, payload)]))
    \<and> (\<forall>d. s = NakWithDelay d \<longrightarrow> 0 < d \<and> d \<le> Minute)"
proof -
  have dead: ?thesis
    if "w' = deadLetter client env message (env_id e) (delivery_count env) reason w1"
      "cw_signals w1 = cw_signals w" "cw_dead w1 = cw_dead w"
      "valid_delivery message \<longrightarrow> maxDeliveries \<le> delivery_count env" for reason w1
  proof -
    obtain err w2 where pub: "publish_dead_letter client env message (env_id e) (delivery_count env) reason w1 = (err, w2)"
      by fastforce
    from publish_dead_letter_effect [OF pub] that show ?thesis
      by (cases err) (auto simp: deadLetter_effect pub Minute_eq)
  qed
  show ?thesis
  proof (cases "valid_delivery message")
    case False
    then show ?thesis by (intro dead) (simp_all add: assms process_invalid)
  next
    case valid: True
    let ?tx = "consumer_tx q db env e (cw_receipts w)"
    note run = process_valid [OF valid assms(2) refl assms(1)]
    show ?thesis
    proof (cases "tx_outcome ?tx = Returns None")
      case True
      then show ?thesis
        using run(1) run(2) [OF True] consume_tx_committed valid unfolding consumer_tx_def by fastforce
    next
      case False
      show ?thesis
      proof (cases "delivery_count env < maxDeliveries")
        case True
        then show ?thesis
          using run(3) [OF False True] by (auto simp: redeliveryBackoff_min Minute_eq Second_def min_def)
      next
        case late: False
        with run(4) [OF False] dead show ?thesis by (auto simp: not_less)
      qed
    qed
  qed
qed

theorem process_signal_sound_witness:
  "\<exists>s err. cw_signals (process demo_pg running_db consumer_client probe_delivery probe_msg empty_consumer_world)
      = [(s, err)] \<and> (s = Ack \<longrightarrow> valid_delivery probe_msg)"
  using process_signal_sound [OF refl refl, where q = demo_pg and db = running_db
      and client = consumer_client and env = probe_delivery and message = probe_msg and w = empty_consumer_world]
  by (auto simp: empty_consumer_world_def)

text \<open>
  Liveness of a delivery: a valid event is acknowledged whenever its transaction commits, a
  repeated delivery included; a failed transaction is retried before the last permitted delivery;
  an invalid message is dead-lettered at once.
\<close>

theorem process_decision:
  fixes w :: "'z consumer_world_scheme"
  assumes "w' = process q db client env message w" and "e = snd (Unmarshal (nm_data message))"
    and "tx = consumer_tx q db env e (cw_receipts w)"
  shows "(valid_delivery message \<and> tx_outcome tx = Returns None \<longrightarrow>
           last (cw_signals w') = (Ack, de_ack_err env) \<and> cw_dead w' = cw_dead w)
    \<and> (valid_delivery message \<and> tx_outcome tx \<noteq> Returns None \<and> delivery_count env < maxDeliveries \<longrightarrow>
           last (cw_signals w') = (NakWithDelay (redeliveryBackoff (delivery_count env)), de_nak_err env))
    \<and> (\<not> valid_delivery message \<and> nc_jetStream client \<noteq> None \<and> de_publish_err env = None
         \<and> encode_dead_letter (dead_letter_of (de_now env) message (env_id e) (delivery_count env)
             ''invalid_event_envelope'') = Inr payload \<longrightarrow>
           last (cw_signals w') = (Term, de_term_err env) \<and> cw_dead w' = cw_dead w @ [(deadLetterSubject, payload)])"
proof (intro conjI impI)
  assume "valid_delivery message \<and> tx_outcome tx = Returns None"
  then show "last (cw_signals w') = (Ack, de_ack_err env)" "cw_dead w' = cw_dead w"
    using process_valid(2) [OF _ assms(2,3,1)] by auto
next
  assume "valid_delivery message \<and> tx_outcome tx \<noteq> Returns None \<and> delivery_count env < maxDeliveries"
  then show "last (cw_signals w') = (NakWithDelay (redeliveryBackoff (delivery_count env)), de_nak_err env)"
    using process_valid(3) [OF _ assms(2,3,1)] by auto
next
  assume *: "\<not> valid_delivery message \<and> nc_jetStream client \<noteq> None \<and> de_publish_err env = None
    \<and> encode_dead_letter (dead_letter_of (de_now env) message (env_id e) (delivery_count env)
        ''invalid_event_envelope'') = Inr payload"
  then have "w' = deadLetter client env message (env_id e) (delivery_count env) ''invalid_event_envelope'' w"
    by (simp add: assms process_invalid)
  moreover have "publish_dead_letter client env message (env_id e) (delivery_count env) ''invalid_event_envelope'' w
      = (None, w\<lparr>cw_dead := cw_dead w @ [(deadLetterSubject, payload)]\<rparr>)"
    using * by (auto simp: publish_dead_letter_def nats_JetStream_def)
  ultimately show "last (cw_signals w') = (Term, de_term_err env)" "cw_dead w' = cw_dead w @ [(deadLetterSubject, payload)]"
    by (simp_all add: deadLetter_effect)
qed

theorem process_decision_witness:
  "last (cw_signals (process demo_pg running_db consumer_client failing_delivery probe_msg empty_consumer_world))
     = (NakWithDelay (redeliveryBackoff 1), None)"
proof -
  have "tx_outcome (consumer_tx demo_pg running_db failing_delivery probe_envelope (cw_receipts empty_consumer_world)) \<noteq> Returns None"
    "delivery_count failing_delivery = 1" "(1 :: 64 word) < maxDeliveries" "de_nak_err failing_delivery = None"
    by code_simp+
  then show ?thesis
    using process_decision [OF refl refl refl, where q = demo_pg and db = running_db
        and client = consumer_client and env = failing_delivery and message = probe_msg and w = empty_consumer_world]
      probe_msg_valid by simp
qed

text \<open>
  The redelivery delay doubles from one second and is capped at one minute, for every 64-bit
  delivery count.
\<close>

theorem redeliveryBackoff_exact: "redeliveryBackoff d = min (60 * Second) (Second * 2 ^ (unat d - 1))"
  using redeliveryBackoff_min [of d] by (simp add: Minute_def)


text \<open>
  C13. A valid event is consumed if any of its five permitted deliveries meets no failure: the
  server's deliveries then end with an accepted acknowledgement and the receipt in the table,
  however the other deliveries failed.
\<close>

theorem consumer_eventually_consumes:
  assumes "valid_delivery message" and "e = snd (Unmarshal (nm_data message))"
    and "db_pool db = Some pool" and "to_uuid q (env_id e) = Some eid"
    and "k < length envs" and "k < 5"
    and "de_tx (envs ! k) = quiet_tx" and "de_exec_err (envs ! k) = None" and "de_ack_err (envs ! k) = None"
  shows "last (cw_signals (deliver q db client message 1 envs w)) = (Ack, None)
    \<and> has_receipt q e (deliver q db client message 1 envs w)"
  using assms(6) by (intro deliver_consumes [OF assms(1-5) _ _ assms(7-9)]) auto

theorem consumer_eventually_consumes_witness:
  "has_receipt demo_pg probe_envelope
     (deliver demo_pg running_db consumer_client probe_msg 1 [failing_delivery, probe_delivery] empty_consumer_world)"
  using consumer_eventually_consumes [OF probe_msg_valid(1) refl, of running_db "()" demo_pg "probe_id CHR ''1''" 1
      "[failing_delivery, probe_delivery]" consumer_client empty_consumer_world] probe_msg_valid(2)
  by (simp add: running_db_def demo_pg_def probe_envelope_def probe_delivery_def)

text \<open>
  C23. The limit of the delivery policy: when none of the five permitted deliveries of a valid event
  can commit its receipt and the dead letter cannot be published at the last one, the code asks
  for a redelivery that the server's limit excludes. Whatever would have happened to further
  deliveries, the message ends with no receipt, no dead letter and no final signal.
\<close>

theorem final_delivery_unrecorded:
  assumes "valid_delivery message" and "length envs = 5"
    and "\<forall>env \<in> set envs. de_exec_err env \<noteq> None \<and> (\<exists>err. de_publish_err env = Some (err, False))"
  shows "cw_receipts (deliver q db client message 1 (envs @ rest) w) = cw_receipts w
    \<and> cw_dead (deliver q db client message 1 (envs @ rest) w) = cw_dead w
    \<and> (\<exists>err. last (cw_signals (deliver q db client message 1 (envs @ rest) w)) = (NakWithDelay Minute, err))"
proof -
  have "envs \<noteq> []" using assms(2) by auto
  then show ?thesis
    using failing_deliveries [OF assms(1), of envs 1 q db client w] assms(2,3) by (simp add: deliver_limit)
qed

theorem final_delivery_unrecorded_witness:
  "cw_dead (deliver demo_pg running_db consumer_client probe_msg 1
     (replicate 5 failing_delivery @ [probe_delivery]) empty_consumer_world) = []"
  using final_delivery_unrecorded [OF probe_msg_valid(1), of "replicate 5 failing_delivery" demo_pg running_db
      consumer_client "[probe_delivery]" empty_consumer_world]
  by (simp add: failing_delivery_def empty_consumer_world_def)



end
