(* ===== verification/Pipeline.thy ===== *)
theory Pipeline
  imports RelayProgress ConsumerSpec
begin

text \<open>
  The whole way of an event: inserted with its transaction, relayed to the stream, consumed.

  A message of the stream is the JSON text of a stored event. Here the outbox system and the
  consumer meet: what a relay sends decodes at the consumer to the event of the row, and a row
  inserted by the repository is one that \<open>Claim\<close> can decode again. The second holds for events whose
  \<open>occurred_at\<close> has a zone of whole minutes and whose data leave room for the envelope within the
  nesting \<open>encoding/json\<close> reads (\<open>deliverable\<close>).
\<close>

section \<open>Rows that can be sent\<close>

definition deliverable :: "envelope \<Rightarrow> bool" where
  "deliverable e \<longleftrightarrow> occurred_offset e mod 60 = 0 \<and> (\<exists>v. json_grammar 9999 v (env_data e))"

definition sendable :: "outbox_row \<Rightarrow> bool" where
  "sendable r \<longleftrightarrow>
     (\<exists>e p. unmarshal_envelope (row_payload r) = Inr e \<and> Validate e = None \<and> marshal_envelope e = Inr p)"

lemma sendable_event: "event_columns r' = event_columns r \<Longrightarrow> sendable r' = sendable r"
  by (simp add: sendable_def event_columns_D [of r' r])

lemma marshal_other_data:
  assumes "marshal_envelope e = Inr p" and "value_text 9999 v raw"
  shows "\<exists>p'. marshal_envelope (e\<lparr>env_data := raw\<rparr>) = Inr p'"
proof -
  have "json_parse raw = Some v"
    using grammarI [OF value_text_deeper(1) [OF assms(2)]] by (simp add: json_parse_grammar max_nesting_Suc)
  then show ?thesis using assms(1) by (auto simp: marshal_envelope_def bindR_Inr_iff marshal_raw_def)
qed

lemma unmarshal_Unmarshal: "unmarshal_envelope t = Inr e \<Longrightarrow> Unmarshal t = (None, e)"
  by (auto simp: unmarshal_envelope_def split: prod.splits option.splits)

lemma stored_sendable:
  assumes "jsonb_faithful jsonb" and "deliverable e" and "Validate e = None" and "in_i64 (env_version e)"
    and "marshal_envelope e = Inr payload" and "jsonb payload = Some t"
  shows "\<exists>raw p. unmarshal_envelope t = Inr (e\<lparr>env_data := raw\<rparr>) \<and> Validate (e\<lparr>env_data := raw\<rparr>) = None
    \<and> marshal_envelope (e\<lparr>env_data := raw\<rparr>) = Inr p \<and> data_kept (env_data e) raw"
proof -
  have "json_parse t \<noteq> None"
    using stored_parsed [OF assms(1,3,5,6)] assms(2) by (auto simp: deliverable_def)
  from Unmarshal_stored [OF assms(1,3-6) this] assms(2) obtain raw ms where
    t: "Unmarshal t = (None, e\<lparr>env_data := raw\<rparr>)" "value_text 9999 (JObject ms) raw" "data_kept (env_data e) raw"
    by (auto simp: deliverable_def written_id)
  moreover obtain p where "marshal_envelope (e\<lparr>env_data := raw\<rparr>) = Inr p"
    using marshal_other_data [OF assms(5) t(2)] by blast
  ultimately show ?thesis
    using stored_valid [OF assms(3) t(2)] by (intro exI [of _ raw] exI [of _ p]) (simp add: unmarshal_envelope_def)
qed

lemma inserted_sendable:
  assumes ins: "Insert q fault now e t = (None, t')" and laws: "storage_laws q" and "deliverable e"
  shows "\<exists>row raw p. t' = t @ [row] \<and> row_id row = env_id e
    \<and> unmarshal_envelope (row_payload row) = Inr (e\<lparr>env_data := raw\<rparr>) \<and> Validate (e\<lparr>env_data := raw\<rparr>) = None
    \<and> marshal_envelope (e\<lparr>env_data := raw\<rparr>) = Inr p \<and> data_kept (env_data e) raw"
  using ins
proof (cases rule: Insert_table_cases)
  case (2 subject payload)
  from 2(5) obtain eid tenant aggregate correlation causation kept where
    eid: "to_uuid q (env_id e) = Some eid" and stored: "jsonb_text q payload = Some kept"
    and constraints: "row_constraints q (new_row now e eid subject tenant aggregate correlation causation kept)"
    and t': "t' = t @ [new_row now e eid subject tenant aggregate correlation causation kept]"
    by (rule sql_insert_Inr)
  have "IsUUIDv7 (env_id e)" using 2(2) by (simp add: Validate_None_iff valid_envelope_def)
  then have "eid = env_id e" using eid storage_uuid [OF laws] by simp
  moreover have "in_i64 (env_version e)"
    using constraints by (simp add: row_constraints_def new_row_def in_i32_def in_i64_def)
  ultimately show ?thesis
    using stored_sendable [OF storage_json [OF laws] assms(3) 2(2) _ 2(4) stored] t' by (auto simp: new_row_def)
qed simp

lemma insert_sendable:
  assumes "Insert q fault now e t = (err, t')" and "storage_laws q" and "deliverable e"
    and "\<forall>r \<in> set t. sendable r"
  shows "\<forall>r \<in> set t'. sendable r"
proof (cases err)
  case None
  from inserted_sendable [OF assms(1) [unfolded None] assms(2,3)] assms(4) show ?thesis by (auto simp: sendable_def)
next
  case (Some x)
  then have "t' = t" using assms(1) by (auto elim: Insert_table_cases)
  with assms(4) show ?thesis by simp
qed

section \<open>A system whose producers commit deliverable events\<close>

inductive reachable_committing :: "(envelope \<Rightarrow> bool) \<Rightarrow> pg \<Rightarrow> (string \<Rightarrow> relay_config) \<Rightarrow> relay_system \<Rightarrow> bool"
  for P q cfg where
  rc_initial: "reachable_committing P q cfg initial_system"
| rc_commit: "reachable_committing P q cfg s \<Longrightarrow> P e \<Longrightarrow> Insert q fault now e (w_table (sys_world s)) = (err, t) \<Longrightarrow>
    reachable_committing P q cfg (s\<lparr>sys_world := (sys_world s)\<lparr>w_table := t\<rparr>\<rparr>)"
| rc_relay: "reachable_committing P q cfg s \<Longrightarrow> relay_step q cfg s s' \<Longrightarrow> reachable_committing P q cfg s'"

lemma reachable_committing_reachable: "reachable_committing P q cfg s \<Longrightarrow> reachable_system q cfg s"
  by (induction rule: reachable_committing.induct)
    (blast intro: reach_initial reach_system_step sys_commit sys_relay)+

text \<open>The relay's operations keep the events of the table.\<close>

lemma moves_events: "list_all2 (row_moves A) t t' \<Longrightarrow> map event_columns t' = map event_columns t"
  by (auto simp: list_eq_iff_nth_eq list_all2_conv_all_nth row_moves_def)

lemma MarkPublished_events:
  assumes "MarkPublished q db fault now eid w t = (err, t')"
  shows "map event_columns t' = map event_columns t"
proof -
  have "row_moves UNIV r (publish_row now r)" for r by (simp add: row_moves_def)
  then have "list_all2 (row_moves UNIV) t t'"
    using assms by (auto simp: MarkPublished_def moves_refl split: sum.splits elim!: update_leased_moves)
  then show ?thesis by (rule moves_events)
qed

lemmas table_events = moves_events [OF Claim_moves] MarkPublished_events moves_events [OF MarkFailed_moves]

lemma publish_events: "nats_Publish (js_publish_msg outcome) client subject mid payload w = (err, w') \<Longrightarrow> w_table w' = w_table w"
  by (auto simp: nats_Publish_def js_publish_msg_def store_message_def split: sum.splits publish_outcome.splits if_splits)

lemma relay_act_events:
  assumes "relay_act (world_ops q db client env) c wid pc w = (pc', w')"
  shows "map event_columns (w_table w') = map event_columns (w_table w)"
  using assms
  by (cases "(world_ops q db client env, c, wid, pc, w)" rule: relay_act.cases)
    (auto simp: world_ops_simps Let_def split: prod.splits sum.splits option.splits if_splits dest!: table_events publish_events)

lemma relay_step_events:
  assumes "relay_step q cfg s s'"
  shows "map event_columns (w_table (sys_world s')) = map event_columns (w_table (sys_world s))"
  using assms by cases (simp_all add: relay_act_events)

lemma reachable_sendable:
  assumes "reachable_committing deliverable q cfg s" and laws: "storage_laws q"
  shows "\<forall>r \<in> set (w_table (sys_world s)). sendable r"
  using assms(1)
proof induction
  case rc_initial
  then show ?case by (simp add: initial_system_def)
next
  case (rc_commit s e fault now err t)
  then show ?case using insert_sendable [OF rc_commit(3) laws] by simp
next
  case (rc_relay s s')
  show ?case
  proof
    fix r' assume "r' \<in> set (w_table (sys_world s'))"
    then have "event_columns r' \<in> set (map event_columns (w_table (sys_world s)))"
      unfolding relay_step_events [OF rc_relay(2), symmetric] by simp
    then obtain r where "r \<in> set (w_table (sys_world s))" "event_columns r' = event_columns r" by auto
    with sendable_event [OF this(2)] rc_relay(3) show "sendable r'" by simp
  qed
qed

section \<open>From the stream to the consumer\<close>

definition delivered_message :: "stream_message \<Rightarrow> nats_msg" where
  "delivered_message m = \<lparr>nm_subject = msg_subject m, nm_data = msg_payload m\<rparr>"

lemma message_decodes:
  assumes "message_of r m" and "row_source r"
  shows "valid_delivery (delivered_message m)"
    and "env_id (snd (Unmarshal (msg_payload m))) = row_id r"
    and "env_type (snd (Unmarshal (msg_payload m))) = row_event_type r"
proof -
  obtain e where e: "unmarshal_envelope (row_payload r) = Inr e" "Validate e = None" "marshal_envelope e = Inr (msg_payload m)"
    using assms(1) by (auto simp: message_of_def)
  from Unmarshal_resent [OF unmarshal_Unmarshal [OF e(1)] e(2,3)]
  have msg: "Unmarshal (msg_payload m) = (None, compact_data e)" "Validate (compact_data e) = None" by auto
  then show "valid_delivery (delivered_message m)" by (simp add: valid_delivery_def delivered_message_def)
  from assms(2) e(1) have "env_id e = row_id r" "env_type e = row_event_type r"
    by (auto simp: row_source_def source_event_def as_written_def)
  with msg show "env_id (snd (Unmarshal (msg_payload m))) = row_id r"
    "env_type (snd (Unmarshal (msg_payload m))) = row_event_type r"
    by (simp_all add: compact_data_def)
qed

lemma source_uuid: "row_source r \<Longrightarrow> IsUUIDv7 (row_id r)"
  by (auto simp: row_source_def source_event_def Validate_None_iff valid_envelope_def)

lemma published_message:
  assumes "storage_laws q" and "reachable_system q cfg s" and "r \<in> set (w_table (sys_world s))" and "row_status r = Published"
  obtains m where "m \<in> set (w_stream (sys_world s))" "message_of r m" "row_source r"
proof -
  have "world_safe q (sys_world s)" using reachable_system_ok [OF assms(2,1)] by (simp add: system_ok_def)
  then obtain m where m: "m \<in> set (w_stream (sys_world s))" "message_of r m" and source: "row_source r"
    using assms(3,4) by (auto simp: world_safe_def)
  with that show ?thesis by blast
qed

lemma process_valid_dead:
  fixes w :: "'z consumer_world_scheme"
  assumes valid: "valid_delivery message" and e: "e = snd (Unmarshal (nm_data message))"
  shows "cw_dead (process q db client env message w) = cw_dead w \<or>
    (\<exists>payload. encode_dead_letter (dead_letter_of (de_now env) message (env_id e) (delivery_count env) ''consumer_processing_failed'') = Inr payload
      \<and> cw_dead (process q db client env message w) = cw_dead w @ [(deadLetterSubject, payload)])"
proof -
  let ?tx = "consumer_tx q db env e (cw_receipts w)"
  note run = process_valid [OF valid e refl refl, where q = q and db = db and client = client and env = env and w = w]
  consider "tx_outcome ?tx = Returns None" | "tx_outcome ?tx \<noteq> Returns None" "delivery_count env < maxDeliveries"
    | "tx_outcome ?tx \<noteq> Returns None" "maxDeliveries \<le> delivery_count env"
    by (cases "delivery_count env < maxDeliveries") (auto simp: not_less)
  then show ?thesis
  proof cases
    case 3
    from run(4) [OF this] obtain w1 where "cw_dead w1 = cw_dead w"
      "process q db client env message w = deadLetter client env message (env_id e) (delivery_count env) ''consumer_processing_failed'' w1"
      by auto
    then show ?thesis
      by (auto simp: deadLetter_effect(3) publish_dead_letter_def Let_def split: sum.splits option.splits)
  qed (use run(2,3) in auto)
qed

lemma process_new_receipt:
  fixes w :: "'z consumer_world_scheme"
  assumes valid: "valid_delivery message" and e: "e = snd (Unmarshal (nm_data message))"
    and c: "c \<in> set (cw_receipts (process q db client env message w))"
  shows "c \<in> set (cw_receipts w) \<or> (to_uuid q (env_id e) = Some (con_event_id c) \<and> con_event_type c = env_type e)"
proof -
  let ?new = "\<lambda>c. to_uuid q (env_id e) = Some (con_event_id c) \<and> con_event_type c = env_type e"
  have "\<forall>c \<in> set (tx_db (consumer_tx q db env e (cw_receipts w))). c \<in> set (cw_receipts w) \<or> ?new c"
    unfolding consumer_tx_def
  proof (rule InTransaction_invariant)
    fix op cap t'
    assume "Some (consume_operation q env e (delivery_count env)) = Some op" "op (cw_receipts w) = OpDone None cap t'"
    then have "consume_operation q env e (delivery_count env) (cw_receipts w) = OpDone None cap t'" by simp
    from consume_operation_done [OF this] show "\<forall>c \<in> set t'. c \<in> set (cw_receipts w) \<or> ?new c"
      by (auto simp: sql_insert_receipt_def bindR_Inr_iff uuid_arg_def Let_def split: option.splits if_splits)
  qed simp
  with c show ?thesis unfolding process_valid(1) [OF valid e refl refl] by blast
qed

text \<open>What holds of each receipt and dead letter a delivery adds holds of all of them.\<close>

lemma process_all_collects:
  fixes w :: "'z consumer_world_scheme"
  assumes "\<And>env message c (v :: 'z consumer_world_scheme). (env, message) \<in> set deliveries \<Longrightarrow>
      c \<in> set (cw_receipts (process q db client env message v)) \<Longrightarrow> c \<in> set (cw_receipts v) \<or> R c"
    and "\<And>env message d (v :: 'z consumer_world_scheme). (env, message) \<in> set deliveries \<Longrightarrow>
      d \<in> set (cw_dead (process q db client env message v)) \<Longrightarrow> d \<in> set (cw_dead v) \<or> D d"
  shows "(\<forall>c \<in> set (cw_receipts (process_all q db client deliveries w)). c \<in> set (cw_receipts w) \<or> R c)
    \<and> (\<forall>d \<in> set (cw_dead (process_all q db client deliveries w)). d \<in> set (cw_dead w) \<or> D d)"
  using assms
proof (induction deliveries arbitrary: w)
  case (Cons d deliveries)
  obtain env message where d: "d = (env, message)" by fastforce
  let ?w = "process q db client env message w"
  have "(\<forall>c \<in> set (cw_receipts (process_all q db client deliveries ?w)). c \<in> set (cw_receipts ?w) \<or> R c)
    \<and> (\<forall>d \<in> set (cw_dead (process_all q db client deliveries ?w)). d \<in> set (cw_dead ?w) \<or> D d)"
    using Cons.prems by (intro Cons.IH) (meson list.set_intros(2))+
  moreover have "\<forall>c \<in> set (cw_receipts ?w). c \<in> set (cw_receipts w) \<or> R c"
    using Cons.prems(1) [of env message _ w] by (simp add: d)
  moreover have "\<forall>x \<in> set (cw_dead ?w). x \<in> set (cw_dead w) \<or> D x"
    using Cons.prems(2) [of env message _ w] by (simp add: d)
  ultimately show ?case unfolding d process_all_Cons by blast
qed (simp add: process_all_def)

text \<open>A dead letter about a failed processing names the event.\<close>

definition failure_letter :: "string \<Rightarrow> string \<times> string \<Rightarrow> bool" where
  "failure_letter event_id d \<longleftrightarrow> fst d = deadLetterSubject \<and>
     (case json_parse (snd d) of
        Some (JObject ms) \<Rightarrow> map_of ms ''event_id'' = Some (JString event_id)
          \<and> map_of ms ''reason_code'' = Some (JString ''consumer_processing_failed'')
      | _ \<Rightarrow> False)"

lemma failure_letterI:
  assumes "encode_dead_letter (dead_letter_of now message eid n ''consumer_processing_failed'') = Inr payload" and "IsUUIDv7 eid"
  shows "failure_letter eid (deadLetterSubject, payload)"
proof -
  have "appendString eid = eid" "eid \<noteq> []"
    using simple_appendString [OF simple_IsUUIDv7 [OF assms(2)]] IsUUIDv7_D(1) [OF assms(2)] by auto
  moreover have "appendString ''consumer_processing_failed'' = ''consumer_processing_failed''" by code_simp
  ultimately show ?thesis
    using encode_dead_letter_parsed [OF assms(1)]
    by (simp add: failure_letter_def dead_letter_members_def dead_letter_of_def)
qed

lemma delivered_effects:
  fixes w :: "'z consumer_world_scheme"
  assumes "storage_laws q" and "message_of r m" and "row_source r"
  shows "c \<in> set (cw_receipts (process q db client env (delivered_message m) w)) \<Longrightarrow>
      c \<in> set (cw_receipts w) \<or> (con_event_id c = row_id r \<and> con_event_type c = row_event_type r)"
    and "d \<in> set (cw_dead (process q db client env (delivered_message m) w)) \<Longrightarrow>
      d \<in> set (cw_dead w) \<or> failure_letter (row_id r) d"
proof -
  note decodes = message_decodes [OF assms(2,3)]
  have data: "nm_data (delivered_message m) = msg_payload m" by (simp add: delivered_message_def)
  have id: "IsUUIDv7 (row_id r)" by (rule source_uuid [OF assms(3)])
  then have uuid: "to_uuid q (row_id r) = Some (row_id r)" by (rule storage_uuid [OF assms(1)])
  show "c \<in> set (cw_receipts w) \<or> (con_event_id c = row_id r \<and> con_event_type c = row_event_type r)"
    if "c \<in> set (cw_receipts (process q db client env (delivered_message m) w))"
    using process_new_receipt [OF decodes(1) refl that] uuid by (auto simp: data decodes(2,3))
  show "d \<in> set (cw_dead w) \<or> failure_letter (row_id r) d"
    if "d \<in> set (cw_dead (process q db client env (delivered_message m) w))"
    using process_valid_dead [OF decodes(1) refl, of q db client env w] that failure_letterI [OF _ id]
    by (auto simp: data decodes(2))
qed

section \<open>A concrete run for the witnesses\<close>

lemma probe_deliverable: "deliverable probe_envelope"
proof -
  have "value_text 9999 (JObject []) ''{}''" using empty_object [of "[]" 9998] by simp
  then show ?thesis by (auto simp: deliverable_def probe_envelope_def intro: grammarI)
qed

lemma probe_committing:
  "\<exists>s. reachable_committing deliverable demo_pg (\<lambda>_. probe_relay_config) s \<and> sys_world s = committed_world"
proof (intro exI conjI)
  show "reachable_committing deliverable demo_pg (\<lambda>_. probe_relay_config)
      (initial_system\<lparr>sys_world := (sys_world initial_system)\<lparr>w_table := [demo_row]\<rparr>\<rparr>)"
    by (rule rc_commit [where fault = None and now = 100 and e = probe_envelope and err = None], rule rc_initial,
      rule probe_deliverable) (simp add: initial_system_def demo_insert)
qed (simp add: initial_system_def committed_world_def)

section \<open>Properties\<close>





text \<open>
  C9. A published event is consumed: in every reachable state, when the message of a published row
  is delivered up to five times and one of these deliveries meets no failure, the deliveries end
  with an accepted acknowledgement and with the receipt of that row's event in the table.
\<close>

theorem published_event_consumed:
  assumes "storage_laws q" and "reachable_system q cfg s"
    and "r \<in> set (w_table (sys_world s))" and "row_status r = Published"
    and "db_pool db = Some pool" and "k < length envs" and "k < 5"
    and "de_tx (envs ! k) = quiet_tx" and "de_exec_err (envs ! k) = None" and "de_ack_err (envs ! k) = None"
  shows "\<exists>m \<in> set (w_stream (sys_world s)). msg_id m = row_id r
    \<and> last (cw_signals (deliver q db client (delivered_message m) 1 envs w)) = (Ack, None)
    \<and> (InfrastructureConsumer, row_id r)
        \<in> receipt_key ` set (cw_receipts (deliver q db client (delivered_message m) 1 envs w))"
proof -
  obtain m where m: "m \<in> set (w_stream (sys_world s))" "message_of r m" "row_source r"
    by (rule published_message [OF assms(1-4)])
  note decodes = message_decodes [OF m(2,3)]
  let ?e = "snd (Unmarshal (nm_data (delivered_message m)))"
  have id: "env_id ?e = row_id r" using decodes(2) by (simp add: delivered_message_def)
  then have uuid: "to_uuid q (env_id ?e) = Some (row_id r)" using storage_uuid [OF assms(1) source_uuid [OF m(3)]] by simp
  have "last (cw_signals (deliver q db client (delivered_message m) 1 envs w)) = (Ack, None)
    \<and> has_receipt q ?e (deliver q db client (delivered_message m) 1 envs w)"
    using assms(7) by (intro deliver_consumes [OF decodes(1) refl assms(5) uuid assms(6) _ _ assms(8-10)]) auto
  with m(1,2) uuid show ?thesis by (intro bexI [of _ m]) (auto simp: has_receipt_def message_of_def)
qed

theorem published_event_consumed_witness:
  "\<exists>s. reachable_system demo_pg (\<lambda>_. probe_relay_config) s
    \<and> (\<exists>m \<in> set (w_stream (sys_world s)). (InfrastructureConsumer, probe_id CHR ''1'') \<in> receipt_key ` set (cw_receipts
          (deliver demo_pg running_db consumer_client (delivered_message m) 1 [failing_delivery, probe_delivery] empty_consumer_world)))"
proof -
  obtain s where s: "reachable_system demo_pg (\<lambda>_. probe_relay_config) s"
    "w_table (sys_world s) = [publish_row 300 demo_claimed_row]"
    using probe_reachable by blast
  have row: "row_status (publish_row 300 demo_claimed_row) = Published" by (simp add: publish_row_def)
  have id: "row_id (publish_row 300 demo_claimed_row) = probe_id CHR ''1''" by (simp add: demo_claimed_fields)
  have good: "de_tx ([failing_delivery, probe_delivery] ! 1) = quiet_tx" "de_exec_err ([failing_delivery, probe_delivery] ! 1) = None"
    "de_ack_err ([failing_delivery, probe_delivery] ! 1) = None" "db_pool running_db = Some ()"
    by (simp_all add: probe_delivery_def running_db_def)
  have "publish_row 300 demo_claimed_row \<in> set (w_table (sys_world s))" by (simp add: s(2))
  from published_event_consumed [OF probe_laws s(1) this row good(4) _ _ good(1-3), of consumer_client empty_consumer_world] s(1)
  show ?thesis unfolding id by (intro exI [of _ s]) (auto simp del: deliver.simps)
qed

text \<open>
  C10. No receipt without an event: whatever messages of the stream are delivered, in any order, any
  number of times and with any failures, each receipt names the id and the type of a committed
  row. No message of the stream is rejected as invalid: a dead letter is about a failed processing,
  under the id of a committed row.
\<close>

theorem receipts_committed:
  fixes w :: "'z consumer_world_scheme"
  assumes "storage_laws q" and "reachable_system q cfg s"
    and "\<forall>(env, message) \<in> set deliveries. \<exists>m \<in> set (w_stream (sys_world s)). message = delivered_message m"
    and "cw_receipts w = []" and "cw_dead w = []"
  shows "(\<forall>c \<in> set (cw_receipts (process_all q db client deliveries w)). \<exists>r \<in> set (w_table (sys_world s)).
        con_event_id c = row_id r \<and> con_event_type c = row_event_type r)
    \<and> (\<forall>d \<in> set (cw_dead (process_all q db client deliveries w)). \<exists>r \<in> set (w_table (sys_world s)).
        failure_letter (row_id r) d)"
proof -
  let ?t = "w_table (sys_world s)"
  have source: "\<exists>r \<in> set ?t. message_of r m \<and> row_source r" if "m \<in> set (w_stream (sys_world s))" for m
    using that reachable_system_ok [OF assms(2,1)]
    by (auto simp: system_ok_def world_safe_def)
  have "\<exists>r \<in> set ?t. \<exists>m. message = delivered_message m \<and> message_of r m \<and> row_source r"
    if "(env, message) \<in> set deliveries" for env message
    using assms(3) that source by fastforce
  then obtain r m where known: "\<And>env message. (env, message) \<in> set deliveries \<Longrightarrow> r env message \<in> set ?t
      \<and> message = delivered_message (m env message) \<and> message_of (r env message) (m env message) \<and> row_source (r env message)"
    by metis
  let ?R = "\<lambda>c. \<exists>r \<in> set ?t. con_event_id c = row_id r \<and> con_event_type c = row_event_type r"
  let ?D = "\<lambda>d. \<exists>r \<in> set ?t. failure_letter (row_id r) d"
  have receipt: "c \<in> set (cw_receipts v) \<or> ?R c"
    if "(env, message) \<in> set deliveries" "c \<in> set (cw_receipts (process q db client env message v))"
    for env message c and v :: "'z consumer_world_scheme"
    using known [OF that(1)] delivered_effects(1) [OF assms(1), of "r env message" "m env message" c db client env v] that(2) by auto
  have letter: "d \<in> set (cw_dead v) \<or> ?D d"
    if "(env, message) \<in> set deliveries" "d \<in> set (cw_dead (process q db client env message v))"
    for env message d and v :: "'z consumer_world_scheme"
  proof -
    note r = known [OF that(1)]
    then have "d \<in> set (cw_dead (process q db client env (delivered_message (m env message)) v))" using that(2) by simp
    from delivered_effects(2) [OF assms(1) _ _ this] r show ?thesis by blast
  qed
  from process_all_collects [of deliveries q db client ?R ?D w, OF receipt letter] assms(4,5) show ?thesis by simp
qed

theorem receipts_committed_witness:
  "\<exists>s. reachable_system demo_pg (\<lambda>_. probe_relay_config) s
    \<and> (\<forall>c \<in> set (cw_receipts (process_all demo_pg running_db consumer_client
          [(probe_delivery, probe_msg), (failing_delivery, probe_msg)] empty_consumer_world)).
        \<exists>r \<in> set (w_table (sys_world s)). con_event_id c = row_id r)
    \<and> cw_receipts (process_all demo_pg running_db consumer_client
          [(probe_delivery, probe_msg), (failing_delivery, probe_msg)] empty_consumer_world) \<noteq> []"
proof -
  obtain s where s: "reachable_system demo_pg (\<lambda>_. probe_relay_config) s" "w_stream (sys_world s) = [probe_message]"
    using probe_reachable by blast
  have msg: "delivered_message probe_message = probe_msg"
    by (simp add: delivered_message_def probe_message_def probe_msg_def InfrastructureSubject_def)
  have "tx_db (consumer_tx demo_pg running_db failing_delivery probe_envelope
      (tx_db (consumer_tx demo_pg running_db probe_delivery probe_envelope []))) \<noteq> []"
    by code_simp
  then have new: "cw_receipts (process_all demo_pg running_db consumer_client
      [(probe_delivery, probe_msg), (failing_delivery, probe_msg)] empty_consumer_world) \<noteq> []"
    by (simp add: process_all_def probe_receipts) (simp add: empty_consumer_world_def)
  have start: "cw_receipts empty_consumer_world = []" "cw_dead empty_consumer_world = []"
    by (simp_all add: empty_consumer_world_def)
  have "\<forall>(env, message) \<in> set [(probe_delivery, probe_msg), (failing_delivery, probe_msg)].
      \<exists>m \<in> set (w_stream (sys_world s)). message = delivered_message m"
    by (simp add: s(2) msg)
  note receipts_committed [OF probe_laws s(1) this start, of running_db consumer_client]
  with s(1) new show ?thesis by blast
qed

end
