(* ===== verification/DecodedText.thy ===== *)
theory DecodedText
  imports EnvelopeStore
begin

text \<open>
  The strings \<open>json.Unmarshal\<close> stores are valid UTF-8, whatever bytes and escapes the text holds:
  unpaired surrogates and bytes that are no UTF-8 come out as U+FFFD. With the ranges of the other
  fields this is the type of every envelope the program reads.
\<close>

section \<open>Valid UTF-8\<close>

definition valid_utf8 :: "string \<Rightarrow> bool" where
  "valid_utf8 s \<longleftrightarrow> to_valid_utf8 s = s"

text \<open>A rune at the front of a text.\<close>

definition rune_text :: "string \<Rightarrow> bool" where
  "rune_text w \<longleftrightarrow> w \<noteq> [] \<and> (((of_char (hd w) :: nat) < 0x80 \<and> length w = 1)
     \<or> (0x80 \<le> (of_char (hd w) :: nat) \<and> rune_length w = Some (length w)))"

lemma rune_length_append:
  assumes "rune_length w = Some (length w)"
  shows "rune_length (w @ r) = Some (length w)"
  using assms by (auto simp: rune_length_def numeral_eq_Suc split: list.splits if_splits)

lemma valid_rune_append: "rune_text w \<Longrightarrow> valid_utf8 (w @ r) \<longleftrightarrow> valid_utf8 r"
proof -
  assume w: "rune_text w"
  then obtain c cs where cs: "w = c # cs" by (cases w) (auto simp: rune_text_def)
  consider "(of_char c :: nat) < 0x80" "cs = []" | "0x80 \<le> (of_char c :: nat)" "rune_length w = Some (length w)"
    using w by (auto simp: rune_text_def cs)
  then show ?thesis
  proof cases
    case 2
    from rune_length_append [OF this(2), of r] 2(1) show ?thesis
      by (simp add: cs valid_utf8_def to_valid_utf8.simps(2))
  qed (simp add: cs valid_utf8_def to_valid_utf8.simps(2))
qed

lemma rune_replacement: "rune_text replacement"
  by (simp add: rune_text_def replacement_def rune_length_def second_ok_def continuation_def byte_between_def)

lemma byte_char: "n < 256 \<Longrightarrow> (of_char (char_of n :: char) :: nat) = n"
  by (simp add: of_char_of)

lemma byte_eq: "n < 256 \<Longrightarrow> (char_of (n :: nat) = (d :: char)) \<longleftrightarrow> n = of_char d"
  by (auto simp: byte_char)

lemmas rune_defs = rune_text_def rune_length_def second_ok_def continuation_def byte_between_def

lemma rune_two:
  assumes "0xC2 \<le> a" "a \<le> (0xDF :: nat)" "0x80 \<le> b" "b \<le> (0xBF :: nat)"
  shows "rune_text [char_of a, char_of b]"
  using assms by (simp add: rune_defs byte_char byte_eq)

lemma rune_three:
  assumes "0xE0 \<le> a" "a \<le> (0xEF :: nat)" "0x80 \<le> b" "b \<le> (0xBF :: nat)" "0x80 \<le> c" "c \<le> (0xBF :: nat)"
    and "a = 0xE0 \<longrightarrow> 0xA0 \<le> b" "a = 0xED \<longrightarrow> b \<le> 0x9F"
  shows "rune_text [char_of a, char_of b, char_of c]"
  using assms by (simp add: rune_defs byte_char byte_eq)

lemma rune_four:
  assumes "0xF0 \<le> a" "a \<le> (0xF4 :: nat)" "0x80 \<le> b" "b \<le> (0xBF :: nat)" "0x80 \<le> c" "c \<le> (0xBF :: nat)"
    "0x80 \<le> d" "d \<le> (0xBF :: nat)"
    and "a = 0xF0 \<longrightarrow> 0x90 \<le> b" "a = 0xF4 \<longrightarrow> b \<le> 0x8F"
  shows "rune_text [char_of a, char_of b, char_of c, char_of d]"
  using assms by (simp add: rune_defs byte_char byte_eq)

text \<open>Every code point that is no surrogate is encoded as a rune.\<close>

lemma rune_utf8_encode:
  assumes "u < 0xD800 \<or> 0xE000 \<le> u" and "u < 0x110000"
  shows "rune_text (utf8_encode u)"
proof -
  define y where "y = u div 0x40"
  define z where "z = y div 0x40"
  define w where "w = z div 0x40"
  have digits: "u div 0x1000 = z" "u div 0x40000 = w"
    by (simp_all add: w_def z_def y_def div_mult2_eq [symmetric])
  have u: "u = 0x40 * y + u mod 0x40" "u mod 0x40 \<le> 0x3F" and y: "y = 0x40 * z + y mod 0x40" "y mod 0x40 \<le> 0x3F"
    and z: "z = 0x40 * w + z mod 0x40" "z mod 0x40 \<le> 0x3F"
    by (simp_all add: y_def z_def w_def)
  consider "u < 0x80" | "0x80 \<le> u" "u < 0x800" | "0x800 \<le> u" "u < 0x10000" | "0x10000 \<le> u" by linarith
  then show ?thesis
  proof cases
    case 1
    then show ?thesis by (simp add: utf8_encode_def rune_text_def byte_char)
  next
    case 2
    then have "utf8_encode u = [char_of (0xC0 + y), char_of (0x80 + u mod 0x40)]" by (simp add: utf8_encode_def y_def)
    moreover have "rune_text [char_of (0xC0 + y), char_of (0x80 + u mod 0x40)]"
      by (rule rune_two) (use 2 u in linarith)+
    ultimately show ?thesis by simp
  next
    case 3
    then have "utf8_encode u = [char_of (0xE0 + z), char_of (0x80 + y mod 0x40), char_of (0x80 + u mod 0x40)]"
      by (simp add: utf8_encode_def digits y_def)
    moreover have "rune_text [char_of (0xE0 + z), char_of (0x80 + y mod 0x40), char_of (0x80 + u mod 0x40)]"
      by (rule rune_three) (use 3 u y assms(1) in linarith)+
    ultimately show ?thesis by simp
  next
    case 4
    then have "utf8_encode u = [char_of (0xF0 + w), char_of (0x80 + z mod 0x40), char_of (0x80 + y mod 0x40), char_of (0x80 + u mod 0x40)]"
      by (simp add: utf8_encode_def digits y_def)
    moreover have "rune_text [char_of (0xF0 + w), char_of (0x80 + z mod 0x40), char_of (0x80 + y mod 0x40), char_of (0x80 + u mod 0x40)]"
      by (rule rune_four) (use 4 u y z assms(2) in linarith)+
    ultimately show ?thesis by simp
  qed
qed

text \<open>A code unit of four hexadecimal digits, alone or with its partner.\<close>

lemma xdigit_less: "any_hex h \<Longrightarrow> xdigit_value h < 16"
  by (auto simp: any_hex_def xdigit_value_def is_digit_def byte_between_def)

lemma getu4_less:
  assumes "getu4 s = Some (u, r)"
  shows "u < 0x10000"
proof -
  have bound: "a * 4096 + b * 256 + c * 16 + d < 0x10000" if "a < 16" "b < 16" "c < 16" "d < (16 :: nat)" for a b c d
    using that by linarith
  from assms show ?thesis
    by (auto simp: getu4_def xdigit_less intro!: bound split: list.splits if_splits)
qed

lemma rune_code_unit:
  assumes "u < 0x10000"
  shows "rune_text (fst (code_unit u r))"
proof (cases "u < 0xD800 \<or> 0xE000 \<le> u")
  case True
  then show ?thesis using assms by (simp add: code_unit_def rune_utf8_encode)
next
  case False
  have pair: "rune_text (utf8_encode ((u - 0xD800) * 0x400 + (u' - 0xDC00) + 0x10000))"
    if "u < 0xDC00" "0xDC00 \<le> u'" "u' < 0xE000" for u'
    using that False by (intro rune_utf8_encode) auto
  show ?thesis
    using False pair by (auto simp: code_unit_def rune_replacement split: option.split)
qed

text \<open>The content of a string token.\<close>

lemma escape_ascii: "escape_char e \<Longrightarrow> (of_char (unescape e) :: nat) < 0x80"
proof -
  have "list_all (\<lambda>e. (of_char (unescape e) :: nat) < 0x80)
      [CHR ''b'', CHR ''f'', CHR ''n'', CHR ''r'', CHR ''t'', CHR 0x5C, CHR ''/'', CHR 0x22]"
    by code_simp
  then show "escape_char e \<Longrightarrow> ?thesis" by (auto simp: escape_char_def)
qed

lemma rune_ascii: "(of_char c :: nat) < 0x80 \<Longrightarrow> rune_text [c]"
  by (simp add: rune_text_def)

lemma body_suffix: "string_body (w @ t) \<Longrightarrow> list_all plain_char w \<Longrightarrow> string_body t"
  by (induction w) (auto simp: plain_char_def dest: body_tail)

lemma getu4_body: "string_body t \<Longrightarrow> getu4 t = Some (u, r) \<Longrightarrow> string_body r"
  by (erule string_body.cases) (auto simp: getu4_def plain_char_def escape_char_def split: list.splits if_splits)

lemma code_unit_body: "string_body r \<Longrightarrow> string_body (snd (code_unit u r))"
  by (auto simp: code_unit_def dest: getu4_body split: option.split)

lemma backslash_body:
  assumes "string_body (CHR 0x5C # cs)" and "getu4 (CHR 0x5C # cs) = None"
  obtains e es where "cs = e # es" "escape_char e" "string_body es"
  using assms(1)
proof cases
  case (body_unicode h1 h2 h3 h4 t)
  with assms(2) show ?thesis by (simp add: getu4_def)
qed (use that in \<open>auto simp: plain_char_def\<close>)

lemma valid_unquote: "string_body t \<Longrightarrow> valid_utf8 (unquote t)"
proof (induction "length t" arbitrary: t rule: less_induct)
  case less
  show ?case
  proof (cases "getu4 t")
    case (Some x)
    obtain u r where x: "x = (u, r)" by fastforce
    then have t: "unquote t = fst (code_unit u r) @ unquote (snd (code_unit u r))"
      using Some by (subst unquote.simps) simp
    have "valid_utf8 (unquote (snd (code_unit u r)))"
      using Some x getu4_shorter [of t u r] code_unit_length [of u r] code_unit_body getu4_body less.prems
      by (intro less.hyps) (auto intro: le_less_trans)
    with t show ?thesis
      using valid_rune_append [OF rune_code_unit [OF getu4_less [of t u r]]] Some x by simp
  next
    case None
    show ?thesis
    proof (cases t)
      case (Cons c cs)
      have tail: "valid_utf8 (unquote cs)" if "c \<noteq> CHR 0x5C"
        using less.prems that by (intro less.hyps) (auto simp: Cons dest: body_tail)
      consider "c = CHR 0x5C" | "c \<noteq> CHR 0x5C" "(of_char c :: nat) < 0x80"
        | "c \<noteq> CHR 0x5C" "0x80 \<le> (of_char c :: nat)" "rune_length t = None"
        | n where "c \<noteq> CHR 0x5C" "0x80 \<le> (of_char c :: nat)" "rune_length t = Some n"
        by (cases "rune_length t") (auto simp: not_less [symmetric])
      then show ?thesis
      proof cases
        case 1
        from less.prems None obtain e es where es: "cs = e # es" "escape_char e" "string_body es"
          by (auto simp: Cons 1 elim: backslash_body)
        then have "valid_utf8 (unquote es)" by (intro less.hyps) (simp_all add: Cons)
        moreover have "unquote t = [unescape e] @ unquote es"
          using None by (subst unquote.simps) (simp add: Cons 1 es(1))
        ultimately show ?thesis using valid_rune_append [OF rune_ascii [OF escape_ascii [OF es(2)]]] by simp
      next
        case 2
        then have "unquote t = [c] @ unquote cs" using None by (subst unquote.simps) (simp add: Cons)
        then show ?thesis using valid_rune_append [OF rune_ascii [OF 2(2)]] tail 2(1) by simp
      next
        case 3
        then have "unquote t = replacement @ unquote cs" using None by (subst unquote.simps) (simp add: Cons)
        then show ?thesis using valid_rune_append [OF rune_replacement] tail 3(1) by simp
      next
        case 4
        have n: "1 < n" "n \<le> length t" using rune_length_pos [OF 4(3)] by auto
        have rune: "rune_text (take n t)"
          using n 4 rune_length_prefix [of c cs n "[]"] by (simp add: rune_text_def Cons)
        have "list_all plain_char (take n t)" using rune_plain [of c cs n] 4 by (simp add: Cons)
        then have "string_body (drop n t)" using body_suffix [of "take n t" "drop n t"] less.prems by simp
        then have "valid_utf8 (unquote (drop n t))" using n by (intro less.hyps) auto
        moreover have "unquote t = take n t @ unquote (drop n t)"
          using unquote_rune [of c cs n] 4 by (simp add: Cons)
        ultimately show ?thesis using valid_rune_append [OF rune] by simp
      qed
    qed (simp add: valid_utf8_def)
  qed
qed

section \<open>The fields of a decoded envelope\<close>

inductive_cases string_valueE: "value_text d (JString t) s"
inductive_cases object_valueE: "value_text d (JObject ms) s"
inductive_cases members_ConsE: "members_text d (m # ms) s"

lemma member_value_text: "members_text d ms s \<Longrightarrow> (k, v) \<in> set ms \<Longrightarrow> \<exists>u. value_text d v u"
proof (induction ms arbitrary: s)
  case (Cons m ms)
  from Cons.prems(1) show ?case
    by (rule members_ConsE) (use Cons.prems(2) Cons.IH in auto)
qed simp

lemma decode_string_utf8:
  assumes "value_text d v s" and "valid_utf8 old"
  shows "valid_utf8 (fst (decode_string v old))"
  using assms by (auto simp: decode_string_def valid_unquote elim: string_valueE split: json.split)

definition utf8_aggregate :: "aggregate \<Rightarrow> bool" where
  "utf8_aggregate a \<longleftrightarrow> valid_utf8 (agg_type a) \<and> valid_utf8 (agg_id a)"

lemma decode_aggregate_members_utf8:
  assumes "\<forall>(k, v) \<in> set ms. \<exists>d u. value_text d v u" and "utf8_aggregate (fst s)"
  shows "utf8_aggregate (fst (decode_aggregate_members ms s))"
  using assms
proof (induction ms s rule: decode_aggregate_members.induct)
  case (2 k v ms a ok)
  then obtain d u where "value_text d v u" by auto
  then have "valid_utf8 (fst (decode_string v (agg_type a)))" "valid_utf8 (fst (decode_string v (agg_id a)))"
    using 2(3) decode_string_utf8 by (auto simp: utf8_aggregate_def)
  with 2 show ?case by (auto simp: utf8_aggregate_def split: option.split prod.split)
qed simp

lemma decode_aggregate_utf8:
  assumes "value_text d v s" and "utf8_aggregate old"
  shows "utf8_aggregate (fst (decode_aggregate v old))"
proof (cases v)
  case (JObject ms)
  have "\<exists>d u. value_text d w u" if "(k, w) \<in> set ms" for k w
    using assms(1) that unfolding JObject by (elim object_valueE) (simp, blast dest: member_value_text)
  with assms(2) show ?thesis
    by (auto simp: decode_aggregate_def JObject intro!: decode_aggregate_members_utf8)
qed (use assms(2) in \<open>simp_all add: decode_aggregate_def\<close>)

lemma decode_optional_utf8:
  assumes "value_text d v s" and "\<And>t. old = Some t \<Longrightarrow> valid_utf8 t" and "fst (decode_optional v old) = Some t"
  shows "valid_utf8 t"
proof -
  have "valid_utf8 (case old of None \<Rightarrow> [] | Some s \<Rightarrow> s)" using assms(2) by (auto simp: valid_utf8_def split: option.split)
  from decode_string_utf8 [OF assms(1) this] assms(3) show ?thesis
    by (auto simp: decode_optional_def split: json.splits prod.splits)
qed

lemma utf8_envelope_fields:
  "utf8_envelope e \<longleftrightarrow> valid_utf8 (env_id e) \<and> valid_utf8 (env_type e) \<and> utf8_aggregate (env_aggregate e)
     \<and> valid_utf8 (correlation_id e) \<and> valid_utf8 (causation_id e) \<and> (\<forall>t. tenant_id e = Some t \<longrightarrow> valid_utf8 t)"
  by (auto simp: utf8_envelope_def utf8_aggregate_def valid_utf8_def)

lemma decode_field_utf8:
  assumes e: "utf8_envelope (dec_envelope s)" and v: "value_text d v raw"
  shows "utf8_envelope (dec_envelope (decode_field f v raw s))"
proof (cases "f \<in> set envelope_fields")
  case True
  let ?e = "dec_envelope s"
  note fields = e [unfolded utf8_envelope_fields]
  have "valid_utf8 (fst (decode_string v (env_id ?e)))" "valid_utf8 (fst (decode_string v (env_type ?e)))"
    "valid_utf8 (fst (decode_string v (correlation_id ?e)))" "valid_utf8 (fst (decode_string v (causation_id ?e)))"
    "utf8_aggregate (fst (decode_aggregate v (env_aggregate ?e)))"
    "\<And>t. fst (decode_optional v (tenant_id ?e)) = Some t \<Longrightarrow> valid_utf8 t"
    using fields decode_string_utf8 [OF v] decode_aggregate_utf8 [OF v] decode_optional_utf8 [OF v] by auto
  with field_cases [OF True] fields show ?thesis
    by (elim disjE) (simp_all add: decode_field_simps store_field_def utf8_envelope_fields split: sum.split)
next
  case False
  then have "f \<noteq> ''id''" "f \<noteq> ''type''" "f \<noteq> ''version''" "f \<noteq> ''occurred_at''" "f \<noteq> ''tenant_id''" "f \<noteq> ''aggregate''"
    "f \<noteq> ''correlation_id''" "f \<noteq> ''causation_id''"
    by (auto simp: envelope_fields_def)
  then have "decode_field f v raw s = store_field ((dec_envelope s)\<lparr>env_data := raw\<rparr>) True s"
    by (simp add: decode_field_def Let_def)
  with e show ?thesis by (simp add: store_field_def utf8_envelope_fields)
qed

lemma decode_members_utf8:
  assumes "utf8_envelope (dec_envelope s)" and "\<forall>(k, v, raw) \<in> set ms. value_text 9999 v raw"
  shows "utf8_envelope (dec_envelope (decode_members ms s))"
  using assms
proof (induction ms s rule: decode_members.induct)
  case (2 k v raw ms s)
  then show ?case using decode_field_utf8 [of s 9999 v raw] by (auto split: option.splits)
qed simp

lemma Unmarshal_utf8:
  assumes "Unmarshal data = (err, e)"
  shows "utf8_envelope e"
proof -
  have zero: "utf8_envelope zero_envelope" by (simp add: utf8_envelope_def zero_envelope_def)
  consider ms where "json_parse data = Some (JObject ms)" | "e = zero_envelope"
    using assms by (auto simp: Unmarshal_def split: option.splits json.splits)
  then show ?thesis
  proof cases
    case 1
    from object_members [OF 1] zero show ?thesis
      using decode_members_utf8 assms 1 by (auto simp: Unmarshal_def Let_def max_nesting_Suc)
  qed (use zero in simp)
qed

section \<open>Properties\<close>


text \<open>An unpaired surrogate in the id, spelled in capitals, and a version that is no number.\<close>

definition broken_text :: string where
  "broken_text = encode_object [(''ID'', CHR 0x22 # (CHR 0x5C # ''ud800'') @ [CHR 0x22]), (''version'', encode_string ''one'')]"



end
