(* ===== verification/GoNet.thy ===== *)
theory GoNet
  imports GoText
begin

text \<open>
  The parts of Go's \<open>net\<close>, \<open>net/url\<close> and \<open>log/slog\<close> that the sources use.

  \<open>net.SplitHostPort\<close>, the dotted-decimal case of \<open>net.ParseIP\<close> (the only one that a bucket name
  can reach, since it has no colon) and \<open>slog.Level.UnmarshalText\<close> are defined. Of \<open>url.Parse\<close>,
  whose host syntax changes between releases, the model keeps the fields the code reads; the
  parser is an argument of the functions that call it.
\<close>

section \<open>Positions in a string\<close>

fun index_of :: "char \<Rightarrow> string \<Rightarrow> nat option" where
  "index_of c [] = None"
| "index_of c (d # ds) = (if d = c then Some 0 else map_option Suc (index_of c ds))"

definition last_index_of :: "char \<Rightarrow> string \<Rightarrow> nat option" where
  "last_index_of c s = map_option (\<lambda>i. length s - 1 - i) (index_of c (rev s))"

section \<open>net\<close>

definition SplitHostPort :: "string \<Rightarrow> (string \<times> string) result" where
  "SplitHostPort hostport =
     (case last_index_of CHR '':'' hostport of
        None \<Rightarrow> Inl (External ''missing port in address'')
      | Some i \<Rightarrow>
          let finish = (\<lambda>host j k.
                if CHR ''['' \<in> set (drop j hostport) then Inl (External ''unexpected [ in address'')
                else if CHR '']'' \<in> set (drop k hostport) then Inl (External ''unexpected ] in address'')
                else Inr (host, drop (i + 1) hostport))
          in if hostport ! 0 = CHR ''['' then
               (case index_of CHR '']'' hostport of
                  None \<Rightarrow> Inl (External ''missing ] in address'')
                | Some end_pos \<Rightarrow>
                    if end_pos + 1 = length hostport then Inl (External ''missing port in address'')
                    else if end_pos + 1 = i then finish (drop 1 (take end_pos hostport)) 1 (end_pos + 1)
                    else if hostport ! (end_pos + 1) = CHR '':'' then Inl (External ''too many colons in address'')
                    else Inl (External ''missing port in address''))
             else if CHR '':'' \<in> set (take i hostport) then Inl (External ''too many colons in address'')
             else finish (take i hostport) 0 0)"

fun split_on :: "char \<Rightarrow> string \<Rightarrow> string list" where
  "split_on c [] = [[]]"
| "split_on c (d # ds) =
     (if d = c then [] # split_on c ds
      else (case split_on c ds of [] \<Rightarrow> [[d]] | f # fs \<Rightarrow> (d # f) # fs))"

definition ipv4_field :: "string \<Rightarrow> bool" where
  "ipv4_field f \<longleftrightarrow>
     f \<noteq> [] \<and> list_all is_digit f \<and> (hd f = CHR ''0'' \<longrightarrow> length f = 1) \<and> digits_value f \<le> 255"

text \<open>\<open>net.ParseIP(s) != nil\<close> for a text without a colon.\<close>

definition is_ipv4 :: "string \<Rightarrow> bool" where
  "is_ipv4 s \<longleftrightarrow> length (split_on CHR ''.'' s) = 4 \<and> list_all ipv4_field (split_on CHR ''.'' s)"

section \<open>net/url\<close>

record url =
  url_scheme :: string
  url_host :: string
  url_user :: "string option"
  url_path :: string
  url_raw_query :: string
  url_fragment :: string

type_synonym url_parser = "string \<Rightarrow> url result"

section \<open>log/slog\<close>

text \<open>\<open>strings.ToUpper\<close>, as far as its result can be a level name: ASCII letters, and the dotless i
  (bytes C4 B1), the only other rune whose upper case is one of the letters of a level name.\<close>

fun upper_letters :: "string \<Rightarrow> string" where
  "upper_letters [] = []"
| "upper_letters (c # cs) =
     (if byte_between CHR ''a'' CHR ''z'' c then char_of (of_char c - 32 :: nat) # upper_letters cs
      else if c = char_of (0xC4 :: nat) \<and> cs \<noteq> [] \<and> hd cs = char_of (0xB1 :: nat) then CHR ''I'' # upper_letters (tl cs)
      else c # upper_letters cs)"

definition level_of_name :: "string \<Rightarrow> int option" where
  "level_of_name name =
     (if name = ''DEBUG'' then Some (-4)
      else if name = ''INFO'' then Some 0
      else if name = ''WARN'' then Some 4
      else if name = ''ERROR'' then Some 8
      else None)"

definition UnmarshalText :: "string \<Rightarrow> int result" where
  "UnmarshalText s =
     (let name = takeWhile (\<lambda>c. c \<noteq> CHR ''+'' \<and> c \<noteq> CHR ''-'') s;
          rest = dropWhile (\<lambda>c. c \<noteq> CHR ''+'' \<and> c \<noteq> CHR ''-'') s;
          failed = (\<lambda>e. Inl (Errorf ''slog: level string %q: %w'' [FStr s] (Some e)))
      in case (if rest = [] then Some 0 else Atoi rest) of
           None \<Rightarrow> failed (External ''invalid offset'')
         | Some offset \<Rightarrow>
             (case level_of_name (upper_letters name) of
                None \<Rightarrow> failed (errorf ''unknown name'')
              | Some level \<Rightarrow> Inr (i64 (level + offset))))"

end
