(* ===== verification/Dependency.thy ===== *)
theory Dependency
  imports Lifecycle
begin

text \<open>
  Package \<open>dependency\<close> (set.go): the ordered set of the process's dependencies.

  A component is its four methods over the state \<open>'w\<close> the components share. \<open>Start\<close> and \<open>Close\<close>
  are state passing; \<open>Readiness\<close> runs the checks concurrently, each writing its own slot of the
  report, so its model takes the order in which the goroutines finish.

  The locale \<open>managed_components\<close> states what the set relies on: starting or closing a component
  affects only that component. Inside it: started components are always a prefix, \<open>Close\<close> stops
  everything that was started, and a ready report means that all components are up.
\<close>

section \<open>Data\<close>

record 'w component_ops =
  comp_name :: string
  comp_start :: "'w \<Rightarrow> go_error option \<times> 'w"
  comp_check :: "'w \<Rightarrow> go_error option"
  comp_close :: "'w \<Rightarrow> go_error option \<times> 'w"

record check_result =
  check_name :: string
  check_ready :: bool

record readiness_report =
  report_ready :: bool
  report_checks :: "check_result list"

record 'w dependency_set =
  ds_components :: "'w component_ops list"
  ds_timeout :: duration
  ds_active :: bool
  ds_started :: nat

section \<open>Operations\<close>

fun name_error :: "string set \<Rightarrow> 'w component_ops option list \<Rightarrow> go_error option" where
  "name_error seen [] = None"
| "name_error seen (None # cs) = Some (errorf ''dependency component must not be nil'')"
| "name_error seen (Some c # cs) =
     (if comp_name c = [] then Some (errorf ''dependency component name must not be empty'')
      else if comp_name c \<in> seen then
        Some (Errorf ''dependency component name %q is duplicated'' [FStr (comp_name c)] None)
      else name_error (insert (comp_name c) seen) cs)"

definition NewSet :: "duration \<Rightarrow> 'w component_ops option list \<Rightarrow> 'w dependency_set result" where
  "NewSet timeout components =
     (if timeout \<le> 0 then Inl (errorf ''dependency readiness timeout must be positive'')
      else (case name_error {} components of
              Some err \<Rightarrow> Inl err
            | None \<Rightarrow> Inr \<lparr>ds_components = List.map_filter (\<lambda>c. c) components, ds_timeout = timeout,
                           ds_active = False, ds_started = 0\<rparr>))"

fun start_loop :: "nat \<Rightarrow> 'w component_ops list \<Rightarrow> nat \<Rightarrow> 'w \<Rightarrow> go_error option \<times> nat \<times> 'w" where
  "start_loop index [] started w = (None, started, w)"
| "start_loop index (c # cs) started w =
     (case comp_start c w of
        (Some err, w') \<Rightarrow>
          (Some (Errorf ''start dependency %s: %w'' [FStr (comp_name c)] (Some err)), started, w')
      | (None, w') \<Rightarrow> start_loop (Suc index) cs (Suc index) w')"

definition set_Start :: "'w dependency_set \<Rightarrow> 'w \<Rightarrow> go_error option \<times> 'w dependency_set \<times> 'w" where
  "set_Start s w =
     (if ds_active s then (Some (errorf ''dependencies have already started''), s, w)
      else (case start_loop 0 (ds_components s) (ds_started s) w of
              (err, started, w') \<Rightarrow> (err, s\<lparr>ds_active := True, ds_started := started\<rparr>, w')))"

fun close_loop :: "'w component_ops list \<Rightarrow> nat \<Rightarrow> go_error option list \<Rightarrow> 'w \<Rightarrow> go_error option list \<times> 'w" where
  "close_loop cs 0 closeErrors w = (closeErrors, w)"
| "close_loop cs (Suc index) closeErrors w =
     (case comp_close (cs ! index) w of
        (Some err, w') \<Rightarrow>
          close_loop cs index
            (closeErrors @ [Some (Errorf ''close dependency %s: %w'' [FStr (comp_name (cs ! index))] (Some err))]) w'
      | (None, w') \<Rightarrow> close_loop cs index closeErrors w')"

definition set_Close :: "'w dependency_set \<Rightarrow> 'w \<Rightarrow> go_error option \<times> 'w dependency_set \<times> 'w" where
  "set_Close s w =
     (case close_loop (ds_components s) (ds_started s) [] w of
        (closeErrors, w') \<Rightarrow> (errors_Join closeErrors, s\<lparr>ds_started := 0, ds_active := False\<rparr>, w'))"

text \<open>\<open>order\<close> lists the component indices in the order in which their checks write their slot.\<close>

definition zero_check :: check_result where
  "zero_check = \<lparr>check_name = [], check_ready = False\<rparr>"

definition run_checks :: "'w component_ops list \<Rightarrow> 'w \<Rightarrow> nat list \<Rightarrow> check_result list" where
  "run_checks cs w order =
     fold (\<lambda>i checks. checks[i := \<lparr>check_name = comp_name (cs ! i), check_ready = (comp_check (cs ! i) w = None)\<rparr>])
       order (replicate (length cs) zero_check)"

definition Readiness :: "nat list \<Rightarrow> 'w dependency_set \<Rightarrow> 'w \<Rightarrow> readiness_report" where
  "Readiness order s w =
     (let cs = ds_components s in
      if \<not> ds_active s \<or> ds_started s \<noteq> length cs then
        \<lparr>report_ready = (ds_active s \<and> ds_started s = length cs),
         report_checks = map (\<lambda>i. \<lparr>check_name = comp_name (cs ! i), check_ready = i < ds_started s\<rparr>) [0..<length cs]\<rparr>
      else
        let checks = run_checks cs w order
        in \<lparr>report_ready = list_all check_ready checks, report_checks = checks\<rparr>)"

section \<open>Lemmas\<close>

definition names_ok :: "string set \<Rightarrow> 'w component_ops list \<Rightarrow> bool" where
  "names_ok seen ds \<longleftrightarrow>
     distinct (map comp_name ds) \<and> set (map comp_name ds) \<inter> seen = {} \<and> [] \<notin> set (map comp_name ds)"

lemma names_ok_Cons:
  "names_ok seen (c # ds) \<longleftrightarrow> comp_name c \<noteq> [] \<and> comp_name c \<notin> seen \<and> names_ok (insert (comp_name c) seen) ds"
  by (auto simp: names_ok_def)

lemma name_error_None: "name_error seen cs = None \<longleftrightarrow> (\<exists>ds. cs = map Some ds \<and> names_ok seen ds)"
proof (induction seen cs rule: name_error.induct)
  case (1 seen)
  then show ?case by (simp add: names_ok_def)
next
  case (2 seen cs)
  then show ?case by (simp add: Cons_eq_map_conv)
next
  case (3 seen c cs)
  have "(\<exists>ds. Some c # cs = map Some ds \<and> names_ok seen ds) \<longleftrightarrow>
      (\<exists>ds. cs = map Some ds \<and> names_ok seen (c # ds))"
    by (auto simp: Cons_eq_map_conv)
  then show ?case using "3.IH" by (simp add: names_ok_Cons)
qed

lemma run_checks_slots:
  assumes "i < length cs"
  shows "run_checks cs w order ! i =
    (if i \<in> set order then \<lparr>check_name = comp_name (cs ! i), check_ready = (comp_check (cs ! i) w = None)\<rparr>
     else zero_check)"
proof -
  let ?f = "\<lambda>i checks. checks[i := \<lparr>check_name = comp_name (cs ! i), check_ready = (comp_check (cs ! i) w = None)\<rparr>]"
  have "length (fold ?f order xs) = length xs \<and>
    (i < length xs \<longrightarrow> fold ?f order xs ! i =
      (if i \<in> set order then \<lparr>check_name = comp_name (cs ! i), check_ready = (comp_check (cs ! i) w = None)\<rparr>
       else xs ! i))" for xs
    by (induction order arbitrary: xs) (auto simp: nth_list_update)
  from this [of "replicate (length cs) zero_check"] assms
  show "run_checks cs w order ! i =
      (if i \<in> set order then \<lparr>check_name = comp_name (cs ! i), check_ready = (comp_check (cs ! i) w = None)\<rparr>
       else zero_check)"
    by (simp add: run_checks_def)
qed

lemma run_checks_length: "length (run_checks cs w order) = length cs"
proof -
  have "length (fold (\<lambda>i checks. checks[i := f i]) order xs) = length xs" for f :: "nat \<Rightarrow> check_result" and xs
    by (induction order arbitrary: xs) simp_all
  then show ?thesis by (simp add: run_checks_def)
qed

lemma run_checks_all:
  assumes "set order = {..<length cs}"
  shows "run_checks cs w order =
    map (\<lambda>c. \<lparr>check_name = comp_name c, check_ready = (comp_check c w = None)\<rparr>) cs"
  using assms by (intro nth_equalityI) (simp_all add: run_checks_length run_checks_slots)

lemma Readiness_ready_iff:
  assumes "set order = {..<length (ds_components s)}"
  shows "report_ready (Readiness order s w) \<longleftrightarrow>
    ds_active s \<and> ds_started s = length (ds_components s) \<and> (\<forall>c \<in> set (ds_components s). comp_check c w = None)"
  using assms by (auto simp: Readiness_def run_checks_all list_all_iff Let_def)

section \<open>Order of starting and closing\<close>

text \<open>All of \<open>cs\<close> start without an error, one after the other.\<close>

fun starts :: "'w component_ops list \<Rightarrow> 'w \<Rightarrow> 'w option" where
  "starts [] w = Some w"
| "starts (c # cs) w = (case comp_start c w of (None, w') \<Rightarrow> starts cs w' | (Some _, _) \<Rightarrow> None)"

definition closes :: "'w component_ops list \<Rightarrow> 'w \<Rightarrow> 'w" where
  "closes cs w = fold (\<lambda>c w. snd (comp_close c w)) (rev cs) w"

lemma start_loop_cases:
  assumes "start_loop index cs index w = (err, started, w')"
  shows "index \<le> started \<and> started \<le> index + length cs \<and> (\<exists>v. starts (take (started - index) cs) w = Some v
    \<and> (if err = None then started = index + length cs \<and> w' = v
       else started < index + length cs \<and> (\<exists>e. comp_start (cs ! (started - index)) v = (Some e, w')
         \<and> err = Some (Errorf ''start dependency %s: %w'' [FStr (comp_name (cs ! (started - index)))] (Some e)))))"
  using assms
proof (induction cs arbitrary: index w)
  case (Cons c cs)
  obtain e w1 where start: "comp_start c w = (e, w1)" by fastforce
  show ?case
  proof (cases e)
    case (Some x)
    then show ?thesis using Cons.prems start by auto
  next
    case None
    with Cons.prems start have "start_loop (Suc index) cs (Suc index) w1 = (err, started, w')" by simp
    from Cons.IH [OF this] obtain v where rest: "Suc index \<le> started" "started \<le> Suc index + length cs"
      "starts (take (started - Suc index) cs) w1 = Some v"
      "if err = None then started = Suc index + length cs \<and> w' = v
       else started < Suc index + length cs \<and> (\<exists>e. comp_start (cs ! (started - Suc index)) v = (Some e, w')
         \<and> err = Some (Errorf ''start dependency %s: %w'' [FStr (comp_name (cs ! (started - Suc index)))] (Some e)))"
      by blast
    from rest(1) obtain k where k: "started - index = Suc k" "started - Suc index = k"
      by (metis Suc_diff_Suc Suc_le_lessD)
    show ?thesis
      using rest start None by (intro conjI exI [of _ v]) (auto simp: k split: if_splits)
  qed
qed auto

lemma close_loop_world:
  "n \<le> length cs \<Longrightarrow> snd (close_loop cs n errs w) = closes (take n cs) w"
proof (induction n arbitrary: errs w)
  case (Suc n)
  then show ?case
    by (auto simp: closes_def take_Suc_conv_app_nth split: prod.splits option.splits)
qed (simp add: closes_def)

lemma close_loop_errors:
  "n \<le> length cs \<Longrightarrow> (\<forall>e \<in> set (fst (close_loop cs n errs w)). e = None) \<longleftrightarrow>
    (\<forall>e \<in> set errs. e = None)
    \<and> (\<forall>i < n. fst (comp_close (cs ! i) (closes (drop (Suc i) (take n cs)) w)) = None)"
proof (induction n arbitrary: errs w)
  case (Suc n)
  obtain e w1 where close: "comp_close (cs ! n) w = (e, w1)" by fastforce
  have later: "closes (drop (Suc i) (take (Suc n) cs)) w = closes (drop (Suc i) (take n cs)) w1" if "i < n" for i
    using that Suc.prems close by (simp add: closes_def take_Suc_conv_app_nth)
  have last: "closes (drop (Suc n) (take (Suc n) cs)) w = w" by (simp add: closes_def)
  have "(\<forall>i < Suc n. fst (comp_close (cs ! i) (closes (drop (Suc i) (take (Suc n) cs)) w)) = None) \<longleftrightarrow>
      e = None \<and> (\<forall>i < n. fst (comp_close (cs ! i) (closes (drop (Suc i) (take n cs)) w1)) = None)"
    using later last close by (auto simp: less_Suc_eq)
  then show ?case
    using Suc.IH Suc.prems close by (cases e) auto
qed simp

section \<open>What the set relies on\<close>

locale managed_components =
  fixes comps :: "'w component_ops list"
    and up :: "nat \<Rightarrow> 'w \<Rightarrow> bool"
  assumes start_up: "i < length comps \<Longrightarrow> comp_start (comps ! i) w = (None, w') \<Longrightarrow>
      up i w' \<and> (\<forall>j. j \<noteq> i \<longrightarrow> up j w' = up j w)"
    and start_failed: "i < length comps \<Longrightarrow> comp_start (comps ! i) w = (Some err, w') \<Longrightarrow> up j w' = up j w"
    and close_down: "i < length comps \<Longrightarrow> comp_close (comps ! i) w = (cerr, w') \<Longrightarrow>
      \<not> up i w' \<and> (\<forall>j. j \<noteq> i \<longrightarrow> up j w' = up j w)"
    and check_up: "i < length comps \<Longrightarrow> comp_check (comps ! i) w = None \<Longrightarrow> up i w"
begin

text \<open>The components that are up are exactly the started prefix.\<close>

definition consistent :: "'w dependency_set \<Rightarrow> 'w \<Rightarrow> bool" where
  "consistent s w \<longleftrightarrow>
     ds_components s = comps \<and> ds_started s \<le> length comps \<and> (\<not> ds_active s \<longrightarrow> ds_started s = 0)
     \<and> (\<forall>i < length comps. up i w \<longleftrightarrow> i < ds_started s)"

lemma starts_up:
  "k \<le> length comps \<Longrightarrow> starts (take k comps) w = Some v \<Longrightarrow> up i v \<longleftrightarrow> i < k \<or> up i w"
proof (induction k arbitrary: v)
  case (Suc k)
  have app: "starts (xs @ [c]) w = Some v \<longleftrightarrow> (\<exists>u. starts xs w = Some u \<and> comp_start c u = (None, v))" for xs c
    by (induction xs arbitrary: w) (auto split: prod.splits option.splits)
  from Suc.prems obtain u where u: "starts (take k comps) w = Some u" "comp_start (comps ! k) u = (None, v)"
    by (auto simp: take_Suc_conv_app_nth app)
  from start_up [OF _ u(2)] Suc.IH [OF _ u(1)] Suc.prems(1) show ?case
    by (cases "i = k") auto
qed simp

lemma closes_down:
  "k \<le> length comps \<Longrightarrow> up i (closes (take k comps) w) \<longleftrightarrow> \<not> i < k \<and> up i w"
proof (induction k arbitrary: w)
  case (Suc k)
  obtain e w1 where close: "comp_close (comps ! k) w = (e, w1)" by fastforce
  then have "closes (take (Suc k) comps) w = closes (take k comps) w1"
    using Suc.prems by (simp add: closes_def take_Suc_conv_app_nth)
  with close_down [OF _ close] Suc show ?case by (cases "i = k") auto
qed (simp add: closes_def)

lemma set_Start_consistent:
  assumes "consistent s w" and "set_Start s w = (err, s', w')"
  shows "consistent s' w'" and "err = None \<Longrightarrow> \<forall>i < length comps. up i w'"
proof -
  have "consistent s' w' \<and> (err = None \<longrightarrow> (\<forall>i < length comps. up i w'))"
  proof (cases "ds_active s")
    case True
    then show ?thesis using assms by (auto simp: set_Start_def)
  next
    case False
    then have s: "ds_components s = comps" "ds_started s = 0" "\<forall>i < length comps. \<not> up i w"
      using assms(1) by (auto simp: consistent_def)
    from assms(2) False s(1,2) obtain started where loop: "start_loop 0 comps 0 w = (err, started, w')"
      and s': "s' = s\<lparr>ds_active := True, ds_started := started\<rparr>"
      by (auto simp: set_Start_def split: prod.splits)
    from start_loop_cases [OF loop] obtain v where v: "started \<le> length comps" "starts (take started comps) w = Some v"
      "if err = None then started = length comps \<and> w' = v
       else started < length comps \<and> (\<exists>e. comp_start (comps ! started) v = (Some e, w'))"
      by (auto split: if_splits)
    have up_v: "up i v \<longleftrightarrow> i < started" if "i < length comps" for i
      using starts_up [OF v(1,2)] s(3) that by auto
    have "up i w' = up i v" for i
      using v(3) start_failed by (auto split: if_splits)
    with up_v v(1,3) s(1) s' show ?thesis by (auto simp: consistent_def)
  qed
  then show "consistent s' w'" and "err = None \<Longrightarrow> \<forall>i < length comps. up i w'" by blast+
qed

lemma set_Close_consistent:
  assumes "consistent s w" and "set_Close s w = (err, s', w')"
  shows "consistent s' w' \<and> (\<forall>i < length comps. \<not> up i w')"
proof -
  have s: "ds_components s = comps" "ds_started s \<le> length comps"
    "\<And>i. i < length comps \<Longrightarrow> up i w \<longleftrightarrow> i < ds_started s"
    using assms(1) by (auto simp: consistent_def)
  have w': "w' = closes (take (ds_started s) comps) w" and s': "s' = s\<lparr>ds_started := 0, ds_active := False\<rparr>"
    using assms(2) close_loop_world [OF s(2), of "[]" w] by (auto simp: set_Close_def s(1) split: prod.splits)
  have "\<not> up i w'" if "i < length comps" for i
    unfolding w' using closes_down [OF s(2)] s(3) [OF that] by blast
  then show ?thesis using s(1) s' by (auto simp: consistent_def)
qed

lemma ready_all_up:
  assumes "ds_components s = comps" and "set order = {..<length comps}" and "report_ready (Readiness order s w)"
  shows "\<forall>i < length comps. up i w"
proof -
  have "\<forall>c \<in> set comps. comp_check c w = None"
    using assms by (auto simp: Readiness_def Let_def run_checks_all list_all_iff split: if_splits)
  then show ?thesis using check_up by simp
qed

end

section \<open>Properties\<close>

text \<open>
  Ordered startup: starting an idle set starts the components in declaration order up to the
  first failure. The set then counts exactly the components that started; success means all of
  them, and a failure names the first component that failed and carries its error.
\<close>

theorem set_Start_ordered:
  assumes "\<not> ds_active s" and "ds_started s = 0" and "set_Start s w = (err, s', w')"
  shows "ds_active s' \<and> (\<exists>v. starts (take (ds_started s') (ds_components s)) w = Some v
    \<and> (if err = None then ds_started s' = length (ds_components s) \<and> w' = v
       else ds_started s' < length (ds_components s)
         \<and> (\<exists>e. comp_start (ds_components s ! ds_started s') v = (Some e, w')
              \<and> err = Some (Errorf ''start dependency %s: %w'' [FStr (comp_name (ds_components s ! ds_started s'))] (Some e)))))"
proof -
  from assms obtain started where loop: "start_loop 0 (ds_components s) 0 w = (err, started, w')"
    and "s' = s\<lparr>ds_active := True, ds_started := started\<rparr>"
    by (auto simp: set_Start_def split: prod.splits)
  with start_loop_cases [OF loop] show ?thesis by (auto split: if_splits)
qed

text \<open>A component for the witnesses: it records its calls in the state.\<close>

definition logging_component :: "string \<Rightarrow> go_error option \<Rightarrow> go_error option \<Rightarrow> string list component_ops" where
  "logging_component name start_err close_err =
     \<lparr>comp_name = name, comp_start = (\<lambda>w. (start_err, w @ [''start '' @ name])), comp_check = (\<lambda>w. None),
      comp_close = (\<lambda>w. (close_err, w @ [''close '' @ name]))\<rparr>"

definition two_components :: "string list dependency_set" where
  "two_components = \<lparr>ds_components = [logging_component ''a'' None None, logging_component ''b'' (Some (External ''down'')) None],
     ds_timeout = Second, ds_active = False, ds_started = 0\<rparr>"

theorem set_Start_ordered_witness:
  "\<exists>s'. set_Start two_components [] =
      (Some (Errorf ''start dependency %s: %w'' [FStr ''b''] (Some (External ''down''))), s', [''start a'', ''start b''])
    \<and> ds_active s' \<and> ds_started s' = 1
    \<and> (\<exists>v. starts (take 1 (ds_components two_components)) [] = Some v)"
proof -
  let ?s' = "two_components\<lparr>ds_active := True, ds_started := 1\<rparr>"
  have run: "set_Start two_components [] =
      (Some (Errorf ''start dependency %s: %w'' [FStr ''b''] (Some (External ''down''))), ?s', [''start a'', ''start b''])"
    by (simp add: set_Start_def two_components_def logging_component_def)
  have "\<not> ds_active two_components" "ds_started two_components = 0" by (simp_all add: two_components_def)
  from set_Start_ordered [OF this run] run show ?thesis
    by (intro exI [of _ ?s']) (auto simp: two_components_def)
qed

text \<open>
  C32. Reverse shutdown: closing closes every started component exactly once, in reverse order of
  starting, and goes on after errors; the set is then idle and can be started again. It reports nil
  exactly when no component reported an error.
\<close>

theorem set_Close_reverse:
  assumes "ds_started s \<le> length (ds_components s)" and "set_Close s w = (err, s', w')"
  shows "w' = fold (\<lambda>c w. snd (comp_close c w)) (rev (take (ds_started s) (ds_components s))) w
    \<and> s' = s\<lparr>ds_started := 0, ds_active := False\<rparr>
    \<and> (err = None \<longleftrightarrow> (\<forall>i < ds_started s. fst (comp_close (ds_components s ! i)
          (fold (\<lambda>c w. snd (comp_close c w)) (rev (drop (Suc i) (take (ds_started s) (ds_components s)))) w)) = None))"
  using assms(2) close_loop_world [OF assms(1), of "[]" w] close_loop_errors [OF assms(1), of "[]" w]
  by (auto simp: set_Close_def errors_Join_None_iff closes_def split: prod.splits)

theorem set_Close_reverse_witness:
  "\<exists>s'. set_Close (two_components\<lparr>ds_active := True, ds_started := 2\<rparr>) [] = (None, s', [''close b'', ''close a''])
    \<and> ds_started s' = 0 \<and> \<not> ds_active s'"
proof -
  have run: "set_Close (two_components\<lparr>ds_active := True, ds_started := 2\<rparr>) [] =
      (None, two_components\<lparr>ds_active := False, ds_started := 0\<rparr>, [''close b'', ''close a''])"
    by (simp add: set_Close_def two_components_def logging_component_def numeral_2_eq_2 errors_Join_def map_filter_simps)
  show ?thesis
    using set_Close_reverse [OF _ run] run by (simp add: two_components_def)
qed

text \<open>
  C33. Readiness does not depend on the order in which the concurrent checks finish: the report
  lists every component by name with the result of its own check, and is ready exactly when the
  set is active, everything is started and every check succeeds.
\<close>

theorem Readiness_exact:
  assumes "set order = {..<length (ds_components s)}"
  shows "(report_ready (Readiness order s w) \<longleftrightarrow>
      ds_active s \<and> ds_started s = length (ds_components s) \<and> (\<forall>c \<in> set (ds_components s). comp_check c w = None))
    \<and> map check_name (report_checks (Readiness order s w)) = map comp_name (ds_components s)
    \<and> (ds_active s \<and> ds_started s = length (ds_components s) \<longrightarrow>
         map check_ready (report_checks (Readiness order s w)) = map (\<lambda>c. comp_check c w = None) (ds_components s))"
proof (cases "ds_active s \<and> ds_started s = length (ds_components s)")
  case True
  then show ?thesis
    using assms by (simp add: Readiness_def run_checks_all list_all_iff comp_def Let_def)
next
  case False
  then have "map check_name (report_checks (Readiness order s w)) = map comp_name (ds_components s)"
    by (auto simp: Readiness_def Let_def intro: nth_equalityI)
  with False show ?thesis by (auto simp: Readiness_def Let_def)
qed

theorem Readiness_exact_witness:
  "report_ready (Readiness [1, 0] (two_components\<lparr>ds_active := True, ds_started := 2\<rparr>) []) = True"
proof -
  have "set [1, 0] = {..<length (ds_components (two_components\<lparr>ds_active := True, ds_started := 2\<rparr>))}"
    by (auto simp: two_components_def)
  from Readiness_exact [OF this, of "[]"] show ?thesis
    by (simp add: two_components_def logging_component_def)
qed

end
