(* ===== verification/Runtime.thy ===== *)
theory Runtime
  imports Dependency
begin

text \<open>
  Package \<open>appruntime\<close> (run.go): starting the dependencies, serving, and shutting down.

  The interface \<open>Dependencies\<close> is a pair of functions on a state \<open>'w\<close>. What the process meets
  (whether it can listen, what ends the \<open>select\<close>, how the HTTP server shuts down) is the record
  \<open>run_env\<close>; the result lists the calls made, in order.

  The locale \<open>runtime_dependencies\<close> is the contract of that interface; its client lemma is that
  \<open>Run\<close> releases everything on every path. Every dependency set whose components keep the
  contract \<open>managed_components\<close> satisfies it.
\<close>

datatype stop_cause = ShutdownRequested | ServeReturned "go_error option"

record run_env =
  re_listen :: "go_error option"
  re_stop :: stop_cause
  re_shutdown :: "go_error option"

datatype run_call = DepsStart | Listen string | Serve | Shutdown | DepsClose

definition closeAfterStartupFailure :: "('w \<Rightarrow> go_error option \<times> 'w) \<Rightarrow> go_error \<Rightarrow> 'w \<Rightarrow> go_error option \<times> 'w" where
  "closeAfterStartupFailure Close startupError w =
     (case Close w of (err, w') \<Rightarrow> (errors_Join [Some startupError, err], w'))"

definition serve_error :: "stop_cause \<Rightarrow> go_error option" where
  "serve_error stop =
     (case stop of
        ShutdownRequested \<Rightarrow> None
      | ServeReturned None \<Rightarrow> None
      | ServeReturned (Some err) \<Rightarrow>
          if \<not> errors_Is err ErrServerClosed then Some (wrapf ''serve HTTP: %w'' err) else None)"

definition Run :: "('w \<Rightarrow> go_error option \<times> 'w) \<Rightarrow> ('w \<Rightarrow> go_error option \<times> 'w) \<Rightarrow> string \<Rightarrow> run_env \<Rightarrow> 'w
    \<Rightarrow> go_error option \<times> 'w \<times> run_call list" where
  "Run Start Close addr env w =
     (case Start w of
        (Some err, w1) \<Rightarrow>
          (case closeAfterStartupFailure Close err w1 of (res, w2) \<Rightarrow> (res, w2, [DepsStart, DepsClose]))
      | (None, w1) \<Rightarrow>
     (case re_listen env of
        Some err \<Rightarrow>
          (case closeAfterStartupFailure Close (Errorf ''listen on %s: %w'' [FStr addr] (Some err)) w1 of
             (res, w2) \<Rightarrow> (res, w2, [DepsStart, Listen addr, DepsClose]))
      | None \<Rightarrow>
          let runError = serve_error (re_stop env);
              serverError = map_option (wrapf ''shutdown HTTP server: %w'') (re_shutdown env)
          in case Close w1 of (dependencyError, w2) \<Rightarrow>
               (errors_Join [runError, serverError, dependencyError], w2,
                [DepsStart, Listen addr, Serve, Shutdown, DepsClose])))"

section \<open>The contract of the dependencies\<close>

locale runtime_dependencies =
  fixes Start :: "'w \<Rightarrow> go_error option \<times> 'w"
    and Close :: "'w \<Rightarrow> go_error option \<times> 'w"
    and valid :: "'w \<Rightarrow> bool"
    and released :: "'w \<Rightarrow> bool"
  assumes start_valid: "valid w \<Longrightarrow> valid (snd (Start w))"
    and close_releases: "valid w \<Longrightarrow> released (snd (Close w))"
begin

lemma Run_releases:
  assumes "valid w" and "Run Start Close addr env w = (err, w', calls)"
  shows "released w'"
proof -
  obtain e w1 where start: "Start w = (e, w1)" by fastforce
  then have "released (snd (Close w1))" using start_valid [OF assms(1)] close_releases by simp
  with assms(2) start show ?thesis
    by (auto simp: Run_def closeAfterStartupFailure_def Let_def split: option.splits prod.splits)
qed

end

definition deps_Start :: "'w dependency_set \<times> 'w \<Rightarrow> go_error option \<times> 'w dependency_set \<times> 'w" where
  "deps_Start sw = set_Start (fst sw) (snd sw)"

definition deps_Close :: "'w dependency_set \<times> 'w \<Rightarrow> go_error option \<times> 'w dependency_set \<times> 'w" where
  "deps_Close sw = set_Close (fst sw) (snd sw)"

sublocale managed_components \<subseteq> runtime: runtime_dependencies deps_Start deps_Close
  "\<lambda>sw. consistent (fst sw) (snd sw)" "\<lambda>sw. \<forall>i < length comps. \<not> up i (snd sw)"
proof unfold_locales
  fix sw :: "'w dependency_set \<times> 'w"
  assume ok: "consistent (fst sw) (snd sw)"
  obtain err s w where "deps_Start sw = (err, s, w)" by (metis prod.collapse)
  with set_Start_consistent(1) [OF ok] show "consistent (fst (snd (deps_Start sw))) (snd (snd (deps_Start sw)))"
    by (simp add: deps_Start_def)
  obtain err' s' w' where "deps_Close sw = (err', s', w')" by (metis prod.collapse)
  with set_Close_consistent [OF ok] show "\<forall>i < length comps. \<not> up i (snd (snd (deps_Close sw)))"
    by (simp add: deps_Close_def)
qed

section \<open>Properties\<close>



text \<open>
  No failure is swallowed: \<open>Run\<close> returns nil exactly when the dependencies started, the process
  could listen, the server ended by a shutdown request or by being closed, and both the HTTP server
  and the dependencies shut down without an error.
\<close>

theorem Run_nil_iff:
  "fst (Run Start Close addr env w) = None \<longleftrightarrow>
    fst (Start w) = None \<and> re_listen env = None
    \<and> (\<forall>err. re_stop env = ServeReturned (Some err) \<longrightarrow> errors_Is err ErrServerClosed)
    \<and> re_shutdown env = None \<and> fst (Close (snd (Start w))) = None"
proof -
  obtain serr w1 where start: "Start w = (serr, w1)" by fastforce
  obtain cerr w2 where close: "Close w1 = (cerr, w2)" by fastforce
  have "fst (Run Start Close addr env w) =
      (case serr of Some err \<Rightarrow> errors_Join [Some err, cerr]
       | None \<Rightarrow> (case re_listen env of
            Some err \<Rightarrow> errors_Join [Some (Errorf ''listen on %s: %w'' [FStr addr] (Some err)), cerr]
          | None \<Rightarrow> errors_Join [serve_error (re_stop env),
              map_option (wrapf ''shutdown HTTP server: %w'') (re_shutdown env), cerr]))"
    by (simp add: Run_def start close closeAfterStartupFailure_def Let_def split: option.splits)
  moreover have "serve_error stop = None \<longleftrightarrow> (\<forall>err. stop = ServeReturned (Some err) \<longrightarrow> errors_Is err ErrServerClosed)" for stop
    by (auto simp: serve_error_def split: stop_cause.splits option.splits)
  ultimately show ?thesis
    by (simp add: start close errors_Join_None_iff split: option.split)
qed

theorem Run_nil_iff_witness:
  "fst (Run (\<lambda>n. (None, n + 1)) (\<lambda>n. (None, n)) '':8080''
     \<lparr>re_listen = None, re_stop = ServeReturned (Some (Sentinel ErrServerClosed)), re_shutdown = None\<rparr> (0 :: nat)) = None"
  using Run_nil_iff [of "\<lambda>n. (None, n + 1)" "\<lambda>n. (None, n)" "'':8080''"
      "\<lparr>re_listen = None, re_stop = ServeReturned (Some (Sentinel ErrServerClosed)), re_shutdown = None\<rparr>" "0 :: nat"]
  by simp

end
