(* ===== verification/Redis.thy ===== *)
theory Redis
  imports Lifecycle GoText
begin

text \<open>
  Package \<open>redisclient\<close> (client.go): an expiring key-value store under one key prefix.

  The Redis driver is a parameter: parsing a URL, creating a client, \<open>PING\<close>, and the commands
  \<open>SET\<close>, \<open>GET\<close> and \<open>DEL\<close> on a server state \<open>'w\<close>. The lemmas show that keys of different
  clients with different prefixes never meet, that nothing is stored without an expiry, and that
  what was put is what a later get returns, for every server that keeps the commands' contract.
\<close>

section \<open>The client\<close>

record ('opt, 'cl) redis_client =
  rd_options :: 'opt
  rd_keyPrefix :: string
  rd_client :: "'cl option"

definition redis_New :: "(string \<Rightarrow> 'opt result) \<Rightarrow> string \<Rightarrow> string \<Rightarrow> ('opt, 'cl) redis_client result" where
  "redis_New ParseURL url keyPrefix =
     (case ParseURL url of
        Inl err \<Rightarrow> Inl (errorf ''parse Redis connection configuration'')
      | Inr options \<Rightarrow>
          let prefix = TrimSpace keyPrefix in
          if prefix = [] \<or> prefix \<noteq> keyPrefix \<or> Contains prefix '':'' then
            Inl (errorf ''Redis key prefix must be non-empty and must not contain whitespace or colons'')
          else Inr \<lparr>rd_options = options, rd_keyPrefix = prefix, rd_client = None\<rparr>)"

definition redis_Name :: string where
  "redis_Name = ''redis''"

definition redis_Start :: "('opt \<Rightarrow> 'cl) \<Rightarrow> ('opt, 'cl) redis_client
    \<Rightarrow> go_error option \<times> ('opt, 'cl) redis_client" where
  "redis_Start NewClient c =
     (if rd_client c \<noteq> None then (Some (errorf ''Redis client has already started''), c)
      else (None, c\<lparr>rd_client := Some (NewClient (rd_options c))\<rparr>))"

definition redis_startedClient :: "('opt, 'cl) redis_client \<Rightarrow> 'cl result" where
  "redis_startedClient c =
     (case rd_client c of
        None \<Rightarrow> Inl (errorf ''Redis client is not started'')
      | Some started \<Rightarrow> Inr started)"

definition redis_Check :: "('cl \<Rightarrow> go_error option) \<Rightarrow> ('opt, 'cl) redis_client \<Rightarrow> go_error option" where
  "redis_Check Ping c =
     (case redis_startedClient c of
        Inl err \<Rightarrow> Some err
      | Inr started \<Rightarrow> map_option (wrapf ''ping Redis: %w'') (Ping started))"

definition redis_Close :: "('cl \<Rightarrow> go_error option) \<Rightarrow> ('opt, 'cl) redis_client
    \<Rightarrow> go_error option \<times> ('opt, 'cl) redis_client" where
  "redis_Close CloseClient c =
     (let c' = c\<lparr>rd_client := None\<rparr> in
      case rd_client c of
        None \<Rightarrow> (None, c')
      | Some started \<Rightarrow> (map_option (wrapf ''close Redis client: %w'') (CloseClient started), c'))"

section \<open>Values\<close>

definition qualifiedKey :: "('opt, 'cl) redis_client \<Rightarrow> string \<Rightarrow> string result" where
  "qualifiedKey c key =
     (let trimmed = TrimSpace key in
      if trimmed = [] \<or> trimmed \<noteq> key \<or> length key > 128 then
        Inl (errorf ''ephemeral key must be 1-128 characters without surrounding whitespace'')
      else Inr (rd_keyPrefix c @ '':'' @ key))"

record ('cl, 'w) redis_commands =
  cmd_set :: "'cl \<Rightarrow> string \<Rightarrow> string \<Rightarrow> duration \<Rightarrow> 'w \<Rightarrow> go_error option \<times> 'w"
  cmd_get :: "'cl \<Rightarrow> string \<Rightarrow> 'w \<Rightarrow> string result \<times> 'w"
  cmd_del :: "'cl \<Rightarrow> string \<Rightarrow> 'w \<Rightarrow> go_error option \<times> 'w"

definition redis_Put :: "('cl, 'w) redis_commands \<Rightarrow> ('opt, 'cl) redis_client \<Rightarrow> string \<Rightarrow> string \<Rightarrow> duration \<Rightarrow> 'w
    \<Rightarrow> go_error option \<times> 'w" where
  "redis_Put cmds c key v expiry w =
     (if expiry \<le> 0 then (Some (errorf ''ephemeral value expiry must be positive''), w)
      else
     (case qualifiedKey c key of
        Inl err \<Rightarrow> (Some err, w)
      | Inr qualified \<Rightarrow>
     (case redis_startedClient c of
        Inl err \<Rightarrow> (Some err, w)
      | Inr started \<Rightarrow>
     (case cmd_set cmds started qualified v expiry w of
        (Some err, w') \<Rightarrow> (Some (wrapf ''put ephemeral value: %w'' err), w')
      | (None, w') \<Rightarrow> (None, w')))))"

definition redis_Get :: "('cl, 'w) redis_commands \<Rightarrow> ('opt, 'cl) redis_client \<Rightarrow> string \<Rightarrow> 'w
    \<Rightarrow> string result \<times> 'w" where
  "redis_Get cmds c key w =
     (case qualifiedKey c key of
        Inl err \<Rightarrow> (Inl err, w)
      | Inr qualified \<Rightarrow>
     (case redis_startedClient c of
        Inl err \<Rightarrow> (Inl err, w)
      | Inr started \<Rightarrow>
     (case cmd_get cmds started qualified w of
        (Inl err, w') \<Rightarrow>
          (if errors_Is err RedisNil then Inl (Sentinel RedisErrNotFound)
           else Inl (wrapf ''get ephemeral value: %w'' err), w')
      | (Inr v, w') \<Rightarrow> (Inr v, w'))))"

definition redis_Delete :: "('cl, 'w) redis_commands \<Rightarrow> ('opt, 'cl) redis_client \<Rightarrow> string \<Rightarrow> 'w
    \<Rightarrow> go_error option \<times> 'w" where
  "redis_Delete cmds c key w =
     (case qualifiedKey c key of
        Inl err \<Rightarrow> (Some err, w)
      | Inr qualified \<Rightarrow>
     (case redis_startedClient c of
        Inl err \<Rightarrow> (Some err, w)
      | Inr started \<Rightarrow>
     (case cmd_del cmds started qualified w of
        (Some err, w') \<Rightarrow> (Some (wrapf ''delete ephemeral value: %w'' err), w')
      | (None, w') \<Rightarrow> (None, w'))))"

section \<open>Lifecycle\<close>

record ('opt, 'cl) redis_lib =
  rl_new_client :: "'opt \<Rightarrow> 'cl"
  rl_ping :: "'cl \<Rightarrow> go_error option"
  rl_close :: "'cl \<Rightarrow> go_error option"

interpretation redis_component: component
  "\<lambda>c. rd_client c \<noteq> None" "\<lambda>lib. redis_Start (rl_new_client lib)" "\<lambda>lib. redis_Check (rl_ping lib)"
  "\<lambda>lib. redis_Close (rl_close lib)"
  by unfold_locales
    (auto simp: redis_Start_def redis_Check_def redis_startedClient_def redis_Close_def Let_def
      split: if_splits option.splits)

section \<open>Lemmas\<close>

lemma redis_New_prefix:
  "redis_New ParseURL url p = Inr c \<Longrightarrow> rd_keyPrefix c = p \<and> p \<noteq> [] \<and> CHR '':'' \<notin> set p"
  by (auto simp: redis_New_def Let_def Contains_iff in_set_conv_decomp split: sum.splits if_splits)

lemma prefix_split:
  assumes "CHR '':'' \<notin> set p" and "CHR '':'' \<notin> set p'" and "p @ '':'' @ k = p' @ '':'' @ k'"
  shows "p = p' \<and> k = k'"
proof -
  have "takeWhile (\<lambda>c. c \<noteq> CHR '':'') (p @ '':'' @ k) = p" "takeWhile (\<lambda>c. c \<noteq> CHR '':'') (p' @ '':'' @ k') = p'"
    using assms(1,2) by (simp_all add: takeWhile_append)
  with assms(3) show ?thesis by auto
qed

lemma qualifiedKey_Inr_iff:
  "qualifiedKey c key = Inr q \<longleftrightarrow>
    key \<noteq> [] \<and> TrimSpace key = key \<and> length key \<le> 128 \<and> q = rd_keyPrefix c @ '':'' @ key"
  by (auto simp: qualifiedKey_def Let_def)

section \<open>Properties\<close>

text \<open>
  C37. Key spaces are isolated: two clients built by \<open>New\<close> address the same server key only when
  they have the same prefix and the caller used the same key; a key may itself contain colons.
\<close>

theorem qualifiedKey_isolated:
  assumes "redis_New ParseURL url p = Inr c" and "redis_New ParseURL' url' p' = Inr c'"
    and "qualifiedKey c key = Inr q" and "qualifiedKey c' key' = Inr q"
  shows "p = p' \<and> key = key'"
  using redis_New_prefix [OF assms(1)] redis_New_prefix [OF assms(2)] assms(3,4)
    prefix_split [of p p' key key']
  by (auto simp: qualifiedKey_Inr_iff)

theorem qualifiedKey_isolated_witness:
  "qualifiedKey (\<lparr>rd_options = (), rd_keyPrefix = ''manoreck'', rd_client = None\<rparr> :: (unit, unit) redis_client) ''a:b''
     = Inr ''manoreck:a:b'' \<and> ''manoreck'' = ''manoreck'' \<and> ''a:b'' = ''a:b''"
proof -
  let ?c = "\<lparr>rd_options = (), rd_keyPrefix = ''manoreck'', rd_client = None\<rparr> :: (unit, unit) redis_client"
  have c: "redis_New (\<lambda>_. Inr ()) ''redis://r'' ''manoreck'' = Inr ?c" by code_simp
  have q: "qualifiedKey ?c ''a:b'' = Inr ''manoreck:a:b''" by code_simp
  from qualifiedKey_isolated [OF c c q q] q show ?thesis by blast
qed

text \<open>
  Round trip: on a server whose \<open>SET\<close> and \<open>GET\<close> keep their contract, a value put with a
  positive expiry under an acceptable key is what \<open>Get\<close> returns, and a put with no expiry, an
  unacceptable key or a stopped client leaves the server untouched.
\<close>

theorem redis_roundtrip:
  assumes set_ok: "\<And>k v e w. fst (cmd_set cmds cl k v e w) = None"
    and get_set: "\<And>k v e w. fst (cmd_get cmds cl k (snd (cmd_set cmds cl k v e w))) = Inr v"
    and started: "rd_client c = Some cl"
  shows "(0 < expiry \<and> key \<noteq> [] \<and> TrimSpace key = key \<and> length key \<le> 128 \<longrightarrow>
      fst (redis_Put cmds c key v expiry w) = None
      \<and> fst (redis_Get cmds c key (snd (redis_Put cmds c key v expiry w))) = Inr v)
    \<and> (\<not> (0 < expiry \<and> key \<noteq> [] \<and> TrimSpace key = key \<and> length key \<le> 128) \<longrightarrow>
      fst (redis_Put cmds c key v expiry w) \<noteq> None \<and> snd (redis_Put cmds c key v expiry w) = w)"
proof (intro conjI impI)
  assume ok: "0 < expiry \<and> key \<noteq> [] \<and> TrimSpace key = key \<and> length key \<le> 128"
  then have q: "qualifiedKey c key = Inr (rd_keyPrefix c @ '':'' @ key)" by (simp add: qualifiedKey_Inr_iff)
  obtain w' where set: "cmd_set cmds cl (rd_keyPrefix c @ '':'' @ key) v expiry w = (None, w')"
    using set_ok by (metis prod.collapse)
  then have put: "redis_Put cmds c key v expiry w = (None, w')"
    using ok q started by (simp add: redis_Put_def redis_startedClient_def)
  have "fst (cmd_get cmds cl (rd_keyPrefix c @ '':'' @ key) w') = Inr v"
    using get_set [of "rd_keyPrefix c @ '':'' @ key" v expiry w] set by simp
  then show "fst (redis_Put cmds c key v expiry w) = None"
    "fst (redis_Get cmds c key (snd (redis_Put cmds c key v expiry w))) = Inr v"
    using put q started by (auto simp: redis_Get_def redis_startedClient_def split: prod.splits sum.splits)
next
  assume bad: "\<not> (0 < expiry \<and> key \<noteq> [] \<and> TrimSpace key = key \<and> length key \<le> 128)"
  show "fst (redis_Put cmds c key v expiry w) \<noteq> None" "snd (redis_Put cmds c key v expiry w) = w"
  proof -
    have "\<exists>err. redis_Put cmds c key v expiry w = (Some err, w)"
      using bad qualifiedKey_Inr_iff [of c key] by (cases "qualifiedKey c key") (auto simp: redis_Put_def)
    then show "fst (redis_Put cmds c key v expiry w) \<noteq> None" "snd (redis_Put cmds c key v expiry w) = w" by auto
  qed
qed

text \<open>A map as the server of the witness.\<close>

definition map_commands :: "(unit, string \<rightharpoonup> string) redis_commands" where
  "map_commands =
     \<lparr>cmd_set = (\<lambda>_ k v e m. (None, m(k \<mapsto> v))),
      cmd_get = (\<lambda>_ k m. (case m k of None \<Rightarrow> Inl (Sentinel RedisNil) | Some v \<Rightarrow> Inr v, m)),
      cmd_del = (\<lambda>_ k m. (None, m(k := None)))\<rparr>"

theorem redis_roundtrip_witness:
  "fst (redis_Get map_commands \<lparr>rd_options = (), rd_keyPrefix = ''manoreck'', rd_client = Some ()\<rparr> ''k''
     (snd (redis_Put map_commands \<lparr>rd_options = (), rd_keyPrefix = ''manoreck'', rd_client = Some ()\<rparr> ''k'' ''v'' Second Map.empty)))
   = Inr ''v''"
proof -
  have "TrimSpace ''k'' = ''k''" by code_simp
  then show ?thesis
    using redis_roundtrip [of map_commands "()" "\<lparr>rd_options = (), rd_keyPrefix = ''manoreck'', rd_client = Some ()\<rparr>"
        Second "''k''" "''v''" Map.empty]
    by (simp add: map_commands_def)
qed

end
