(* ===== verification/ObjectStorage.thy ===== *)
theory ObjectStorage
  imports Lifecycle GoNet Identifier
begin

text \<open>
  Package \<open>objectstorage\<close> (store.go): opaque objects in one bucket of an S3-compatible service.

  The MinIO client and the service are parameters (record \<open>s3_lib\<close> over a service state \<open>'w\<close>), as
  are \<open>url.Parse\<close>, the strict bucket-name check of \<open>s3utils\<close> and the error code that
  \<open>minio.ToErrorResponse\<close> finds. A body is the bytes its reader delivers; \<open>None\<close> is the nil reader.
\<close>

section \<open>Data\<close>

record store_config =
  st_endpoint_url :: string
  st_bucket :: string
  st_access_key :: string
  st_secret_key :: string

record object =
  obj_body :: string
  obj_size :: int
  obj_content_type :: string
  obj_etag :: string

record 'cl object_store =
  st_configuration :: store_config
  st_endpoint :: string
  st_secure :: bool
  st_client :: "'cl option"

record object_info =
  info_size :: int
  info_content_type :: string
  info_etag :: string

record ('cl, 'w) s3_lib =
  s3_new :: "string \<Rightarrow> string \<Rightarrow> string \<Rightarrow> bool \<Rightarrow> 'cl result"
  s3_bucket_exists :: "'cl \<Rightarrow> string \<Rightarrow> 'w \<Rightarrow> bool result"
  s3_make_bucket :: "'cl \<Rightarrow> string \<Rightarrow> 'w \<Rightarrow> go_error option \<times> 'w"
  s3_put :: "'cl \<Rightarrow> string \<Rightarrow> string \<Rightarrow> string \<Rightarrow> int \<Rightarrow> string \<Rightarrow> 'w \<Rightarrow> go_error option \<times> 'w"
  s3_stat :: "'cl \<Rightarrow> string \<Rightarrow> string \<Rightarrow> 'w \<Rightarrow> object_info result"
  s3_get :: "'cl \<Rightarrow> string \<Rightarrow> string \<Rightarrow> 'w \<Rightarrow> string result"
  s3_remove :: "'cl \<Rightarrow> string \<Rightarrow> string \<Rightarrow> 'w \<Rightarrow> go_error option \<times> 'w"
  s3_error_code :: "go_error \<Rightarrow> string"

section \<open>Lifecycle operations\<close>

definition store_New :: "url_parser \<Rightarrow> (string \<Rightarrow> go_error option) \<Rightarrow> store_config \<Rightarrow> 'cl object_store result" where
  "store_New Parse CheckBucket c =
     (case Parse (st_endpoint_url c) of
        Inl err \<Rightarrow> Inl (errorf ''object-storage endpoint must be an HTTP URL'')
      | Inr u \<Rightarrow>
          if (url_scheme u \<noteq> ''http'' \<and> url_scheme u \<noteq> ''https'') \<or> url_host u = [] then
            Inl (errorf ''object-storage endpoint must be an HTTP URL'')
          else if url_user u \<noteq> None \<or> (url_path u \<noteq> [] \<and> url_path u \<noteq> ''/'') \<or> url_raw_query u \<noteq> []
                  \<or> url_fragment u \<noteq> [] then
            Inl (errorf ''object-storage endpoint must not contain credentials, a path, query, or fragment'')
          else
          (case CheckBucket (st_bucket c) of
             Some err \<Rightarrow> Inl (wrapf ''object-storage bucket is invalid: %w'' err)
           | None \<Rightarrow>
               if st_access_key c = [] \<or> st_secret_key c = [] then
                 Inl (errorf ''object-storage credentials are required'')
               else Inr \<lparr>st_configuration = c, st_endpoint = url_host u,
                         st_secure = (url_scheme u = ''https''), st_client = None\<rparr>))"

definition store_Name :: string where
  "store_Name = ''object-storage''"

definition store_Start :: "('cl, 'w) s3_lib \<Rightarrow> 'cl object_store \<Rightarrow> 'w \<Rightarrow> go_error option \<times> 'cl object_store \<times> 'w" where
  "store_Start lib s w =
     (if st_client s \<noteq> None then (Some (errorf ''object storage has already started''), s, w)
      else
     (case s3_new lib (st_endpoint s) (st_access_key (st_configuration s)) (st_secret_key (st_configuration s)) (st_secure s) of
        Inl err \<Rightarrow> (Some (wrapf ''construct object-storage client: %w'' err), s, w)
      | Inr client \<Rightarrow>
     (case s3_bucket_exists lib client (st_bucket (st_configuration s)) w of
        Inl err \<Rightarrow> (Some (wrapf ''inspect object-storage bucket: %w'' err), s, w)
      | Inr bucket_found \<Rightarrow>
          (if \<not> bucket_found then
             (case s3_make_bucket lib client (st_bucket (st_configuration s)) w of
                (Some err, w') \<Rightarrow> (Some (wrapf ''create object-storage bucket: %w'' err), s, w')
              | (None, w') \<Rightarrow> (None, s\<lparr>st_client := Some client\<rparr>, w'))
           else (None, s\<lparr>st_client := Some client\<rparr>, w)))))"

definition store_startedClient :: "'cl object_store \<Rightarrow> 'cl result" where
  "store_startedClient s =
     (case st_client s of
        None \<Rightarrow> Inl (errorf ''object storage is not started'')
      | Some client \<Rightarrow> Inr client)"

definition store_Check :: "('cl, 'w) s3_lib \<Rightarrow> 'cl object_store \<Rightarrow> 'w \<Rightarrow> go_error option" where
  "store_Check lib s w =
     (case store_startedClient s of
        Inl err \<Rightarrow> Some err
      | Inr client \<Rightarrow>
          (case s3_bucket_exists lib client (st_bucket (st_configuration s)) w of
             Inl err \<Rightarrow> Some (wrapf ''inspect object-storage bucket: %w'' err)
           | Inr bucket_found \<Rightarrow>
               if \<not> bucket_found then Some (errorf ''object-storage bucket is missing'') else None))"

definition store_Close :: "'cl object_store \<Rightarrow> go_error option \<times> 'cl object_store" where
  "store_Close s = (None, s\<lparr>st_client := None\<rparr>)"

section \<open>Objects\<close>

definition NewKey :: "time \<Rightarrow> reader \<Rightarrow> string result \<times> reader" where
  "NewKey now randomness =
     (case newUUIDv7 now randomness of
        (Inl err, r) \<Rightarrow> (Inl (wrapf ''create opaque object key: %w'' err), r)
      | (Inr key, r) \<Rightarrow> (Inr key, r))"

definition validateObjectInput :: "string \<Rightarrow> string option \<Rightarrow> int \<Rightarrow> string \<Rightarrow> go_error option" where
  "validateObjectInput key body length_bytes contentType =
     (if \<not> IsUUIDv7 key then Some (errorf ''object key must be a UUIDv7'')
      else if body = None then Some (errorf ''object body is required'')
      else if length_bytes < 0 then Some (errorf ''object size must not be negative'')
      else if TrimSpace contentType = [] then Some (errorf ''object content type is required'')
      else None)"

definition normalizeError :: "(go_error \<Rightarrow> string) \<Rightarrow> go_error \<Rightarrow> go_error" where
  "normalizeError error_code err =
     (if error_code err \<in> {''NoSuchKey'', ''NoSuchObject'', ''NoSuchBucket'', ''NotFound''}
      then Sentinel ObjectErrNotFound
      else wrapf ''object-storage operation: %w'' err)"

definition store_Put :: "('cl, 'w) s3_lib \<Rightarrow> 'cl object_store \<Rightarrow> string \<Rightarrow> string option \<Rightarrow> int \<Rightarrow> string \<Rightarrow> 'w
    \<Rightarrow> go_error option \<times> 'w" where
  "store_Put lib s key body length_bytes contentType w =
     (case validateObjectInput key body length_bytes contentType of
        Some err \<Rightarrow> (Some err, w)
      | None \<Rightarrow>
     (case store_startedClient s of
        Inl err \<Rightarrow> (Some err, w)
      | Inr client \<Rightarrow>
     (case s3_put lib client (st_bucket (st_configuration s)) key (the body) length_bytes contentType w of
        (Some err, w') \<Rightarrow> (Some (wrapf ''put object: %w'' err), w')
      | (None, w') \<Rightarrow> (None, w'))))"

definition store_Get :: "('cl, 'w) s3_lib \<Rightarrow> 'cl object_store \<Rightarrow> string \<Rightarrow> 'w \<Rightarrow> object result" where
  "store_Get lib s key w =
     (if \<not> IsUUIDv7 key then Inl (errorf ''object key must be a UUIDv7'')
      else
     (case store_startedClient s of
        Inl err \<Rightarrow> Inl err
      | Inr client \<Rightarrow>
     (case s3_stat lib client (st_bucket (st_configuration s)) key w of
        Inl err \<Rightarrow> Inl (normalizeError (s3_error_code lib) err)
      | Inr information \<Rightarrow>
     (case s3_get lib client (st_bucket (st_configuration s)) key w of
        Inl err \<Rightarrow> Inl (normalizeError (s3_error_code lib) err)
      | Inr body \<Rightarrow>
          Inr \<lparr>obj_body = body, obj_size = info_size information,
               obj_content_type = info_content_type information, obj_etag = info_etag information\<rparr>))))"

definition store_Delete :: "('cl, 'w) s3_lib \<Rightarrow> 'cl object_store \<Rightarrow> string \<Rightarrow> 'w \<Rightarrow> go_error option \<times> 'w" where
  "store_Delete lib s key w =
     (if \<not> IsUUIDv7 key then (Some (errorf ''object key must be a UUIDv7''), w)
      else
     (case store_startedClient s of
        Inl err \<Rightarrow> (Some err, w)
      | Inr client \<Rightarrow>
     (case s3_remove lib client (st_bucket (st_configuration s)) key w of
        (Some err, w') \<Rightarrow> (Some (normalizeError (s3_error_code lib) err), w')
      | (None, w') \<Rightarrow> (None, w'))))"

section \<open>Lifecycle\<close>

definition store_start_call :: "('cl, 'w) s3_lib \<times> 'w \<Rightarrow> 'cl object_store \<Rightarrow> go_error option \<times> 'cl object_store" where
  "store_start_call e s = (case store_Start (fst e) s (snd e) of (err, s', w') \<Rightarrow> (err, s'))"

interpretation store_component: component
  "\<lambda>s. st_client s \<noteq> None" store_start_call "\<lambda>e s. store_Check (fst e) s (snd e)" "\<lambda>e. store_Close"
  by unfold_locales
    (auto simp: store_start_call_def store_Start_def store_Check_def store_startedClient_def store_Close_def
      split: prod.splits if_splits sum.splits option.splits)

section \<open>Lemmas\<close>

lemma validateObjectInput_None:
  "validateObjectInput key body length_bytes contentType = None \<longleftrightarrow>
    IsUUIDv7 key \<and> body \<noteq> None \<and> 0 \<le> length_bytes \<and> TrimSpace contentType \<noteq> []"
  by (auto simp: validateObjectInput_def)

lemma normalizeError_Is:
  "errors_Is (normalizeError code err) t \<longleftrightarrow>
    (if code err \<in> {''NoSuchKey'', ''NoSuchObject'', ''NoSuchBucket'', ''NotFound''} then t = ObjectErrNotFound
     else errors_Is err t)"
  by (auto simp: normalizeError_def)

section \<open>Properties\<close>

text \<open>
  Only opaque keys of the configured bucket reach the service: an operation that changes the
  service's state was called on a started store with a UUIDv7 key (and, for a put, a body, a
  non-negative size and a content type), and its effect is exactly one request for that key in the
  configured bucket.
\<close>

theorem store_opaque_keys:
  "(snd (store_Put lib s key body length_bytes contentType w) \<noteq> w \<longrightarrow>
      IsUUIDv7 key \<and> 0 \<le> length_bytes \<and> TrimSpace contentType \<noteq> [] \<and> (\<exists>client bytes. st_client s = Some client \<and> body = Some bytes
        \<and> snd (store_Put lib s key body length_bytes contentType w)
            = snd (s3_put lib client (st_bucket (st_configuration s)) key bytes length_bytes contentType w)))
   \<and> (snd (store_Delete lib s key w) \<noteq> w \<longrightarrow>
      IsUUIDv7 key \<and> (\<exists>client. st_client s = Some client
        \<and> snd (store_Delete lib s key w) = snd (s3_remove lib client (st_bucket (st_configuration s)) key w)))"
proof (intro conjI impI)
  assume "snd (store_Put lib s key body length_bytes contentType w) \<noteq> w"
  then have ok: "validateObjectInput key body length_bytes contentType = None" "st_client s \<noteq> None"
    by (auto simp: store_Put_def store_startedClient_def split: option.splits)
  then obtain client bytes where c: "st_client s = Some client" "body = Some bytes"
    by (auto simp: validateObjectInput_None)
  show "IsUUIDv7 key" "0 \<le> length_bytes" "TrimSpace contentType \<noteq> []"
    using ok(1) by (auto simp: validateObjectInput_None)
  show "\<exists>client bytes. st_client s = Some client \<and> body = Some bytes
      \<and> snd (store_Put lib s key body length_bytes contentType w)
          = snd (s3_put lib client (st_bucket (st_configuration s)) key bytes length_bytes contentType w)"
    using ok(1) c by (auto simp: store_Put_def store_startedClient_def split: prod.splits option.splits)
next
  assume "snd (store_Delete lib s key w) \<noteq> w"
  then show "IsUUIDv7 key" "\<exists>client. st_client s = Some client
      \<and> snd (store_Delete lib s key w) = snd (s3_remove lib client (st_bucket (st_configuration s)) key w)"
    by (auto simp: store_Delete_def store_startedClient_def split: if_splits option.splits prod.splits)
qed

text \<open>A service that keeps one object per bucket and key, for the witnesses.\<close>

definition demo_s3 :: "(unit, string \<times> string \<rightharpoonup> string \<times> int \<times> string) s3_lib" where
  "demo_s3 =
     \<lparr>s3_new = (\<lambda>_ _ _ _. Inr ()), s3_bucket_exists = (\<lambda>_ _ _. Inr True), s3_make_bucket = (\<lambda>_ _ w. (None, w)),
      s3_put = (\<lambda>_ b k d n t w. (None, w((b, k) \<mapsto> (d, n, t)))),
      s3_stat = (\<lambda>_ b k w. case w (b, k) of None \<Rightarrow> Inl (External ''NoSuchKey'')
        | Some (d, n, t) \<Rightarrow> Inr \<lparr>info_size = n, info_content_type = t, info_etag = []\<rparr>),
      s3_get = (\<lambda>_ b k w. case w (b, k) of None \<Rightarrow> Inl (External ''NoSuchKey'') | Some (d, n, t) \<Rightarrow> Inr d),
      s3_remove = (\<lambda>_ b k w. (None, w((b, k) := None))),
      s3_error_code = (\<lambda>e. case e of External m \<Rightarrow> m | _ \<Rightarrow> [])\<rparr>"

definition demo_store :: "unit object_store" where
  "demo_store = \<lparr>st_configuration = \<lparr>st_endpoint_url = ''http://s3:8333'', st_bucket = ''manoreck-local'',
     st_access_key = ''a'', st_secret_key = ''s''\<rparr>, st_endpoint = ''s3:8333'', st_secure = False, st_client = Some ()\<rparr>"

definition demo_key :: string where
  "demo_key = ''01991a4b-fa00-7000-8000-000000000001''"

lemma demo_key_ok: "IsUUIDv7 demo_key"
  by code_simp

theorem store_opaque_keys_witness:
  "snd (store_Put demo_s3 demo_store demo_key (Some ''x'') 1 ''text/plain'' Map.empty) \<noteq> Map.empty
   \<and> IsUUIDv7 demo_key"
proof -
  have "TrimSpace ''text/plain'' \<noteq> []" by code_simp
  then have "snd (store_Put demo_s3 demo_store demo_key (Some ''x'') 1 ''text/plain'' Map.empty) \<noteq> Map.empty"
    using demo_key_ok
    by (simp add: store_Put_def validateObjectInput_def store_startedClient_def demo_s3_def demo_store_def)
  then show ?thesis
    using store_opaque_keys [of demo_s3 demo_store demo_key "Some ''x''" 1 "''text/plain''" Map.empty] by blast
qed



text \<open>
  Starting the store: a store that starts has its bucket, created when it was missing; a failed
  start leaves the store stopped. (The service is assumed to report a bucket it has just made.)
\<close>

theorem store_Start_bucket:
  assumes laws: "\<And>client b w w'. s3_make_bucket lib client b w = (None, w') \<Longrightarrow> s3_bucket_exists lib client b w' = Inr True"
    and "store_Start lib s w = (err, s', w')"
  shows "(err = None \<longrightarrow> store_Check lib s' w' = None) \<and> (err \<noteq> None \<longrightarrow> s' = s)"
  using assms(2) laws
  by (auto simp: store_Start_def store_Check_def store_startedClient_def
      split: if_splits sum.splits option.splits prod.splits)

theorem store_Start_bucket_witness:
  "store_Check demo_s3 demo_store Map.empty = None"
proof -
  have run: "store_Start demo_s3 (demo_store\<lparr>st_client := None\<rparr>) Map.empty = (None, demo_store, Map.empty)"
    by (simp add: store_Start_def demo_s3_def demo_store_def)
  show ?thesis using store_Start_bucket [OF _ run] by (simp add: demo_s3_def)
qed

end
