(* ===== verification/Http.thy ===== *)
theory Http
  imports Dependency Identifier
begin

text \<open>
  Packages \<open>httpserver\<close> (server.go), \<open>requestcontext\<close> (identifiers.go) and \<open>healthcheck\<close> (check.go).

  A handler of the Gin framework is a function of the rest of its chain (what \<open>Next\<close> runs) and of
  the context of the request, which collects the response and the log. The framework itself is the
  argument \<open>serve\<close>; \<open>gin_laws\<close> states the documented behaviour the server relies on: a registered
  static route runs the middleware and then its handler, a path known under another method is
  answered with 405 and the allowed methods, any other path with 404, both behind the middleware.

  Every handler of this server either calls \<open>Next\<close> once, or aborts, or ends the chain, so a chain
  is the composition \<open>run_chain\<close>.
\<close>

section \<open>Package requestcontext\<close>

datatype ctx_key = requestIDKey | correlationIDKey | ForeignKey string

datatype any_value = VString string | VForeign

datatype go_context = Background | WithValue go_context ctx_key any_value

fun ctx_Value :: "go_context \<Rightarrow> ctx_key \<Rightarrow> any_value option" where
  "ctx_Value Background k = None"
| "ctx_Value (WithValue parent key val) k = (if k = key then Some val else ctx_Value parent k)"

definition WithIdentifiers :: "go_context \<Rightarrow> string \<Rightarrow> string \<Rightarrow> go_context" where
  "WithIdentifiers parent requestID correlationID =
     (let withRequestID = WithValue parent requestIDKey (VString requestID)
      in WithValue withRequestID correlationIDKey (VString correlationID))"

definition string_value :: "any_value option \<Rightarrow> string" where
  "string_value v = (case v of Some (VString s) \<Rightarrow> s | _ \<Rightarrow> [])"

definition RequestID :: "go_context \<Rightarrow> string" where
  "RequestID c = string_value (ctx_Value c requestIDKey)"

definition CorrelationID :: "go_context \<Rightarrow> string" where
  "CorrelationID c = string_value (ctx_Value c correlationIDKey)"

section \<open>Requests, responses and the framework\<close>

text \<open>\<open>rq_header\<close> is \<open>Header.Get\<close>: the empty string for a missing header.\<close>

record http_request =
  rq_method :: string
  rq_path :: string
  rq_header :: "string \<Rightarrow> string"
  rq_context :: go_context

datatype gin_value = GString string | GList "gin_value list" | GH "(string \<times> gin_value) list"

record request_log =
  lg_method :: string
  lg_path :: string
  lg_status :: nat
  lg_request_id :: string
  lg_correlation_id :: string
  lg_duration_ms :: int

record gin_context =
  gc_request :: http_request
  gc_status :: nat
  gc_headers :: "string \<Rightarrow> string option"
  gc_body :: "gin_value option"
  gc_log :: "request_log list"

type_synonym handler = "(gin_context \<Rightarrow> gin_context) \<Rightarrow> gin_context \<Rightarrow> gin_context"

record gin_engine =
  eng_redirect_trailing_slash :: bool
  eng_redirect_fixed_path :: bool
  eng_handle_method_not_allowed :: bool
  eng_middleware :: "handler list"
  eng_routes :: "((string \<times> string) \<times> handler) list"

record http_server =
  srv_addr :: string
  srv_handler :: gin_engine
  srv_read_header_timeout :: duration
  srv_read_timeout :: duration
  srv_write_timeout :: duration
  srv_idle_timeout :: duration

definition gin_JSON :: "nat \<Rightarrow> gin_value \<Rightarrow> gin_context \<Rightarrow> gin_context" where
  "gin_JSON status body c = c\<lparr>gc_status := status, gc_body := Some body\<rparr>"

definition set_header :: "string \<Rightarrow> string \<Rightarrow> gin_context \<Rightarrow> gin_context" where
  "set_header name val c = c\<lparr>gc_headers := (gc_headers c)(name := if val = [] then None else Some val)\<rparr>"

definition get_header :: "string \<Rightarrow> gin_context \<Rightarrow> string" where
  "get_header name c = (case gc_headers c name of None \<Rightarrow> [] | Some v \<Rightarrow> v)"

fun run_chain :: "handler list \<Rightarrow> gin_context \<Rightarrow> gin_context" where
  "run_chain [] c = c"
| "run_chain (h # hs) c = h (run_chain hs) c"

definition refuse :: "nat \<Rightarrow> handler" where
  "refuse status rest c = c\<lparr>gc_status := status\<rparr>"

definition static_path :: "string \<Rightarrow> bool" where
  "static_path p \<longleftrightarrow> CHR '':'' \<notin> set p \<and> CHR ''*'' \<notin> set p"

definition static_engine :: "gin_engine \<Rightarrow> bool" where
  "static_engine eng \<longleftrightarrow> \<not> eng_redirect_trailing_slash eng \<and> \<not> eng_redirect_fixed_path eng
     \<and> eng_handle_method_not_allowed eng
     \<and> list_all (\<lambda>r. static_path (snd (fst r))) (eng_routes eng) \<and> distinct (map fst (eng_routes eng))"

definition methods_of :: "gin_engine \<Rightarrow> string \<Rightarrow> string list" where
  "methods_of eng path = map (\<lambda>r. fst (fst r)) (filter (\<lambda>r. snd (fst r) = path) (eng_routes eng))"

definition gin_laws :: "(gin_engine \<Rightarrow> gin_context \<Rightarrow> gin_context) \<Rightarrow> bool" where
  "gin_laws serve \<longleftrightarrow> (\<forall>eng c. static_engine eng \<longrightarrow>
     (\<forall>h. map_of (eng_routes eng) (rq_method (gc_request c), rq_path (gc_request c)) = Some h \<longrightarrow>
        serve eng c = run_chain (eng_middleware eng @ [h]) c)
   \<and> (\<forall>m. map_of (eng_routes eng) (rq_method (gc_request c), rq_path (gc_request c)) = None
        \<and> methods_of eng (rq_path (gc_request c)) = [m] \<longrightarrow>
        serve eng c = run_chain (eng_middleware eng @ [refuse 405]) (set_header ''Allow'' m c))
   \<and> (methods_of eng (rq_path (gc_request c)) = [] \<longrightarrow>
        serve eng c = run_chain (eng_middleware eng @ [refuse 404]) c))"

section \<open>Package httpserver\<close>

definition readHeaderTimeout :: duration where "readHeaderTimeout = 5 * Second"
definition readTimeout :: duration where "readTimeout = 15 * Second"
definition writeTimeout :: duration where "writeTimeout = 15 * Second"
definition idleTimeout :: duration where "idleTimeout = 60 * Second"

text \<open>What one request meets: the clock readings and the random source.\<close>

record http_env =
  he_now :: time
  he_random :: reader
  he_started :: time
  he_finished :: time

definition requestIdentifiers :: "http_env \<Rightarrow> handler" where
  "requestIdentifiers env rest c =
     (let header = rq_header (gc_request c);
          requestID = (if IsUUIDv7 (header ''X-Request-ID'') then Inr (header ''X-Request-ID'')
                       else fst (newUUIDv7 (he_now env) (he_random env)))
      in case requestID of
           Inl err \<Rightarrow> gin_JSON 500 (GH [(''error'', GString ''could not create request identifier'')]) c
         | Inr requestID \<Rightarrow>
             let correlationID = (if IsUUIDv7 (header ''X-Correlation-ID'') then header ''X-Correlation-ID'' else requestID);
                 c1 = set_header ''X-Correlation-ID'' correlationID (set_header ''X-Request-ID'' requestID c);
                 requestContext = WithIdentifiers (rq_context (gc_request c)) requestID correlationID
             in rest (c1\<lparr>gc_request := (gc_request c1)\<lparr>rq_context := requestContext\<rparr>\<rparr>))"

definition liveness :: handler where
  "liveness rest c = gin_JSON 200 (GH [(''status'', GString ''ok'')]) c"

definition check_entry :: "check_result \<Rightarrow> gin_value" where
  "check_entry check =
     GH [(''name'', GString (check_name check)),
         (''status'', GString (if check_ready check then ''ok'' else ''unavailable''))]"

definition readinessHandler :: "(go_context \<Rightarrow> readiness_report) \<Rightarrow> handler" where
  "readinessHandler readiness rest c =
     (let report = readiness (rq_context (gc_request c));
          checks = GList (map check_entry (report_checks report))
      in if \<not> report_ready report
         then gin_JSON 503 (GH [(''status'', GString ''unavailable''), (''checks'', checks)]) c
         else gin_JSON 200 (GH [(''status'', GString ''ok''), (''checks'', checks)]) c)"

definition logRequests :: "http_env \<Rightarrow> handler" where
  "logRequests env rest c =
     (let c' = rest c
      in c'\<lparr>gc_log := gc_log c' @ [\<lparr>lg_method = rq_method (gc_request c'), lg_path = rq_path (gc_request c'),
              lg_status = gc_status c', lg_request_id = get_header ''X-Request-ID'' c',
              lg_correlation_id = get_header ''X-Correlation-ID'' c',
              lg_duration_ms = quot (i64 (he_finished env - he_started env)) Millisecond\<rparr>]\<rparr>)"

text \<open>\<open>recovery\<close> is \<open>gin.Recovery()\<close>; \<open>Inl\<close> is the panic of \<open>New\<close>.\<close>

definition http_New :: "(string list option \<Rightarrow> go_error option) \<Rightarrow> handler \<Rightarrow> http_env
    \<Rightarrow> (go_context \<Rightarrow> readiness_report) \<Rightarrow> string \<Rightarrow> http_server result" where
  "http_New SetTrustedProxies recovery env readiness address =
     (case SetTrustedProxies None of
        Some err \<Rightarrow> Inl (wrapf ''configure trusted proxies: %w'' err)
      | None \<Rightarrow>
          Inr \<lparr>srv_addr = address,
               srv_handler =
                 \<lparr>eng_redirect_trailing_slash = False, eng_redirect_fixed_path = False,
                  eng_handle_method_not_allowed = True,
                  eng_middleware = [requestIdentifiers env, logRequests env, recovery],
                  eng_routes = [((''GET'', ''/healthz''), liveness), ((''GET'', ''/livez''), liveness),
                                ((''GET'', ''/readyz''), readinessHandler readiness)]\<rparr>,
               srv_read_header_timeout = readHeaderTimeout, srv_read_timeout = readTimeout,
               srv_write_timeout = writeTimeout, srv_idle_timeout = idleTimeout\<rparr>)"

section \<open>Package healthcheck\<close>

definition maxResponseBytes :: nat where
  "maxResponseBytes = 4 * 2 ^ 10"

record http_response =
  resp_status :: nat
  resp_body :: string

text \<open>
  \<open>NewRequest\<close> is \<open>http.NewRequestWithContext\<close> for a GET. The result is the error, the bytes read from the
  body and whether the body was closed.
\<close>

record probe_result =
  pr_error :: "go_error option"
  pr_read :: string
  pr_closed :: bool

definition healthcheck_Check :: "(go_context \<Rightarrow> string \<Rightarrow> string \<Rightarrow> 'rq result) \<Rightarrow> go_context
    \<Rightarrow> ('rq \<Rightarrow> http_response result) option \<Rightarrow> string \<Rightarrow> probe_result" where
  "healthcheck_Check NewRequest ctx client endpoint =
     (case client of
        None \<Rightarrow> \<lparr>pr_error = Some (errorf ''health check HTTP client is required''), pr_read = [], pr_closed = False\<rparr>
      | Some Do \<Rightarrow>
     (case NewRequest ctx ''GET'' endpoint of
        Inl err \<Rightarrow> \<lparr>pr_error = Some (wrapf ''create health check request: %w'' err), pr_read = [], pr_closed = False\<rparr>
      | Inr request \<Rightarrow>
     (case Do request of
        Inl err \<Rightarrow> \<lparr>pr_error = Some (wrapf ''request readiness: %w'' err), pr_read = [], pr_closed = False\<rparr>
      | Inr response \<Rightarrow>
          \<lparr>pr_error = (if resp_status response \<noteq> 200
                       then Some (Errorf ''readiness returned HTTP %d'' [FInt (int (resp_status response))] None) else None),
           pr_read = take maxResponseBytes (resp_body response), pr_closed = True\<rparr>)))"

section \<open>Lemmas\<close>

lemma ctx_identifiers [simp]:
  "RequestID (WithIdentifiers parent r k) = r" "CorrelationID (WithIdentifiers parent r k) = k"
  by (simp_all add: RequestID_def CorrelationID_def WithIdentifiers_def string_value_def)

lemma newUUIDv7_result_valid: "newUUIDv7 now r = (Inr u, r') \<Longrightarrow> IsUUIDv7 u"
  by (auto simp: newUUIDv7_def ReadFull_def IsUUIDv7_format_stamp split: if_splits prod.splits sum.splits)

lemma IsUUIDv7_nonempty: "IsUUIDv7 u \<Longrightarrow> u \<noteq> []"
  by (auto simp: IsUUIDv7_def)

lemma map_of_routes:
  "map_of (eng_routes (srv_handler srv)) = (\<lambda>r. if r = (''GET'', ''/healthz'') \<or> r = (''GET'', ''/livez'') then Some liveness
     else if r = (''GET'', ''/readyz'') then Some (readinessHandler readiness) else None)"
  if "http_New Set recovery env readiness address = Inr srv"
  using that by (auto simp: http_New_def fun_eq_iff split: option.splits)

lemma methods_of_routes:
  assumes "http_New Set recovery env readiness address = Inr srv"
  shows "methods_of (srv_handler srv) path =
    (if path = ''/healthz'' \<or> path = ''/livez'' \<or> path = ''/readyz'' then [''GET''] else [])"
  using assms by (auto simp: http_New_def methods_of_def split: option.splits)

lemma static_server:
  assumes "http_New Set recovery env readiness address = Inr srv"
  shows "static_engine (srv_handler srv)"
    and "eng_middleware (srv_handler srv) = [requestIdentifiers env, logRequests env, recovery]"
  using assms by (auto simp: http_New_def static_engine_def static_path_def split: option.splits)

text \<open>The handler that answers a request, and the context it is reached with.\<close>

definition answering :: "(go_context \<Rightarrow> readiness_report) \<Rightarrow> http_request \<Rightarrow> handler" where
  "answering readiness rq =
     (if rq_path rq = ''/healthz'' \<or> rq_path rq = ''/livez'' then if rq_method rq = ''GET'' then liveness else refuse 405
      else if rq_path rq = ''/readyz'' then if rq_method rq = ''GET'' then readinessHandler readiness else refuse 405
      else refuse 404)"

definition allow_get :: "gin_context \<Rightarrow> gin_context" where
  "allow_get c = (if rq_method (gc_request c) \<noteq> ''GET'' \<and> rq_path (gc_request c) \<in> {''/healthz'', ''/livez'', ''/readyz''}
     then set_header ''Allow'' ''GET'' c else c)"

lemma answering_keeps [simp]:
  "gc_request (answering readiness rq rest c) = gc_request c"
  "gc_headers (answering readiness rq rest c) = gc_headers c"
  "gc_log (answering readiness rq rest c) = gc_log c"
  by (simp_all add: answering_def liveness_def readinessHandler_def refuse_def gin_JSON_def Let_def)

lemma allow_get_keeps [simp]:
  "gc_request (allow_get c) = gc_request c" "gc_log (allow_get c) = gc_log c"
  by (simp_all add: allow_get_def set_header_def)

lemma serve_chain:
  assumes "gin_laws serve" and "http_New Set recovery env readiness address = Inr srv"
  shows "serve (srv_handler srv) c =
    run_chain [requestIdentifiers env, logRequests env, recovery, answering readiness (gc_request c)] (allow_get c)"
proof -
  let ?rq = "gc_request c"
  note laws = assms(1) [unfolded gin_laws_def, rule_format, OF static_server(1) [OF assms(2)], of c,
      unfolded map_of_routes [OF assms(2)] methods_of_routes [OF assms(2)] static_server(2) [OF assms(2)]]
  consider (unknown) "rq_path ?rq \<notin> {''/healthz'', ''/livez'', ''/readyz''}"
    | (refused) "rq_path ?rq \<in> {''/healthz'', ''/livez'', ''/readyz''}" "rq_method ?rq \<noteq> ''GET''"
    | (found) "rq_path ?rq \<in> {''/healthz'', ''/livez'', ''/readyz''}" "rq_method ?rq = ''GET''"
    by blast
  then show ?thesis
  proof cases
    case unknown
    with laws show ?thesis by (auto simp: answering_def allow_get_def)
  next
    case refused
    with laws show ?thesis by (auto simp: answering_def allow_get_def)
  next
    case found
    with laws show ?thesis by (auto simp: answering_def allow_get_def)
  qed
qed

text \<open>The identifiers of a request: request and correlation identifier, if one can be created.\<close>

definition request_ids :: "http_env \<Rightarrow> http_request \<Rightarrow> (string \<times> string) option" where
  "request_ids env rq =
     (let hr = rq_header rq ''X-Request-ID''; hc = rq_header rq ''X-Correlation-ID'' in
      case (if IsUUIDv7 hr then Inr hr else fst (newUUIDv7 (he_now env) (he_random env))) of
        Inl _ \<Rightarrow> None
      | Inr r \<Rightarrow> Some (r, if IsUUIDv7 hc then hc else r))"

lemma request_ids_valid: "request_ids env rq = Some (r, k) \<Longrightarrow> IsUUIDv7 r \<and> IsUUIDv7 k"
  using newUUIDv7_result_valid [of "he_now env" "he_random env"]
  by (auto simp: request_ids_def Let_def split: if_splits sum.splits) (metis prod.collapse)+

lemma request_ids_Some_iff:
  "(\<exists>ids. request_ids env rq = Some ids) \<longleftrightarrow>
    IsUUIDv7 (rq_header rq ''X-Request-ID'') \<or> 16 \<le> length (pending (he_random env))"
  by (auto simp: request_ids_def newUUIDv7_def ReadFull_def Let_def split: if_splits)

definition with_ids :: "string \<Rightarrow> string \<Rightarrow> gin_context \<Rightarrow> gin_context" where
  "with_ids r k c = (let c1 = set_header ''X-Correlation-ID'' k (set_header ''X-Request-ID'' r c)
     in c1\<lparr>gc_request := (gc_request c1)\<lparr>rq_context := WithIdentifiers (rq_context (gc_request c)) r k\<rparr>\<rparr>)"

lemma requestIdentifiers_ids:
  "requestIdentifiers env rest c =
    (case request_ids env (gc_request c) of
       None \<Rightarrow> gin_JSON 500 (GH [(''error'', GString ''could not create request identifier'')]) c
     | Some (r, k) \<Rightarrow> rest (with_ids r k c))"
  by (simp add: requestIdentifiers_def request_ids_def with_ids_def Let_def split: sum.split)

lemma with_ids_headers:
  assumes "IsUUIDv7 r" and "IsUUIDv7 k"
  shows "get_header ''X-Request-ID'' (with_ids r k c) = r" and "get_header ''X-Correlation-ID'' (with_ids r k c) = k"
    and "gc_log (with_ids r k c) = gc_log c"
    and "rq_method (gc_request (with_ids r k c)) = rq_method (gc_request c)"
    and "rq_path (gc_request (with_ids r k c)) = rq_path (gc_request c)"
    and "rq_context (gc_request (with_ids r k c)) = WithIdentifiers (rq_context (gc_request c)) r k"
  using assms [THEN IsUUIDv7_nonempty]
  by (simp_all add: with_ids_def set_header_def get_header_def Let_def)

lemma serve_identified:
  assumes "gin_laws serve" and "http_New Set recovery env readiness address = Inr srv"
    and "\<And>rest d. recovery rest d = rest d"
    and "request_ids env (gc_request c) = Some (r, k)"
  shows "serve (srv_handler srv) c =
    logRequests env (answering readiness (gc_request c) (run_chain [])) (with_ids r k (allow_get c))"
  using assms(3,4) by (simp add: serve_chain [OF assms(1,2)] requestIdentifiers_ids logRequests_def)

lemma logRequests_keeps [simp]:
  "gc_request (logRequests env h c) = gc_request (h c)" "gc_headers (logRequests env h c) = gc_headers (h c)"
  "gc_status (logRequests env h c) = gc_status (h c)" "gc_body (logRequests env h c) = gc_body (h c)"
  by (simp_all add: logRequests_def Let_def)

lemma get_header_cong: "gc_headers c = gc_headers d \<Longrightarrow> get_header name c = get_header name d"
  by (simp add: get_header_def)

section \<open>Properties\<close>

text \<open>
  C27. Traceability of requests. Whenever a request identifier is at hand (a canonical one from the
  client, or sixteen random bytes to create one) the response carries a canonical request and
  correlation identifier, the client's own where they are canonical; the handlers see the same
  identifiers on the standard context, and exactly one log record is written, with these
  identifiers and the status of the response. Otherwise the response is 500 and no handler runs.
\<close>

theorem http_traced:
  assumes "gin_laws serve" and "http_New Set recovery env readiness address = Inr srv"
    and "\<And>rest d. recovery rest d = rest d" and "c' = serve (srv_handler srv) c"
  shows "if IsUUIDv7 (rq_header (gc_request c) ''X-Request-ID'') \<or> 16 \<le> length (pending (he_random env))
    then \<exists>r k ms. IsUUIDv7 r \<and> IsUUIDv7 k
      \<and> (IsUUIDv7 (rq_header (gc_request c) ''X-Request-ID'') \<longrightarrow> r = rq_header (gc_request c) ''X-Request-ID'')
      \<and> k = (if IsUUIDv7 (rq_header (gc_request c) ''X-Correlation-ID'') then rq_header (gc_request c) ''X-Correlation-ID'' else r)
      \<and> get_header ''X-Request-ID'' c' = r \<and> get_header ''X-Correlation-ID'' c' = k
      \<and> RequestID (rq_context (gc_request c')) = r \<and> CorrelationID (rq_context (gc_request c')) = k
      \<and> gc_log c' = gc_log c @ [\<lparr>lg_method = rq_method (gc_request c), lg_path = rq_path (gc_request c),
           lg_status = gc_status c', lg_request_id = r, lg_correlation_id = k, lg_duration_ms = ms\<rparr>]
    else gc_status c' = 500 \<and> gc_log c' = gc_log c"
proof (cases "request_ids env (gc_request c)")
  case None
  then have "c' = gin_JSON 500 (GH [(''error'', GString ''could not create request identifier'')]) (allow_get c)"
    using assms(4) by (simp add: serve_chain [OF assms(1,2)] requestIdentifiers_ids)
  with None request_ids_Some_iff [of env "gc_request c"] show ?thesis by (simp add: gin_JSON_def)
next
  case (Some ids)
  then obtain r k where ids: "request_ids env (gc_request c) = Some (r, k)" by (metis prod.collapse)
  let ?h = "answering readiness (gc_request c) (run_chain [])" and ?d = "with_ids r k (allow_get c)"
  note valid = request_ids_valid [OF ids]
  note kept = with_ids_headers [OF conjunct1 [OF valid] conjunct2 [OF valid], of "allow_get c"]
  have run: "c' = logRequests env ?h ?d"
    using assms(4) serve_identified [OF assms(1-3) ids] by simp
  have headers: "get_header name (?h ?d) = get_header name ?d" for name
    by (rule get_header_cong) simp
  have headers': "get_header name c' = get_header name ?d" for name
    unfolding run by (rule get_header_cong) simp
  have own: "(IsUUIDv7 (rq_header (gc_request c) ''X-Request-ID'') \<longrightarrow> r = rq_header (gc_request c) ''X-Request-ID'')
      \<and> k = (if IsUUIDv7 (rq_header (gc_request c) ''X-Correlation-ID'') then rq_header (gc_request c) ''X-Correlation-ID'' else r)"
    using ids by (auto simp: request_ids_def Let_def split: sum.splits if_splits)
  have log: "gc_log c' = gc_log c @ [\<lparr>lg_method = rq_method (gc_request c), lg_path = rq_path (gc_request c),
      lg_status = gc_status c', lg_request_id = r, lg_correlation_id = k,
      lg_duration_ms = quot (i64 (he_finished env - he_started env)) Millisecond\<rparr>]"
    by (simp add: run) (simp add: logRequests_def Let_def headers kept)
  have "get_header ''X-Request-ID'' c' = r" "get_header ''X-Correlation-ID'' c' = k"
    "RequestID (rq_context (gc_request c')) = r" "CorrelationID (rq_context (gc_request c')) = k"
    by (simp_all add: headers' kept) (simp_all add: run kept)
  with own log valid request_ids_Some_iff [of env "gc_request c"] ids show ?thesis by auto
qed

text \<open>A router that satisfies the laws, and the requests and environments of the witnesses.\<close>

definition static_serve :: "gin_engine \<Rightarrow> gin_context \<Rightarrow> gin_context" where
  "static_serve eng c =
     (let path = rq_path (gc_request c) in
      case map_of (eng_routes eng) (rq_method (gc_request c), path) of
        Some h \<Rightarrow> run_chain (eng_middleware eng @ [h]) c
      | None \<Rightarrow>
          (case methods_of eng path of
             [] \<Rightarrow> run_chain (eng_middleware eng @ [refuse 404]) c
           | m # _ \<Rightarrow> run_chain (eng_middleware eng @ [refuse 405]) (set_header ''Allow'' m c)))"

lemma methods_of_None:
  "methods_of eng path = [] \<Longrightarrow> map_of (eng_routes eng) (m, path) = None"
  by (force simp: methods_of_def filter_empty_conv map_of_eq_None_iff)

lemma static_serve_laws: "gin_laws static_serve"
  by (auto simp: gin_laws_def static_serve_def Let_def methods_of_None)

definition fresh_context :: "http_request \<Rightarrow> gin_context" where
  "fresh_context rq = \<lparr>gc_request = rq, gc_status = 200, gc_headers = (\<lambda>_. None), gc_body = None, gc_log = []\<rparr>"

definition probe_http_env :: http_env where
  "probe_http_env = \<lparr>he_now = 1790000000000000000, he_random = \<lparr>pending = replicate 16 0, ends_with = Sentinel EOF\<rparr>,
     he_started = 0, he_finished = 5000000\<rparr>"

definition probe_request :: "string \<Rightarrow> string \<Rightarrow> http_request" where
  "probe_request method path = \<lparr>rq_method = method, rq_path = path, rq_header = (\<lambda>_. []), rq_context = Background\<rparr>"

theorem http_traced_witness:
  "\<exists>srv. http_New (\<lambda>_. None) (\<lambda>rest. rest) probe_http_env (\<lambda>_. \<lparr>report_ready = True, report_checks = []\<rparr>) '':8080'' = Inr srv
    \<and> IsUUIDv7 (get_header ''X-Request-ID'' (static_serve (srv_handler srv) (fresh_context (probe_request ''POST'' ''/v1''))))"
proof -
  obtain srv where srv: "http_New (\<lambda>_. None) (\<lambda>rest. rest) probe_http_env
      (\<lambda>_. \<lparr>report_ready = True, report_checks = []\<rparr>) '':8080'' = Inr srv"
    by (simp add: http_New_def)
  from http_traced [OF static_serve_laws srv _ refl, of "fresh_context (probe_request ''POST'' ''/v1'')"] srv
  show ?thesis by (auto simp: probe_http_env_def)
qed

text \<open>
  C28. The answers of the server, for a request that could be given an identifier: the liveness
  probes answer 200 whatever the state of the dependencies, the readiness probe answers 200 or 503
  by the report, which it is given the identified context for; another method on these paths is
  refused with 405 and the allowed method, every other path with 404.
\<close>

theorem http_answers:
  assumes "gin_laws serve" and "http_New Set recovery env readiness address = Inr srv"
    and "\<And>rest d. recovery rest d = rest d" and "c' = serve (srv_handler srv) c"
    and "IsUUIDv7 (rq_header (gc_request c) ''X-Request-ID'') \<or> 16 \<le> length (pending (he_random env))"
    and "rq = gc_request c" and "known = (rq_path rq \<in> {''/healthz'', ''/livez'', ''/readyz''})"
  shows "(gc_status c' =
      (if \<not> known then 404 else if rq_method rq \<noteq> ''GET'' then 405
       else if rq_path rq \<noteq> ''/readyz'' then 200
       else if report_ready (readiness (rq_context (gc_request c'))) then 200 else 503))
    \<and> (known \<and> rq_method rq \<noteq> ''GET'' \<longrightarrow> gc_headers c' ''Allow'' = Some ''GET'')
    \<and> (rq_path rq = ''/readyz'' \<and> rq_method rq = ''GET'' \<longrightarrow>
      (\<exists>status. gc_body c' = Some (GH [(''status'', GString status),
        (''checks'', GList (map check_entry (report_checks (readiness (rq_context (gc_request c'))))))])))"
proof (intro conjI impI)
  from assms(5) obtain r k where ids: "request_ids env (gc_request c) = Some (r, k)"
    using request_ids_Some_iff [of env "gc_request c"] by (metis prod.collapse)
  have run: "c' = logRequests env (answering readiness rq (run_chain [])) (with_ids r k (allow_get c))"
    using assms(4,6) serve_identified [OF assms(1-3) ids] by simp
  show "gc_status c' = (if \<not> known then 404 else if rq_method rq \<noteq> ''GET'' then 405
       else if rq_path rq \<noteq> ''/readyz'' then 200
       else if report_ready (readiness (rq_context (gc_request c'))) then 200 else 503)"
    unfolding run by (auto simp: assms(7) answering_def liveness_def readinessHandler_def refuse_def gin_JSON_def Let_def)
  show "gc_headers c' ''Allow'' = Some ''GET''" if "known \<and> rq_method rq \<noteq> ''GET''"
    using that unfolding run by (auto simp: assms(6,7) with_ids_def allow_get_def set_header_def Let_def)
  show "\<exists>status. gc_body c' = Some (GH [(''status'', GString status),
        (''checks'', GList (map check_entry (report_checks (readiness (rq_context (gc_request c'))))))])"
    if "rq_path rq = ''/readyz'' \<and> rq_method rq = ''GET''"
    using that unfolding run by (auto simp: answering_def readinessHandler_def gin_JSON_def Let_def)
qed

theorem http_answers_witness:
  "\<exists>srv. http_New (\<lambda>_. None) (\<lambda>rest. rest) probe_http_env (\<lambda>_. \<lparr>report_ready = False, report_checks = []\<rparr>) '':8080'' = Inr srv
    \<and> gc_status (static_serve (srv_handler srv) (fresh_context (probe_request ''GET'' ''/livez''))) = 200
    \<and> gc_status (static_serve (srv_handler srv) (fresh_context (probe_request ''GET'' ''/readyz''))) = 503"
proof -
  obtain srv where srv: "http_New (\<lambda>_. None) (\<lambda>rest. rest) probe_http_env
      (\<lambda>_. \<lparr>report_ready = False, report_checks = []\<rparr>) '':8080'' = Inr srv"
    by (simp add: http_New_def)
  have bytes: "16 \<le> length (pending (he_random probe_http_env))" by (simp add: probe_http_env_def)
  note answers = http_answers [OF static_serve_laws srv _ refl disjI2 [OF bytes] refl refl]
  from answers [of "fresh_context (probe_request ''GET'' ''/livez'')"]
    answers [of "fresh_context (probe_request ''GET'' ''/readyz'')"] srv
  show ?thesis by (simp add: fresh_context_def probe_request_def)
qed

text \<open>
  The container probe: the health check succeeds exactly when there is a client, the request can
  be built and sent, and the answer has status 200. It reads at most 4096 bytes of the answer, and
  closes the body of every answer it received.
\<close>

theorem healthcheck_exact:
  "(pr_error (healthcheck_Check NewRequest ctx client endpoint) = None \<longleftrightarrow>
     (\<exists>Do request response. client = Some Do \<and> NewRequest ctx ''GET'' endpoint = Inr request
        \<and> Do request = Inr response \<and> resp_status response = 200))
   \<and> length (pr_read (healthcheck_Check NewRequest ctx client endpoint)) \<le> 4096
   \<and> (pr_closed (healthcheck_Check NewRequest ctx client endpoint) \<longleftrightarrow>
     (\<exists>Do request response. client = Some Do \<and> NewRequest ctx ''GET'' endpoint = Inr request \<and> Do request = Inr response))"
  by (auto simp: healthcheck_Check_def maxResponseBytes_def split: option.split sum.split)



end
