(* ===== verification/Logging.thy ===== *)
theory Logging
  imports Relay
begin

text \<open>
  Package \<open>logging\<close> (logging.go): the process-wide logger, and what \<open>log/slog\<close> does with it: an entry
  below the level of the handler is dropped, every other entry is written with the attributes of
  \<open>With\<close> before its own. The rendering of an entry as a line of JSON is not modelled.
\<close>

record logger =
  lo_level :: int
  lo_attributes :: "(string \<times> fmt_arg) list"

definition logger_With :: "(string \<times> fmt_arg) list \<Rightarrow> logger \<Rightarrow> logger" where
  "logger_With attributes l = l\<lparr>lo_attributes := lo_attributes l @ attributes\<rparr>"

definition logging_New :: "int \<Rightarrow> string \<Rightarrow> logger" where
  "logging_New level environment =
     logger_With [(''service'', FStr ''manoreck-api''), (''environment'', FStr environment)]
       \<lparr>lo_level = level, lo_attributes = []\<rparr>"

definition level_value :: "log_level \<Rightarrow> int" where
  "level_value level = (case level of LogInfo \<Rightarrow> 0 | LogWarn \<Rightarrow> 4 | LogError \<Rightarrow> 8)"

definition write_entry :: "logger \<Rightarrow> log_entry \<Rightarrow> log_entry list \<Rightarrow> log_entry list" where
  "write_entry l entry out =
     (if level_value (log_level entry) < lo_level l then out
      else out @ [entry\<lparr>log_attributes := lo_attributes l @ log_attributes entry\<rparr>])"

text \<open>
  The log that reaches the output: the entries at or above the configured level, in order, each
  opening with the service and the environment.
\<close>

lemma written_log:
  "fold (write_entry (logging_New level environment)) entries [] =
     map (\<lambda>entry. entry\<lparr>log_attributes := [(''service'', FStr ''manoreck-api''), (''environment'', FStr environment)]
        @ log_attributes entry\<rparr>) (filter (\<lambda>entry. level \<le> level_value (log_level entry)) entries)"
proof -
  have "fold (write_entry (logging_New level environment)) entries out = out @
     map (\<lambda>entry. entry\<lparr>log_attributes := [(''service'', FStr ''manoreck-api''), (''environment'', FStr environment)]
        @ log_attributes entry\<rparr>) (filter (\<lambda>entry. level \<le> level_value (log_level entry)) entries)" for out
    by (induction entries arbitrary: out) (auto simp: write_entry_def logging_New_def logger_With_def)
  from this [of "[]"] show ?thesis by simp
qed

end
