(* ===== verification/Process.thy ===== *)
theory Process
  imports Config Runtime Redis ObjectStorage Consumer Http Logging
begin

text \<open>
  Command \<open>cmd/api\<close> (main.go): the process that puts the packages together.

  The state of the running process is the record \<open>platform\<close>: the six dependencies and the state of
  the object-storage service. Each dependency becomes a component of the dependency set by its own
  lifecycle operations, on its own field; the consumer reads the NATS client it shares. What the
  libraries do during the run is the record \<open>platform_lib\<close>.

  \<open>api_main\<close> is \<open>main\<close>: the health-check mode, loading the configuration, constructing the
  dependencies in order, and \<open>Run\<close>. The platform is shown to satisfy the contract of the dependency
  set, so that the lemmas of \<open>managed_components\<close> and \<open>runtime_dependencies\<close> hold of the process.
\<close>

section \<open>The dependencies of the process\<close>

record ('pool, 'conn, 'js, 'opt, 'cl, 's3, 'sub, 'w) platform =
  pf_database :: "'pool database"
  pf_nats :: "('conn, 'js) nats_client"
  pf_redis :: "('opt, 'cl) redis_client"
  pf_store :: "'s3 object_store"
  pf_consumer :: "'sub consumer"
  pf_relay :: relay
  pf_objects :: 'w

record ('cfg, 'pool, 'conn, 'js, 'opt, 'cl, 's3, 'sub, 'w) platform_lib =
  pl_pgx :: "('cfg, 'pool) pgx_lib"
  pl_nats :: "('conn, 'js) nats_lib"
  pl_drain :: drain_wait
  pl_redis :: "('opt, 'cl) redis_lib"
  pl_s3 :: "('s3, 'w) s3_lib"
  pl_consumer :: "('js, 'sub) consumer_lib"
  pl_consumer_stop :: stop_wait
  pl_relay_stop :: stop_wait

definition database_ops :: "('cfg, 'pool, 'conn, 'js, 'opt, 'cl, 's3, 'sub, 'w) platform_lib
    \<Rightarrow> ('pool, 'conn, 'js, 'opt, 'cl, 's3, 'sub, 'w) platform component_ops" where
  "database_ops lib =
     \<lparr>comp_name = database_Name,
      comp_start = (\<lambda>p. case database_start_call (pl_pgx lib) (pf_database p) of (err, d) \<Rightarrow> (err, p\<lparr>pf_database := d\<rparr>)),
      comp_check = (\<lambda>p. database_Check (px_ping (pl_pgx lib)) (pf_database p)),
      comp_close = (\<lambda>p. case database_close_call (pl_pgx lib) (pf_database p) of (err, d) \<Rightarrow> (err, p\<lparr>pf_database := d\<rparr>))\<rparr>"

definition nats_ops :: "('cfg, 'pool, 'conn, 'js, 'opt, 'cl, 's3, 'sub, 'w) platform_lib
    \<Rightarrow> ('pool, 'conn, 'js, 'opt, 'cl, 's3, 'sub, 'w) platform component_ops" where
  "nats_ops lib =
     \<lparr>comp_name = nats_Name,
      comp_start = (\<lambda>p. case nats_start_call (pl_nats lib, pl_drain lib) (pf_nats p) of (err, n) \<Rightarrow> (err, p\<lparr>pf_nats := n\<rparr>)),
      comp_check = (\<lambda>p. nats_Check (pl_nats lib) (pf_nats p)),
      comp_close = (\<lambda>p. case nats_close_call (pl_nats lib, pl_drain lib) (pf_nats p) of (err, n) \<Rightarrow> (err, p\<lparr>pf_nats := n\<rparr>))\<rparr>"

definition redis_ops :: "('cfg, 'pool, 'conn, 'js, 'opt, 'cl, 's3, 'sub, 'w) platform_lib
    \<Rightarrow> ('pool, 'conn, 'js, 'opt, 'cl, 's3, 'sub, 'w) platform component_ops" where
  "redis_ops lib =
     \<lparr>comp_name = redis_Name,
      comp_start = (\<lambda>p. case redis_Start (rl_new_client (pl_redis lib)) (pf_redis p) of (err, r) \<Rightarrow> (err, p\<lparr>pf_redis := r\<rparr>)),
      comp_check = (\<lambda>p. redis_Check (rl_ping (pl_redis lib)) (pf_redis p)),
      comp_close = (\<lambda>p. case redis_Close (rl_close (pl_redis lib)) (pf_redis p) of (err, r) \<Rightarrow> (err, p\<lparr>pf_redis := r\<rparr>))\<rparr>"

definition store_ops :: "('cfg, 'pool, 'conn, 'js, 'opt, 'cl, 's3, 'sub, 'w) platform_lib
    \<Rightarrow> ('pool, 'conn, 'js, 'opt, 'cl, 's3, 'sub, 'w) platform component_ops" where
  "store_ops lib =
     \<lparr>comp_name = store_Name,
      comp_start = (\<lambda>p. case store_Start (pl_s3 lib) (pf_store p) (pf_objects p) of
                          (err, s, w) \<Rightarrow> (err, p\<lparr>pf_store := s, pf_objects := w\<rparr>)),
      comp_check = (\<lambda>p. store_Check (pl_s3 lib) (pf_store p) (pf_objects p)),
      comp_close = (\<lambda>p. case store_Close (pf_store p) of (err, s) \<Rightarrow> (err, p\<lparr>pf_store := s\<rparr>))\<rparr>"

definition consumer_ops :: "('cfg, 'pool, 'conn, 'js, 'opt, 'cl, 's3, 'sub, 'w) platform_lib
    \<Rightarrow> ('pool, 'conn, 'js, 'opt, 'cl, 's3, 'sub, 'w) platform component_ops" where
  "consumer_ops lib =
     \<lparr>comp_name = consumer_Name,
      comp_start = (\<lambda>p. case consumer_start_call (pl_consumer lib, pf_nats p, pl_consumer_stop lib) (pf_consumer p) of
                          (err, c) \<Rightarrow> (err, p\<lparr>pf_consumer := c\<rparr>)),
      comp_check = (\<lambda>p. consumer_Check (pf_consumer p)),
      comp_close = (\<lambda>p. case consumer_close_call (pl_consumer lib, pf_nats p, pl_consumer_stop lib) (pf_consumer p) of
                          (err, c) \<Rightarrow> (err, p\<lparr>pf_consumer := c\<rparr>))\<rparr>"

definition relay_component_ops :: "('cfg, 'pool, 'conn, 'js, 'opt, 'cl, 's3, 'sub, 'w) platform_lib
    \<Rightarrow> ('pool, 'conn, 'js, 'opt, 'cl, 's3, 'sub, 'w) platform component_ops" where
  "relay_component_ops lib =
     \<lparr>comp_name = relay_Name,
      comp_start = (\<lambda>p. case relay_Start (pf_relay p) of (err, r) \<Rightarrow> (err, p\<lparr>pf_relay := r\<rparr>)),
      comp_check = (\<lambda>p. relay_Check (pf_relay p)),
      comp_close = (\<lambda>p. case relay_Close (pl_relay_stop lib) (pf_relay p) of (err, r) \<Rightarrow> (err, p\<lparr>pf_relay := r\<rparr>))\<rparr>"

text \<open>The dependencies in the order in which \<open>main\<close> hands them to \<open>NewSet\<close>.\<close>

definition platform_components :: "('cfg, 'pool, 'conn, 'js, 'opt, 'cl, 's3, 'sub, 'w) platform_lib
    \<Rightarrow> ('pool, 'conn, 'js, 'opt, 'cl, 's3, 'sub, 'w) platform component_ops list" where
  "platform_components lib =
     [database_ops lib, nats_ops lib, redis_ops lib, store_ops lib, consumer_ops lib, relay_component_ops lib]"

definition platform_up :: "nat \<Rightarrow> ('pool, 'conn, 'js, 'opt, 'cl, 's3, 'sub, 'w) platform \<Rightarrow> bool" where
  "platform_up i p =
     (if i = 0 then db_pool (pf_database p) \<noteq> None
      else if i = 1 then nc_connection (pf_nats p) \<noteq> None
      else if i = 2 then rd_client (pf_redis p) \<noteq> None
      else if i = 3 then st_client (pf_store p) \<noteq> None
      else if i = 4 then co_cancel (pf_consumer p)
      else i = 5 \<and> rl_cancel (pf_relay p))"

section \<open>The platform keeps the contract of the dependency set\<close>

text \<open>A component owns the part with index \<open>i\<close>: its start and close move this part alone, and it is
  ready only when the part is up.\<close>

definition owns :: "nat \<Rightarrow> ('pool, 'conn, 'js, 'opt, 'cl, 's3, 'sub, 'w) platform component_ops \<Rightarrow> bool" where
  "owns i c \<longleftrightarrow>
     (\<forall>p err p'. comp_start c p = (err, p') \<longrightarrow>
        (\<forall>j. platform_up j p' = (if j = i \<and> err = None then True else platform_up j p)))
     \<and> (\<forall>p err p'. comp_close c p = (err, p') \<longrightarrow> (\<forall>j. platform_up j p' = (j \<noteq> i \<and> platform_up j p)))
     \<and> (\<forall>p. comp_check c p = None \<longrightarrow> platform_up i p)"

text \<open>A component on one field of the platform owns the field's part, by the laws of its lifecycle.\<close>

lemma ownsI:
  assumes laws: "component Started Start Check Close"
    and up: "\<And>p. platform_up i p = Started (get p)"
    and start: "\<And>p. fst (comp_start c p) = fst (Start (e p) (get p)) \<and> get (snd (comp_start c p)) = snd (Start (e p) (get p))
      \<and> (\<forall>j. j \<noteq> i \<longrightarrow> platform_up j (snd (comp_start c p)) = platform_up j p)"
    and close: "\<And>p. get (snd (comp_close c p)) = snd (Close (e p) (get p))
      \<and> (\<forall>j. j \<noteq> i \<longrightarrow> platform_up j (snd (comp_close c p)) = platform_up j p)"
    and check: "\<And>p. comp_check c p = Check (e p) (get p)"
  shows "owns i c"
  unfolding owns_def
proof (intro conjI allI impI)
  show "platform_up j p' = (if j = i \<and> err = None then True else platform_up j p)"
    if "comp_start c p = (err, p')" for p err p' j
  proof (cases err)
    case None
    then have "Start (e p) (get p) = (None, get p')" using start [of p] that by (simp add: prod_eq_iff)
    with component.start_ok [OF laws] start [of p] that None show ?thesis by (auto simp: up)
  next
    case (Some x)
    then have "Start (e p) (get p) = (Some x, get p')" using start [of p] that by (simp add: prod_eq_iff)
    with component.start_failed [OF laws] have "get p' = get p" by blast
    moreover have "j \<noteq> i \<Longrightarrow> platform_up j p' = platform_up j p" using start [of p] that by simp
    ultimately show ?thesis using Some by (cases "j = i") (simp_all add: up)
  qed
  show "platform_up j p' = (j \<noteq> i \<and> platform_up j p)" if "comp_close c p = (err, p')" for p err p' j
    using close [of p] component.close_stops [OF laws, of "e p" "get p"] that by (cases "j = i") (auto simp: up)
  show "platform_up i p" if "comp_check c p = None" for p
    using component.check_idle [OF laws, of "get p" "e p"] that by (auto simp: up check)
qed

lemma database_owns: "owns 0 (database_ops lib)"
  by (rule ownsI [OF database_component.component_axioms, where get = pf_database and e = "\<lambda>p. pl_pgx lib"])
    (simp_all add: database_ops_def platform_up_def split: prod.split)

lemma nats_owns: "owns 1 (nats_ops lib)"
  by (rule ownsI [OF nats_component.component_axioms, where get = pf_nats and e = "\<lambda>p. (pl_nats lib, pl_drain lib)"])
    (simp_all add: nats_ops_def platform_up_def split: prod.split)

lemma redis_owns: "owns 2 (redis_ops lib)"
  by (rule ownsI [OF redis_component.component_axioms, where get = pf_redis and e = "\<lambda>p. pl_redis lib"])
    (simp_all add: redis_ops_def platform_up_def split: prod.split)

lemma store_owns: "owns 3 (store_ops lib)"
  by (rule ownsI [OF store_component.component_axioms, where get = pf_store and e = "\<lambda>p. (pl_s3 lib, pf_objects p)"])
    (simp_all add: store_ops_def store_start_call_def platform_up_def split: prod.split)

lemma consumer_owns: "owns 4 (consumer_ops lib)"
  by (rule ownsI [OF consumer_component.component_axioms, where get = pf_consumer
        and e = "\<lambda>p. (pl_consumer lib, pf_nats p, pl_consumer_stop lib)"])
    (simp_all add: consumer_ops_def platform_up_def split: prod.split)

lemma relay_owns: "owns 5 (relay_component_ops lib)"
  by (rule ownsI [OF relay_component.component_axioms, where get = pf_relay and e = "\<lambda>p. pl_relay_stop lib"])
    (simp_all add: relay_component_ops_def platform_up_def split: prod.split)

lemma platform_owns: "i < length (platform_components lib) \<Longrightarrow> owns i (platform_components lib ! i)"
  using database_owns [of lib] nats_owns [of lib] redis_owns [of lib] store_owns [of lib] consumer_owns [of lib]
    relay_owns [of lib]
  by (auto simp: platform_components_def nth_Cons' numeral_eq_Suc less_Suc_eq)

interpretation platform_set: managed_components "platform_components lib" platform_up for lib
proof unfold_locales
  fix i j w w' err cerr
  assume "i < length (platform_components lib)"
  note owner = platform_owns [OF this, unfolded owns_def]
  show "platform_up i w' \<and> (\<forall>j. j \<noteq> i \<longrightarrow> platform_up j w' = platform_up j w)"
    if "comp_start (platform_components lib ! i) w = (None, w')" using owner that by (metis (full_types))
  show "platform_up j w' = platform_up j w" if "comp_start (platform_components lib ! i) w = (Some err, w')"
    using owner that by (metis option.distinct(1))
  show "\<not> platform_up i w' \<and> (\<forall>j. j \<noteq> i \<longrightarrow> platform_up j w' = platform_up j w)"
    if "comp_close (platform_components lib ! i) w = (cerr, w')" using owner that by metis
  show "platform_up i w" if "comp_check (platform_components lib ! i) w = None" using owner that by blast
qed

section \<open>The command\<close>

text \<open>
  What \<open>main\<close> meets: the arguments and the environment of the process, the parsers of the
  libraries, clock and randomness, the contents of the database table of the consumer and of the
  object storage, and the course of the run.
\<close>

record ('opt, 'w, 'rq) main_env =
  me_args :: "string list"
  me_lookup :: lookup_env
  me_parse :: url_parser
  me_redis_parse :: "string \<Rightarrow> 'opt result"
  me_check_bucket :: "string \<Rightarrow> go_error option"
  me_now :: time
  me_random :: reader
  me_receipts :: "consumption list"
  me_objects :: 'w
  me_trusted_proxies :: "string list option \<Rightarrow> go_error option"
  me_recovery :: handler
  me_http :: http_env
  me_run :: run_env
  me_new_request :: "go_context \<Rightarrow> string \<Rightarrow> string \<Rightarrow> 'rq result"
  me_client :: "'rq \<Rightarrow> http_response result"

definition runHealthcheck :: "(go_context \<Rightarrow> string \<Rightarrow> string \<Rightarrow> 'rq result) \<Rightarrow> ('rq \<Rightarrow> http_response result)
    \<Rightarrow> go_error option" where
  "runHealthcheck NewRequest client =
     pr_error (healthcheck_Check NewRequest Background (Some client) ''http://127.0.0.1:8080/readyz'')"

definition database_settings :: "config \<Rightarrow> db_config" where
  "database_settings c =
     \<lparr>ConnectionString = Reveal (dbc_url (cfg_database c)), MaxConnections = dbc_max_connections (cfg_database c),
      MinConnections = dbc_min_connections (cfg_database c)\<rparr>"

definition store_settings :: "config \<Rightarrow> store_config" where
  "store_settings c =
     \<lparr>st_endpoint_url = osc_endpoint (cfg_object_storage c), st_bucket = osc_bucket (cfg_object_storage c),
      st_access_key = Reveal (osc_access_key (cfg_object_storage c)),
      st_secret_key = Reveal (osc_secret_key (cfg_object_storage c))\<rparr>"

definition relay_settings :: "config \<Rightarrow> relay_config" where
  "relay_settings c =
     \<lparr>PollInterval = oc_poll_interval (cfg_outbox c), LeaseDuration = oc_lease_duration (cfg_outbox c),
      BatchSize = oc_batch_size (cfg_outbox c), MaxAttempts = oc_max_attempts (cfg_outbox c),
      BaseBackoff = oc_base_backoff (cfg_outbox c), MaxBackoff = oc_max_backoff (cfg_outbox c)\<rparr>"

text \<open>An error carries the message \<open>main\<close> logs with it.\<close>

definition configure :: "string \<Rightarrow> 'a result \<Rightarrow> ('a \<Rightarrow> (string \<times> go_error) + 'b) \<Rightarrow> (string \<times> go_error) + 'b" where
  "configure message r k = (case r of Inl err \<Rightarrow> Inl (message, err) | Inr x \<Rightarrow> k x)"

definition new_process :: "('opt, 'w, 'rq) main_env \<Rightarrow> ('cfg, 'pool, 'conn, 'js, 'opt, 'cl, 's3, 'sub, 'w) platform_lib
    \<Rightarrow> config \<Rightarrow> (string \<times> go_error) + (('pool, 'conn, 'js, 'opt, 'cl, 's3, 'sub, 'w) platform dependency_set
         \<times> ('pool, 'conn, 'js, 'opt, 'cl, 's3, 'sub, 'w) platform)" where
  "new_process env lib c =
     (let logger = logging_New (cfg_log_level c) (cfg_environment c) in
     configure ''configure PostgreSQL'' (database_New (px_parse (pl_pgx lib)) (database_settings c)) (\<lambda>databaseConnection.
     configure ''configure NATS'' (nats_New (Reveal (cfg_nats_url c))) (\<lambda>natsConnection.
     configure ''configure Redis''
       (redis_New (me_redis_parse env) (Reveal (rc_url (cfg_redis c))) (rc_key_prefix (cfg_redis c))) (\<lambda>redisConnection.
     configure ''configure object storage'' (store_New (me_parse env) (me_check_bucket env) (store_settings c)) (\<lambda>objectStore.
     configure ''configure outbox relay''
       (fst (NewRelay (Some databaseConnection) (Some natsConnection) (Some logger) (relay_settings c)
               (me_now env) (me_random env))) (\<lambda>outboxRelay.
     configure ''configure infrastructure event consumer''
       (consumer_New (Some databaseConnection) (Some natsConnection) (Some logger) (me_receipts env)) (\<lambda>proofConsumer.
     configure ''configure runtime dependencies''
       (NewSet (cfg_readiness_timeout c) (map Some (platform_components lib))) (\<lambda>dependencies.
     Inr (dependencies,
          \<lparr>pf_database = databaseConnection, pf_nats = natsConnection, pf_redis = redisConnection,
           pf_store = objectStore, pf_consumer = proofConsumer, pf_relay = outboxRelay,
           pf_objects = me_objects env\<rparr>)))))))))"

text \<open>The exit status of the process, what it logs as an error, and the run with its final state. The
  server is built over the report of its dependencies; \<open>Run\<close> needs its address only.\<close>

record ('s, 'c) main_result =
  mr_exit :: nat
  mr_log :: "(string \<times> go_error) option"
  mr_run :: "('s \<times> 'c) option"

definition api_main :: "('opt, 'w, 'rq) main_env \<Rightarrow> ('cfg, 'pool, 'conn, 'js, 'opt, 'cl, 's3, 'sub, 'w) platform_lib
    \<Rightarrow> (('pool, 'conn, 'js, 'opt, 'cl, 's3, 'sub, 'w) platform dependency_set
          \<times> ('pool, 'conn, 'js, 'opt, 'cl, 's3, 'sub, 'w) platform, run_call list) main_result" where
  "api_main env lib =
     (if length (me_args env) = 2 \<and> me_args env ! 1 = ''healthcheck'' then
        (case runHealthcheck (me_new_request env) (me_client env) of
           Some err \<Rightarrow> \<lparr>mr_exit = 1, mr_log = Some ([], err), mr_run = None\<rparr>
         | None \<Rightarrow> \<lparr>mr_exit = 0, mr_log = None, mr_run = None\<rparr>)
      else
     (case Load (me_parse env) (me_lookup env) of
        Inl err \<Rightarrow> \<lparr>mr_exit = 1, mr_log = Some (''invalid runtime configuration'', err), mr_run = None\<rparr>
      | Inr configuration \<Rightarrow>
     (case new_process env lib configuration of
        Inl failure \<Rightarrow> \<lparr>mr_exit = 1, mr_log = Some failure, mr_run = None\<rparr>
      | Inr (dependencies, p) \<Rightarrow>
     (case http_New (me_trusted_proxies env) (me_recovery env) (me_http env)
             (\<lambda>_. Readiness [0..<length (ds_components dependencies)] dependencies p) (cfg_http_address configuration) of
        Inl panic \<Rightarrow> \<lparr>mr_exit = 2, mr_log = Some ([], panic), mr_run = None\<rparr>
      | Inr server \<Rightarrow>
     (case Run deps_Start deps_Close (srv_addr server) (me_run env) (dependencies, p) of
        (Some err, s, calls) \<Rightarrow>
          \<lparr>mr_exit = 1, mr_log = Some (''API process stopped with an error'', err), mr_run = Some (s, calls)\<rparr>
      | (None, s, calls) \<Rightarrow> \<lparr>mr_exit = 0, mr_log = None, mr_run = Some (s, calls)\<rparr>)))))"

section \<open>Lemmas\<close>

lemma platform_size: "length (platform_components lib) = 6"
  by (simp add: platform_components_def)

lemma all_less_six: "(\<forall>i < 6. P i) \<longleftrightarrow> P 0 \<and> P 1 \<and> P 2 \<and> P 3 \<and> P 4 \<and> P 5" for P :: "nat \<Rightarrow> bool"
  by (simp add: All_less_Suc eval_nat_numeral) blast

lemma configure_Inr_iff: "configure message r k = Inr y \<longleftrightarrow> (\<exists>x. r = Inr x \<and> k x = Inr y)"
  by (simp add: configure_def split: sum.split)

lemma platform_names:
  "map comp_name (platform_components lib) =
    [''postgres'', ''nats'', ''redis'', ''object-storage'', ''event-consumer'', ''outbox-relay'']"
  by (simp add: platform_components_def database_ops_def nats_ops_def redis_ops_def store_ops_def
      consumer_ops_def relay_component_ops_def database_Name_def nats_Name_def redis_Name_def store_Name_def
      consumer_Name_def relay_Name_def)

lemma platform_names_accepted: "name_error {} (map Some (platform_components lib)) = None"
proof -
  have "names_ok {} (platform_components lib)"
    unfolding names_ok_def platform_names by simp
  then show ?thesis unfolding name_error_None by blast
qed

lemma present_map_Some: "List.map_filter (\<lambda>c. c) (map Some xs) = xs"
  by (induction xs) (simp_all add: map_filter_simps)

lemma NewSet_platform: "NewSet timeout (map Some (platform_components lib)) = Inr ds \<longleftrightarrow>
    0 < timeout \<and> ds = \<lparr>ds_components = platform_components lib, ds_timeout = timeout, ds_active = False, ds_started = 0\<rparr>"
  by (auto simp: NewSet_def platform_names_accepted present_map_Some)

lemma idle_components:
  "database_New P d = Inr db \<Longrightarrow> db_pool db = None" "nats_New u = Inr n \<Longrightarrow> nc_connection n = None"
  "redis_New R u k = Inr rd \<Longrightarrow> rd_client rd = None" "store_New Q B sc = Inr st \<Longrightarrow> st_client st = None"
  "fst (NewRelay a b l rc now r) = Inr rl \<Longrightarrow> \<not> rl_cancel rl" "consumer_New x y z t = Inr co \<Longrightarrow> \<not> co_cancel co"
  by (auto simp: database_New_def nats_New_def redis_New_def store_New_def NewRelay_def consumer_New_def Let_def
      split: sum.splits if_splits prod.splits option.splits)

lemma new_process_idle:
  assumes "new_process env lib c = Inr (ds, p)"
  shows "ds_components ds = platform_components lib" and "\<not> ds_active ds" and "ds_started ds = 0" and "\<not> platform_up i p"
  using assms
  by (auto simp: new_process_def Let_def configure_Inr_iff NewSet_platform platform_up_def dest: idle_components)

lemma new_process_consistent:
  "new_process env lib c = Inr (ds, p) \<Longrightarrow> managed_components.consistent (platform_components lib) platform_up ds p"
  by (simp add: platform_set.consistent_def new_process_idle)

lemma api_main_run:
  assumes "mr_run (api_main env lib) = Some (s, calls)"
  obtains c ds p addr err where "Load (me_parse env) (me_lookup env) = Inr c" "new_process env lib c = Inr (ds, p)"
    "Run deps_Start deps_Close addr (me_run env) (ds, p) = (err, s, calls)"
proof -
  have "\<exists>c ds p addr err. Load (me_parse env) (me_lookup env) = Inr c \<and> new_process env lib c = Inr (ds, p)
      \<and> Run deps_Start deps_Close addr (me_run env) (ds, p) = (err, s, calls)"
    using assms by (auto simp: api_main_def split: if_splits option.splits sum.splits prod.splits)
  then show thesis using that by blast
qed

lemma redis_prefix_ok:
  assumes "MatchString redisKeyPrefixPattern p"
  shows "p \<noteq> [] \<and> CHR '':'' \<notin> set p"
proof -
  let ?A = "RClass [(CHR ''a'', CHR ''z'')]"
    and ?B = "RClass [(CHR ''a'', CHR ''z''), (CHR ''0'', CHR ''9''), (CHR ''_'', CHR ''_''), (CHR ''-'', CHR ''-'')]"
  have shape: "redisKeyPrefixPattern = RSeq ?A (RSeq ?B (RUpTo ?B 61))"
    by (simp add: redisKeyPrefixPattern_def)
  have "CHR '':'' \<notin> alphabet ?A" "CHR '':'' \<notin> alphabet ?B"
    by (simp_all add: in_class_def byte_between_def)
  with alphabet_RUpTo [of ?B 61] have "CHR '':'' \<notin> alphabet redisKeyPrefixPattern"
    unfolding shape alphabet.simps(4) by blast
  moreover have "[] \<notin> lang redisKeyPrefixPattern"
    unfolding shape by simp
  ultimately show ?thesis
    using assms lang_alphabet [of p redisKeyPrefixPattern] by (auto simp: MatchString_lang)
qed

lemma load_redis_trimmed: "load_redis Parse lookup = Inr c \<Longrightarrow> TrimSpace (rc_key_prefix c) = rc_key_prefix c"
proof -
  have "TrimSpace ''manoreck'' = ''manoreck''" by code_simp
  then show "load_redis Parse lookup = Inr c \<Longrightarrow> TrimSpace (rc_key_prefix c) = rc_key_prefix c"
    by (auto simp: load_redis_def valueOrDefault_def Let_def split: option.splits if_splits)
qed

lemma outbox_bounds_policy: "outbox_bounds (cfg_outbox c) \<Longrightarrow> relay_policy_error (relay_settings c) = None"
  by (auto simp: outbox_bounds_def relay_policy_error_def relay_settings_def Millisecond_def Second_def)

text \<open>When the constructors succeed, as rules that drop the constructed value.\<close>

lemma constructors_Inr:
  "(\<exists>x. database_New P d = Inr x) \<longleftrightarrow>
    (1 \<le> MaxConnections d \<and> 0 \<le> MinConnections d \<and> MinConnections d \<le> MaxConnections d
     \<and> (\<exists>cfg. P (ConnectionString d) = Inr cfg))"
  "(\<exists>x. nats_New url = Inr x) \<longleftrightarrow> url \<noteq> []"
  "(\<exists>x. fst (NewRelay (Some a) (Some b) (Some l) rc now r) = Inr x) \<longleftrightarrow>
    (relay_policy_error rc = None \<and> 16 \<le> length (pending r))"
  "(\<exists>x. consumer_New (Some a) (Some b) (Some l) t = Inr x) \<longleftrightarrow> True"
  by (auto simp: database_New_def nats_New_def NewRelay_def newUUIDv7_def ReadFull_def consumer_New_def
      split: sum.splits option.splits)

lemma redis_New_Inr:
  "(\<exists>x. redis_New P u k = Inr x) \<longleftrightarrow>
    ((\<exists>opt. P u = Inr opt) \<and> k \<noteq> [] \<and> TrimSpace k = k \<and> CHR '':'' \<notin> set k)"
  by (auto simp: redis_New_def Contains_iff Let_def in_set_conv_decomp split: sum.splits)

lemma store_New_Inr:
  "(\<exists>x. store_New P B sc = Inr x) \<longleftrightarrow> (validateObjectStorageEndpoint P (st_endpoint_url sc) = None
    \<and> B (st_bucket sc) = None \<and> st_access_key sc \<noteq> [] \<and> st_secret_key sc \<noteq> [])"
  by (auto simp: store_New_def validateObjectStorageEndpoint_def bare_endpoint_def split: sum.splits option.splits)

lemma new_process_Inr_iff:
  "(\<exists>s. new_process env lib c = Inr s) \<longleftrightarrow>
     1 \<le> dbc_max_connections (cfg_database c) \<and> 0 \<le> dbc_min_connections (cfg_database c)
   \<and> dbc_min_connections (cfg_database c) \<le> dbc_max_connections (cfg_database c)
   \<and> (\<exists>cfg. px_parse (pl_pgx lib) (Reveal (dbc_url (cfg_database c))) = Inr cfg)
   \<and> Reveal (cfg_nats_url c) \<noteq> []
   \<and> (\<exists>opt. me_redis_parse env (Reveal (rc_url (cfg_redis c))) = Inr opt) \<and> rc_key_prefix (cfg_redis c) \<noteq> []
   \<and> TrimSpace (rc_key_prefix (cfg_redis c)) = rc_key_prefix (cfg_redis c) \<and> CHR '':'' \<notin> set (rc_key_prefix (cfg_redis c))
   \<and> validateObjectStorageEndpoint (me_parse env) (osc_endpoint (cfg_object_storage c)) = None
   \<and> me_check_bucket env (osc_bucket (cfg_object_storage c)) = None
   \<and> Reveal (osc_access_key (cfg_object_storage c)) \<noteq> [] \<and> Reveal (osc_secret_key (cfg_object_storage c)) \<noteq> []
   \<and> relay_policy_error (relay_settings c) = None \<and> 16 \<le> length (pending (me_random env))
   \<and> 0 < cfg_readiness_timeout c"
proof -
  have ex: "(\<exists>s. configure m r k = Inr s) \<longleftrightarrow> (\<exists>x. r = Inr x \<and> (\<exists>s. k x = Inr s))" for m r k
    by (auto simp: configure_Inr_iff)
  show ?thesis
    unfolding new_process_def Let_def ex
    by (simp add: constructors_Inr redis_New_Inr store_New_Inr NewSet_platform database_settings_def store_settings_def)
qed

lemma Load_constructs:
  assumes "Load (me_parse env) (me_lookup env) = Inr c" and "\<And>u. me_parse env [] = Inr u \<Longrightarrow> url_host u = []"
  shows "(\<exists>s. new_process env lib c = Inr s) \<longleftrightarrow>
    (\<exists>cfg. px_parse (pl_pgx lib) (Reveal (dbc_url (cfg_database c))) = Inr cfg)
    \<and> (\<exists>opt. me_redis_parse env (Reveal (rc_url (cfg_redis c))) = Inr opt)
    \<and> me_check_bucket env (osc_bucket (cfg_object_storage c)) = None \<and> 16 \<le> length (pending (me_random env))"
proof -
  from assms(1) obtain server where parts: "load_server (me_lookup env) = Inr server"
    "load_database (me_parse env) (me_lookup env) = Inr (cfg_database c)"
    "load_nats_outbox (me_parse env) (me_lookup env) = Inr (cfg_nats_url c, cfg_outbox c)"
    "load_redis (me_parse env) (me_lookup env) = Inr (cfg_redis c)"
    "load_object_storage (me_parse env) (me_lookup env) = Inr (cfg_object_storage c)"
    "cfg_readiness_timeout c = cfg_readiness_timeout server"
    by (rule Load_parts)
  have "Reveal (cfg_nats_url c) \<noteq> []"
    using load_nats_outbox_url [OF parts(3)] assms(2) by (auto simp: validateNATSURL_def split: sum.splits if_splits)
  moreover have "0 < cfg_readiness_timeout c"
    using load_server_bounds [OF parts(1)] parts(6) by (simp add: Second_def)
  ultimately show ?thesis
    using load_database_bounds [OF parts(2)] outbox_bounds_policy [OF load_nats_outbox_bounds [OF parts(3)]]
      load_redis_trimmed [OF parts(4)] redis_prefix_ok load_redis_bounds [OF parts(4)] load_object_storage_bounds [OF parts(5)]
    unfolding new_process_Inr_iff by auto
qed

lemma api_main_runs:
  assumes "length (me_args env) \<noteq> 2" and "Load (me_parse env) (me_lookup env) = Inr c"
    and "new_process env lib c = Inr s" and "me_trusted_proxies env None = None"
  shows "\<exists>s' calls. mr_run (api_main env lib) = Some (s', calls)"
  using assms by (auto simp: api_main_def http_New_def split: prod.split option.split)

section \<open>Properties\<close>


text \<open>Libraries that answer every call, and an empty environment, for the witnesses.\<close>

definition demo_platform_lib ::
  "(unit, unit, nat, nat, unit, unit, unit, unit, string \<times> string \<rightharpoonup> string \<times> int \<times> string) platform_lib" where
  "demo_platform_lib =
     \<lparr>pl_pgx = \<lparr>px_parse = (\<lambda>_. Inr ()), px_new_pool = (\<lambda>_ _ _. Inr ()), px_ping = (\<lambda>_. None)\<rparr>,
      pl_nats = (demo_nats_lib None)\<lparr>nl_stream_info := (\<lambda>_ _. None)\<rparr>, pl_drain = Drained None,
      pl_redis = \<lparr>rl_new_client = (\<lambda>_. ()), rl_ping = (\<lambda>_. None), rl_close = (\<lambda>_. None)\<rparr>, pl_s3 = demo_s3,
      pl_consumer = \<lparr>cl_consumer_info = (\<lambda>_ _ _. None), cl_add_consumer = (\<lambda>_ _ _. None),
        cl_update_consumer = (\<lambda>_ _ _. None), cl_pull_subscribe = (\<lambda>_ _ _ _. Inr ())\<rparr>,
      pl_consumer_stop = WorkerDone, pl_relay_stop = WorkerDone\<rparr>"

definition demo_main_env :: "(unit, string \<times> string \<rightharpoonup> string \<times> int \<times> string, unit) main_env" where
  "demo_main_env =
     \<lparr>me_args = [''api''], me_lookup = (\<lambda>_. None), me_parse = demo_parse, me_redis_parse = (\<lambda>_. Inr ()),
      me_check_bucket = (\<lambda>_. None), me_now = 0, me_random = \<lparr>pending = replicate 16 0, ends_with = Sentinel EOF\<rparr>,
      me_receipts = [], me_objects = Map.empty, me_trusted_proxies = (\<lambda>_. None), me_recovery = (\<lambda>rest. rest),
      me_http = probe_http_env,
      me_run = \<lparr>re_listen = Some (External ''address in use''), re_stop = ShutdownRequested, re_shutdown = None\<rparr>,
      me_new_request = (\<lambda>_ _ _. Inr ()), me_client = (\<lambda>_. Inr \<lparr>resp_status = 200, resp_body = []\<rparr>)\<rparr>"

lemma demo_main_load: "Load (me_parse demo_main_env) (me_lookup demo_main_env) = Inr default_config"
  by (simp add: demo_main_env_def demo_load)

lemma demo_main_parse: "me_parse demo_main_env [] = Inr u \<Longrightarrow> url_host u = []"
  by (simp add: demo_main_env_def demo_parse_def defaultDatabaseURL_def defaultNATSURL_def defaultRedisURL_def
      defaultObjectStorageEndpoint_def Let_def)

lemma demo_main_constructs: "\<exists>s. new_process demo_main_env demo_platform_lib default_config = Inr s"
  using Load_constructs [OF demo_main_load demo_main_parse, of demo_platform_lib]
  by (simp add: demo_main_env_def demo_platform_lib_def)


text \<open>
  C25. The configuration is checked once, and completely: when \<open>Load\<close> accepts the environment, the
  constructors of the dependencies accept its settings too. Building the process can then fail only
  because a library refuses a value that \<open>Load\<close> does not parse in full (the PostgreSQL and Redis URLs, the
  bucket name) or because there is no randomness for the worker identifier. (The URL parser is
  assumed to find no host in an empty text.)
\<close>

theorem process_configured:
  assumes "Load (me_parse env) (me_lookup env) = Inr c" and "\<And>u. me_parse env [] = Inr u \<Longrightarrow> url_host u = []"
  shows "(\<exists>s. new_process env lib c = Inr s) \<longleftrightarrow>
    (\<exists>cfg. px_parse (pl_pgx lib) (Reveal (dbc_url (cfg_database c))) = Inr cfg)
    \<and> (\<exists>opt. me_redis_parse env (Reveal (rc_url (cfg_redis c))) = Inr opt)
    \<and> me_check_bucket env (osc_bucket (cfg_object_storage c)) = None \<and> 16 \<le> length (pending (me_random env))"
  using assms by (rule Load_constructs)

theorem process_configured_witness:
  "\<exists>s. new_process demo_main_env demo_platform_lib default_config = Inr s"
  using process_configured [OF demo_main_load demo_main_parse, of demo_platform_lib]
  by (simp add: demo_main_env_def demo_platform_lib_def)

text \<open>
  C26. What a ready report promises: the database answers a ping, NATS is connected and has the events
  stream, Redis answers a ping, the bucket exists, and the consumer and the relay are running without
  an error from their last round.
\<close>

theorem ready_means_working:
  assumes "ds_components ds = platform_components lib" and "set order = {..<6}"
    and "report_ready (Readiness order ds p)"
  shows "(\<exists>pool. db_pool (pf_database p) = Some pool \<and> px_ping (pl_pgx lib) pool = None)
    \<and> (\<exists>connection js. nc_connection (pf_nats p) = Some connection \<and> nl_is_connected (pl_nats lib) connection
        \<and> nc_jetStream (pf_nats p) = Some js \<and> nl_stream_info (pl_nats lib) js EventsStream = None)
    \<and> (\<exists>client. rd_client (pf_redis p) = Some client \<and> rl_ping (pl_redis lib) client = None)
    \<and> (\<exists>client. st_client (pf_store p) = Some client
        \<and> s3_bucket_exists (pl_s3 lib) client (st_bucket (st_configuration (pf_store p))) (pf_objects p) = Inr True)
    \<and> co_cancel (pf_consumer p) \<and> cw_lastError (pf_consumer p) = None
    \<and> rl_cancel (pf_relay p) \<and> rl_lastError (pf_relay p) = None"
proof -
  have "\<forall>c \<in> set (platform_components lib). comp_check c p = None"
    using assms Readiness_ready_iff [of order ds p] by (simp add: platform_size)
  then have checks: "database_Check (px_ping (pl_pgx lib)) (pf_database p) = None" "nats_Check (pl_nats lib) (pf_nats p) = None"
    "redis_Check (rl_ping (pl_redis lib)) (pf_redis p) = None" "store_Check (pl_s3 lib) (pf_store p) (pf_objects p) = None"
    "consumer_Check (pf_consumer p) = None" "relay_Check (pf_relay p) = None"
    by (simp_all add: platform_components_def database_ops_def nats_ops_def redis_ops_def store_ops_def consumer_ops_def
        relay_component_ops_def)
  have "\<exists>pool. db_pool (pf_database p) = Some pool \<and> px_ping (pl_pgx lib) pool = None"
    using checks(1) by (auto simp: database_Check_def database_Pool_def split: option.splits)
  moreover have "\<exists>connection js. nc_connection (pf_nats p) = Some connection \<and> nl_is_connected (pl_nats lib) connection
      \<and> nc_jetStream (pf_nats p) = Some js \<and> nl_stream_info (pl_nats lib) js EventsStream = None"
    using checks(2) by (auto simp: nats_Check_def split: option.splits if_splits)
  moreover have "\<exists>client. rd_client (pf_redis p) = Some client \<and> rl_ping (pl_redis lib) client = None"
    using checks(3) by (auto simp: redis_Check_def redis_startedClient_def split: option.splits)
  moreover have "\<exists>client. st_client (pf_store p) = Some client
      \<and> s3_bucket_exists (pl_s3 lib) client (st_bucket (st_configuration (pf_store p))) (pf_objects p) = Inr True"
    using checks(4) by (auto simp: store_Check_def store_startedClient_def split: option.splits sum.splits if_splits)
  ultimately show ?thesis
    using checks(5,6) by (auto simp: consumer_Check_def relay_Check_def split: if_splits)
qed

definition demo_running_platform ::
  "(unit, nat, nat, unit, unit, unit, unit, string \<times> string \<rightharpoonup> string \<times> int \<times> string) platform" where
  "demo_running_platform =
     \<lparr>pf_database = running_db, pf_nats = \<lparr>nc_url = defaultNATSURL, nc_connection = Some 1, nc_jetStream = Some 2\<rparr>,
      pf_redis = \<lparr>rd_options = (), rd_keyPrefix = ''manoreck'', rd_client = Some ()\<rparr>, pf_store = demo_store,
      pf_consumer = \<lparr>cw_receipts = [], cw_dead = [], cw_signals = [], cw_lastError = None, cw_log = [],
        co_cancel = True, co_subscription = Some ()\<rparr>,
      pf_relay = \<lparr>rl_config = relay_settings default_config, rl_workerID = [], rl_cancel = True, rl_lastError = None\<rparr>,
      pf_objects = Map.empty\<rparr>"

theorem ready_means_working_witness:
  "report_ready (Readiness [5, 4, 3, 2, 1, 0] \<lparr>ds_components = platform_components demo_platform_lib, ds_timeout = Second,
      ds_active = True, ds_started = 6\<rparr> demo_running_platform)
   \<and> (\<exists>pool. db_pool (pf_database demo_running_platform) = Some pool \<and> px_ping (pl_pgx demo_platform_lib) pool = None)"
proof -
  let ?ds = "\<lparr>ds_components = platform_components demo_platform_lib, ds_timeout = Second, ds_active = True, ds_started = 6\<rparr>"
  have order: "set [5, 4, 3, 2, 1, 0] = {..<6 :: nat}" by auto
  have "\<forall>c \<in> set (platform_components demo_platform_lib). comp_check c demo_running_platform = None"
    by (simp add: platform_components_def database_ops_def nats_ops_def redis_ops_def store_ops_def consumer_ops_def
        relay_component_ops_def database_Check_def database_Pool_def nats_Check_def redis_Check_def redis_startedClient_def
        store_Check_def store_startedClient_def consumer_Check_def relay_Check_def demo_platform_lib_def
        demo_running_platform_def running_db_def demo_nats_lib_def demo_store_def demo_s3_def)
  then have ready: "report_ready (Readiness [5, 4, 3, 2, 1, 0] ?ds demo_running_platform)"
    using Readiness_ready_iff [of "[5, 4, 3, 2, 1, 0]" ?ds demo_running_platform] order by (simp add: platform_size)
  from ready_means_working [of ?ds demo_platform_lib, OF _ order ready] ready show ?thesis by simp
qed

end
