(* ===== verification/Spec2Isabelle.thy ===== *)
theory Spec2Isabelle
  imports Pipeline DecodedText Process
begin

text \<open>
  A verification library for the Mano-Reck backend (Go, \<open>src/backend\<close>).

  \<^bold>\<open>The program.\<close> One process (\<open>cmd/api/main.go\<close>) loads its configuration, builds six dependencies
  (PostgreSQL pool, NATS client, Redis client, object store, event consumer, outbox relay), starts
  them in order, serves the HTTP probes and shuts down in reverse order. Its core is the
  transactional outbox: events are inserted with the business transaction, leased in batches by
  relay workers, published to JetStream and marked; a durable consumer records each event once.
  Every package of \<open>internal/platform\<close> and the command itself are modelled.

  \<^bold>\<open>The theories\<close>, each with the source it translates.
  \<^item> \<open>Prelude\<close>: errors (\<open>go_error\<close> with \<open>errors.Is\<close> and \<open>errors.Join\<close>), results, 64-bit integers with
    their wrap-around, durations. \<open>GoText\<close>, \<open>Regex\<close>, \<open>Json\<close>, \<open>JsonEncode\<close>, \<open>JsonDecode\<close>, \<open>GoTime\<close>,
    \<open>Sha256\<close>, \<open>GoNet\<close>: what the source uses of \<open>strings\<close>, \<open>bytes\<close>, \<open>strconv\<close>, \<open>regexp\<close>, \<open>encoding/json\<close>
    (syntax check, encoding of strings and structs, unquoting, field lookup, compaction of raw
    data), \<open>time\<close> (calendar, RFC 3339 in both directions), \<open>crypto/sha256\<close>, \<open>net\<close> and \<open>log/slog\<close>.
    \<open>JsonGrammar\<close> is the reference grammar of JSON, and shows that the reader accepts exactly its texts.
  \<^item> \<open>Identifier\<close> (identifier/uuidv7.go): creation of UUIDv7 on bytes and words, and their check.
  \<^item> \<open>Event\<close> (event/envelope.go): the envelope, \<open>Validate\<close>, \<open>Subject\<close>. \<open>EnvelopeCodec\<close>: its JSON form,
    written (\<open>marshal_envelope\<close>) and read (\<open>Unmarshal\<close>) as its struct tags say. \<open>EnvelopeStore\<close>: what a
    \<open>jsonb\<close> column gives back of it (\<open>jsonb_faithful\<close>).
  \<^item> \<open>Lifecycle\<close>: the locale \<open>component\<close>, the contract of \<open>dependency.Component\<close>; interpreted by each
    of the six dependencies.
  \<^item> \<open>Database\<close> (database/database.go, transaction.go), \<open>Nats\<close> (natsclient/client.go), \<open>Redis\<close>
    (redisclient/client.go), \<open>ObjectStorage\<close> (objectstorage/store.go): state as a record, one
    definition per method, the client library an argument.
  \<^item> \<open>Outbox\<close>, \<open>OutboxSpec\<close> (outbox/repository.go and the table of
    migrations/000002_outbox_and_consumers.up.sql): rows, constraints and statements; the step
    relation \<open>outbox_step\<close>; contracts of the operations.
  \<^item> \<open>Relay\<close>, \<open>RelaySystem\<close>, \<open>RelayProgress\<close> (outbox/relay.go): the batch over the interface
    \<open>RelayRepository\<close>/\<open>Publisher\<close> (locale \<open>relay_backend\<close>), the same control flow in single
    operations, and the system of producers, any number of workers, table and stream
    (\<open>system_step\<close>, \<open>reachable_system\<close>).
  \<^item> \<open>Consumer\<close>, \<open>ConsumerSpec\<close> (eventconsumer/consumer.go): processing of deliveries, dead letters,
    lifecycle; sequences of deliveries under the server's delivery limit.
  \<^item> \<open>Pipeline\<close>: the outbox system and the consumer together, from the inserted envelope to the receipt.
    \<open>DecodedText\<close>: what reading any text gives.
  \<^item> \<open>Dependency\<close> (dependency/set.go): ordered start, reverse close, concurrent readiness; the locale
    \<open>managed_components\<close>. \<open>Runtime\<close> (appruntime/run.go): \<open>Run\<close>; the locale
    \<open>runtime_dependencies\<close>, which every managed set satisfies.
  \<^item> \<open>Logging\<close> (logging/logging.go): the logger's level and attributes.
  \<^item> \<open>Config\<close> (config/config.go): \<open>Load\<close> with every default, bound and error.
  \<^item> \<open>Http\<close> (httpserver/server.go, requestcontext/identifiers.go, healthcheck/check.go).
  \<^item> \<open>Process\<close> (cmd/api/main.go): the six dependencies on one state, interpreting
    \<open>managed_components\<close>, and \<open>main\<close>.

  \<^bold>\<open>What is shown.\<close>
  \<^item> Delivery: at-least-once publication, no phantom messages, and no lost event in every reachable
    state of the outbox system (crashes, expired leases, lost acknowledgements included); batches
    publish what is due, and no row that \<open>Insert\<close> accepts can stop them (for events with data nested
    less than 10000 deep and a zone of whole minutes: \<open>deliverable\<close>); backoff without overflow.
  \<^item> End to end: the envelope inserted is the envelope consumed; a published event is consumed unless
    all five deliveries fail; every receipt belongs to a committed event.
  \<^item> Consumption: idempotence, soundness of each signal sent to the broker, consumption when one of
    the permitted deliveries succeeds, the one path on which an event is lost, and that every dead
    letter is well-formed JSON with the hash in place of the payload.
  \<^item> Storage: the table constraints as an invariant, the life cycle of rows, exclusiveness of leases,
    exact contracts of \<open>Claim\<close>, \<open>MarkPublished\<close>, \<open>MarkFailed\<close>, \<open>Insert\<close>, atomicity of transactions,
    round trips of the Redis and object-storage adapters.
  \<^item> Data: validity, order and exact recognition of identifiers, exact validation of envelopes,
    injectivity of subjects; exactness of the JSON check against the grammar.
  \<^item> Process: order of start and shutdown, release of everything on every path, exactness of
    readiness and of the HTTP answers, traceability of requests, bounds, defaults and secrecy of the
    configuration, and agreement of the configuration with the constructors.

  \<^bold>\<open>How the environment enters.\<close> Clock readings, randomness, results of library calls, orders of
  goroutines and crashes are arguments or choices of a step relation, so a theorem holds for all of
  them. Code outside the repository is an argument: PostgreSQL's casts and \<open>jsonb\<close> (\<open>pg\<close>), the
  drivers, the Gin engine, \<open>url.Parse\<close> (whose accepted host syntax depends on the Go
  release). Where a property needs a law of such code it is a named hypothesis: \<open>storage_laws\<close>
  (\<open>uuid\<close> columns return canonical texts, \<open>jsonb\<close> columns the same value, \<open>RETURNING\<close> every row once),
  \<open>gin_laws\<close>; a witness instantiates it. A time is the nanoseconds of its instant; the zone an
  envelope's \<open>occurred_at\<close> carries is its offset in seconds, \<open>occurred_offset\<close>.

  \<^bold>\<open>Bounds and fuel.\<close> The JSON reader has fuel one above the length of its input, which
  \<open>json_parse_iff\<close> shows to be enough. The polling and fetch loops take the list of their turns; everything else
  is total, by structural recursion or a measure. Durations and counters are kept at 64 bits with
  the wrap-around written out (\<open>i64\<close>), \<open>integer\<close> columns at 32 bits (\<open>in_i32\<close>).

  \<^bold>\<open>Not modelled.\<close> Mutual
  exclusion itself (each method is one step on its state; the interleaving of the relay's calls is
  modelled), the rendering of error texts and log lines, and everything outside the backend: front end, compose
  files, scripts.
\<close>

end
